(* ===== verification/Zeq_Prelude.thy ===== *)
theory Zeq_Prelude
  imports Main "HOL-Library.Word" "HOL-Library.Char_ord" "HOL-Library.List_Lexorder"
begin

text \<open>
  Shared vocabulary of the development: exceptions as values, byte strings, the parts of
  \<^verbatim>\<open>std::string\<close> the code calls (\<open>find\<close>, \<open>find_last_of\<close>, \<open>substr\<close>), decimal conversion
  (\<^verbatim>\<open>std::to_string\<close>, \<^verbatim>\<open>std::stoi\<close>), and the interfaces of the code ZeroEQ calls but does not
  contain: the C API of ZeroMQ and the operating system calls. Those two interfaces are
  records of functions over an abstract world \<open>'w\<close>; every definition that uses them takes the
  record as an argument and nothing is assumed about it here.
\<close>

section \<open>Exceptions and outcomes\<close>

text \<open>
  A thrown C++ exception is a value. \<open>Undefined\<close> is not an exception: it marks a run that
  reaches behaviour the C++ standard leaves undefined (a read past a buffer, a call through a
  null pointer), which no handler of the code can catch.
\<close>

datatype exn =
    Runtime_error string
  | Invalid_argument string
  | Out_of_range string
  | Logic_error string
  | Future_error string
  | Foreign_exception
  | Undefined string

type_synonym ('s, 'a) outcome = "'s \<times> (exn + 'a)"

fun is_undefined :: "exn \<Rightarrow> bool" where
  "is_undefined (Undefined _) = True"
| "is_undefined _ = False"

text \<open>The exceptions that \<^verbatim>\<open>catch (const std::exception&)\<close> sees, with their \<^verbatim>\<open>what()\<close>.\<close>

fun what_of :: "exn \<Rightarrow> string option" where
  "what_of (Runtime_error m) = Some m"
| "what_of (Invalid_argument m) = Some m"
| "what_of (Out_of_range m) = Some m"
| "what_of (Logic_error m) = Some m"
| "what_of (Future_error m) = Some m"
| "what_of Foreign_exception = None"
| "what_of (Undefined _) = None"

text \<open>Sequencing of steps that may throw: the state reached is kept when the step throws.\<close>

definition and_then :: "('s, 'a) outcome \<Rightarrow> ('a \<Rightarrow> 's \<Rightarrow> ('s, 'b) outcome) \<Rightarrow> ('s, 'b) outcome" where
  "and_then r f = (case r of (s, Inl e) \<Rightarrow> (s, Inl e) | (s, Inr x) \<Rightarrow> f x s)"

lemma and_then_simps [simp]:
  "and_then (s, Inl e) f = (s, Inl e)"
  "and_then (s, Inr x) f = f x s"
  by (simp_all add: and_then_def)

lemma and_then_Inr_iff:
  "and_then r f = (s'', Inr y) \<longleftrightarrow> (\<exists>s' x. r = (s', Inr x) \<and> f x s' = (s'', Inr y))"
  by (auto simp: and_then_def split: prod.splits sum.splits)

lemma outcome_Inr: "\<not> isl (snd r) \<Longrightarrow> (\<And>s x. r = (s, Inr x) \<Longrightarrow> thesis) \<Longrightarrow> thesis"
  by (cases r; cases "snd r") auto

lemma outcome_Inl: "isl (snd r) \<Longrightarrow> (\<And>s e. r = (s, Inl e) \<Longrightarrow> thesis) \<Longrightarrow> thesis"
  by (cases r; cases "snd r") auto

text \<open>A loop over a list whose body may throw, as a range-based \<^verbatim>\<open>for\<close> runs it.\<close>

fun for_each :: "('a \<Rightarrow> 's \<Rightarrow> ('s, unit) outcome) \<Rightarrow> 'a list \<Rightarrow> 's \<Rightarrow> ('s, unit) outcome" where
  "for_each f [] s = (s, Inr ())"
| "for_each f (x # xs) s = and_then (f x s) (\<lambda>_ s'. for_each f xs s')"

lemma for_each_invariant:
  assumes "\<And>x s s' r. x \<in> set xs \<Longrightarrow> P s \<Longrightarrow> f x s = (s', r) \<Longrightarrow> P s'"
    and "P s"
  shows "P (fst (for_each f xs s))"
  using assms
proof (induction xs arbitrary: s)
  case Nil
  then show ?case by simp
next
  case (Cons x xs)
  obtain s' r where fx: "f x s = (s', r)" by (cases "f x s") auto
  with Cons.prems have "P s'" by (metis list.set_intros(1))
  moreover have "\<And>y s s' r. y \<in> set xs \<Longrightarrow> P s \<Longrightarrow> f y s = (s', r) \<Longrightarrow> P s'"
    using Cons.prems(1) by (metis list.set_intros(2))
  ultimately show ?case
    using Cons.IH fx by (cases r) auto
qed

section \<open>Loops that may not end\<close>

text \<open>
  \<^verbatim>\<open>while (true)\<close>: the body either asks for another round (\<open>Inl\<close>) or leaves the loop (\<open>Inr\<close>).
  A loop that runs forever is \<open>None\<close>. \<open>rounds\<close> is the state after a number of rounds.
\<close>

partial_function (option) loop :: "('s \<Rightarrow> 's + 'r) \<Rightarrow> 's \<Rightarrow> 'r option" where
  "loop body s = (case body s of Inl s' \<Rightarrow> loop body s' | Inr r \<Rightarrow> Some r)"

fun rounds :: "('s \<Rightarrow> 's + 'r) \<Rightarrow> nat \<Rightarrow> 's \<Rightarrow> 's option" where
  "rounds body 0 s = Some s"
| "rounds body (Suc n) s = (case body s of Inl s' \<Rightarrow> rounds body n s' | Inr r \<Rightarrow> None)"

lemma loop_unfold:
  "body s = Inr r \<Longrightarrow> loop body s = Some r"
  "body s = Inl s' \<Longrightarrow> loop body s = loop body s'"
  by (simp_all add: loop.simps)

lemma loop_returns:
  "rounds body n s = Some s' \<Longrightarrow> body s' = Inr r \<Longrightarrow> loop body s = Some r"
proof (induction n arbitrary: s)
  case (Suc n)
  then show ?case by (auto simp: loop_unfold(2) split: sum.splits)
qed (simp add: loop_unfold(1))

lemma loop_induct [consumes 1, case_names leave again]:
  assumes "loop body s = Some r"
    and "\<And>s r. body s = Inr r \<Longrightarrow> P s r"
    and "\<And>s s' r. body s = Inl s' \<Longrightarrow> loop body s' = Some r \<Longrightarrow> P s' r \<Longrightarrow> P s r"
  shows "P s r"
proof -
  have "b = body \<longrightarrow> loop body s = Some r \<and> P s r" if "loop b s = Some r" for b
  proof (rule loop.raw_induct [OF _ that,
        where P = "\<lambda>b s r. b = body \<longrightarrow> loop body s = Some r \<and> P s r"])
    fix lp b s r
    assume IH: "\<And>b s r. lp b s = Some r \<Longrightarrow> b = body \<longrightarrow> loop body s = Some r \<and> P s r"
      and step: "(case b s of Inl s' \<Rightarrow> lp b s' | Inr r \<Rightarrow> Some r) = Some r"
    show "b = body \<longrightarrow> loop body s = Some r \<and> P s r"
    proof
      assume b: "b = body"
      show "loop body s = Some r \<and> P s r"
      proof (cases "body s")
        case (Inl s')
        with step b IH [of body s' r] assms(3) [OF Inl] show ?thesis
          by (simp add: loop_unfold(2))
      next
        case (Inr r')
        with step b assms(2) show ?thesis by (simp add: loop_unfold(1))
      qed
    qed
  qed
  with assms(1) show ?thesis by blast
qed

lemma loop_invariant:
  assumes "loop body s = Some r" and "I s"
    and "\<And>s s'. I s \<Longrightarrow> body s = Inl s' \<Longrightarrow> I s'"
    and "\<And>s r. I s \<Longrightarrow> body s = Inr r \<Longrightarrow> Q r"
  shows "Q r"
  using assms(1,2)
  by (induction rule: loop_induct) (use assms(3,4) in blast)+

lemma loop_returns_iff:
  "loop body s = Some r \<longleftrightarrow> (\<exists>n s'. rounds body n s = Some s' \<and> body s' = Inr r)"
proof
  assume "loop body s = Some r"
  then show "\<exists>n s'. rounds body n s = Some s' \<and> body s' = Inr r"
  proof (induction rule: loop_induct)
    case (leave s r)
    then show ?case by (intro exI [of _ 0]) simp
  next
    case (again s s' r)
    then obtain n t where "rounds body n s' = Some t" "body t = Inr r" by blast
    with again(1) show ?case by (intro exI [of _ "Suc n"]) simp
  qed
qed (auto intro: loop_returns)

lemma loop_terminates:
  assumes "wf R" and "\<And>s s'. I s \<Longrightarrow> body s = Inl s' \<Longrightarrow> I s' \<and> (s', s) \<in> R" and "I s"
  shows "\<exists>r. loop body s = Some r"
  using assms(1,3)
proof (induction s rule: wf_induct_rule)
  case (less s)
  show ?case
  proof (cases "body s")
    case (Inl s')
    with less assms(2) show ?thesis by (metis loop_unfold(2))
  next
    case (Inr r)
    then show ?thesis by (simp add: loop_unfold(1))
  qed
qed

section \<open>Bytes\<close>

type_synonym bytes = "8 word list"

definition bytes_of_string :: "string \<Rightarrow> bytes" where
  "bytes_of_string s = map (\<lambda>c. word_of_nat (of_char c)) s"

definition string_of_bytes :: "bytes \<Rightarrow> string" where
  "string_of_bytes bs = map (\<lambda>b. char_of (unat b)) bs"

lemma string_of_bytes_of_string [simp]: "string_of_bytes (bytes_of_string s) = s"
proof -
  have "char_of (unat (word_of_nat (of_char c) :: 8 word)) = c" for c :: char
    by (simp add: unat_of_nat)
  then show ?thesis by (simp add: string_of_bytes_def bytes_of_string_def comp_def)
qed

lemma length_bytes_of_string [simp]: "length (bytes_of_string s) = length s"
  by (simp add: bytes_of_string_def)

lemma unat_bound16: "unat (p :: 16 word) < 65536"
proof -
  have "unat p < 2 ^ LENGTH(16)" by (rule unsigned_less)
  then show ?thesis by simp
qed

section \<open>Strings\<close>

text \<open>\<open>find\<close> and \<open>find_last_of\<close> of one character: \<open>None\<close> is \<^verbatim>\<open>npos\<close>.\<close>

fun find_char :: "char \<Rightarrow> string \<Rightarrow> nat option" where
  "find_char c [] = None"
| "find_char c (x # xs) = (if x = c then Some 0 else map_option Suc (find_char c xs))"

fun find_last_char :: "char \<Rightarrow> string \<Rightarrow> nat option" where
  "find_last_char c [] = None"
| "find_last_char c (x # xs) =
     (case find_last_char c xs of
        Some i \<Rightarrow> Some (Suc i)
      | None \<Rightarrow> (if x = c then Some 0 else None))"

text \<open>
  \<^verbatim>\<open>s.substr(0, pos)\<close> keeps everything when \<open>pos\<close> is \<^verbatim>\<open>npos\<close>, and \<^verbatim>\<open>s.substr(pos + 1)\<close> with
  \<open>pos\<close> equal to \<^verbatim>\<open>npos\<close> starts at 0, because \<^verbatim>\<open>npos + 1\<close> wraps to 0.
\<close>

definition substr_to :: "string \<Rightarrow> nat option \<Rightarrow> string" where
  "substr_to s pos = (case pos of None \<Rightarrow> s | Some i \<Rightarrow> take i s)"

definition substr_after :: "string \<Rightarrow> nat option \<Rightarrow> string" where
  "substr_after s pos = (case pos of None \<Rightarrow> s | Some i \<Rightarrow> drop (Suc i) s)"

text \<open>\<^verbatim>\<open>s.substr(pos)\<close> throws when \<open>pos\<close> is past the end.\<close>

definition substr_from :: "string \<Rightarrow> nat \<Rightarrow> exn + string" where
  "substr_from s pos =
     (if length s < pos then Inl (Out_of_range ''basic_string::substr'') else Inr (drop pos s))"

lemma find_char_None_iff: "find_char c s = None \<longleftrightarrow> c \<notin> set s"
  by (induction s) auto

lemma find_char_append_notin:
  "c \<notin> set s \<Longrightarrow> find_char c (s @ c # t) = Some (length s)"
  by (induction s) auto

lemma find_last_char_None_iff: "find_last_char c s = None \<longleftrightarrow> c \<notin> set s"
  by (induction s) (auto split: option.splits)

lemma find_last_char_append_notin:
  "c \<notin> set t \<Longrightarrow> find_last_char c (s @ c # t) = Some (length s)"
proof (induction s)
  case Nil
  then show ?case by (simp add: find_last_char_None_iff [THEN iffD2])
next
  case (Cons a s)
  then show ?case by simp
qed

lemma find_last_char_bound: "find_last_char c s = Some i \<Longrightarrow> i < length s"
  by (induction s arbitrary: i) (auto split: option.splits if_splits)

text \<open>A string read through \<^verbatim>\<open>c_str()\<close> ends at the first NUL.\<close>

definition c_str :: "string \<Rightarrow> string" where
  "c_str s = takeWhile (\<lambda>c. c \<noteq> CHR 0x00) s"

lemma c_str_id: "CHR 0x00 \<notin> set s \<Longrightarrow> c_str s = s"
  by (auto simp: c_str_def takeWhile_eq_all_conv)

section \<open>Decimal text\<close>

definition digit_char :: "nat \<Rightarrow> char" where
  "digit_char d = char_of (48 + d)"

fun decimal :: "nat \<Rightarrow> string" where
  "decimal n = (if n < 10 then [digit_char n] else decimal (n div 10) @ [digit_char (n mod 10)])"

declare decimal.simps [simp del]

definition is_digit :: "char \<Rightarrow> bool" where
  "is_digit c \<longleftrightarrow> 48 \<le> (of_char c :: nat) \<and> (of_char c :: nat) \<le> 57"

definition digit_value :: "char \<Rightarrow> nat" where
  "digit_value c = of_char c - 48"

definition decimal_value :: "string \<Rightarrow> nat" where
  "decimal_value s = foldl (\<lambda>v c. 10 * v + digit_value c) 0 s"

lemma of_char_digit_char [simp]: "d < 10 \<Longrightarrow> (of_char (digit_char d) :: nat) = 48 + d"
  by (simp add: digit_char_def)

lemma is_digit_digit_char [simp]: "d < 10 \<Longrightarrow> is_digit (digit_char d)"
  by (simp add: is_digit_def)

lemma digit_value_digit_char [simp]: "d < 10 \<Longrightarrow> digit_value (digit_char d) = d"
  by (simp add: digit_value_def)

lemma decimal_nonempty [simp]: "decimal n \<noteq> []"
  by (subst decimal.simps) simp

lemma decimal_digits: "c \<in> set (decimal n) \<Longrightarrow> is_digit c"
proof (induction n rule: decimal.induct)
  case (1 n)
  then show ?case by (subst (asm) (2) decimal.simps) (auto split: if_splits)
qed

lemma decimal_value_snoc [simp]:
  "decimal_value (s @ [c]) = 10 * decimal_value s + digit_value c"
  by (simp add: decimal_value_def)

lemma decimal_value_decimal [simp]: "decimal_value (decimal n) = n"
proof (induction n rule: decimal.induct)
  case (1 n)
  show ?case
  proof (cases "n < 10")
    case True
    then show ?thesis by (subst decimal.simps) (simp add: decimal_value_def)
  next
    case False
    with 1 show ?thesis by (subst decimal.simps) simp
  qed
qed

lemma decimal_no_colon: "CHR '':'' \<notin> set (decimal n)"
  using decimal_digits [of "CHR '':''" n] by (auto simp: is_digit_def)

text \<open>
  \<^verbatim>\<open>std::stoi\<close>: leading white space, an optional sign, the longest run of digits. It throws
  \<^verbatim>\<open>invalid_argument\<close> without a digit and \<^verbatim>\<open>out_of_range\<close> outside the 32-bit range; what
  follows the digits is ignored.
\<close>

definition is_space :: "char \<Rightarrow> bool" where
  "is_space c \<longleftrightarrow> (of_char c :: nat) = 32 \<or> (9 \<le> (of_char c :: nat) \<and> (of_char c :: nat) \<le> 13)"

definition stoi :: "string \<Rightarrow> exn + int" where
  "stoi s =
     (let t = dropWhile is_space s;
          neg = (t \<noteq> [] \<and> hd t = CHR ''-'');
          u = (if t \<noteq> [] \<and> (hd t = CHR ''-'' \<or> hd t = CHR ''+'') then tl t else t);
          ds = takeWhile is_digit u;
          v = (if neg then - int (decimal_value ds) else int (decimal_value ds))
      in if ds = [] then Inl (Invalid_argument ''stoi'')
         else if v < - (2 ^ 31) \<or> 2 ^ 31 \<le> v then Inl (Out_of_range ''stoi'')
         else Inr v)"

lemma stoi_decimal:
  assumes "n < 2 ^ 31"
  shows "stoi (decimal n) = Inr (int n)"
proof -
  obtain c cs where cs: "decimal n = c # cs" by (cases "decimal n") auto
  have d: "is_digit c" using decimal_digits [of c n] cs by simp
  then have hd: "\<not> is_space c" "c \<noteq> CHR ''-''" "c \<noteq> CHR ''+''"
    by (auto simp: is_digit_def is_space_def)
  have tw: "takeWhile is_digit (decimal n) = decimal n"
    using decimal_digits [of _ n] by (simp add: takeWhile_eq_all_conv)
  have "stoi (decimal n) =
      (if 2 ^ 31 \<le> int (decimal_value (decimal n)) then Inl (Out_of_range ''stoi'')
       else Inr (int (decimal_value (decimal n))))"
    using hd tw cs by (simp add: stoi_def Let_def)
  also have "\<dots> = Inr (int n)"
    using assms by simp
  finally show ?thesis .
qed

section \<open>The C API of ZeroMQ\<close>

text \<open>
  Sockets are opaque handles; 0 is the null pointer. A call that returns a status yields
  \<open>True\<close> for success and \<open>False\<close> for \<^verbatim>\<open>-1\<close>; \<^verbatim>\<open>zmq_msg_send\<close> distinguishes \<^verbatim>\<open>EAGAIN\<close>, the
  only error code the code looks at. A received frame comes with its \<^verbatim>\<open>zmq_msg_more\<close> flag.
  The library is a record of functions over the state \<open>'e\<close> of the environment.
\<close>

type_synonym sock = nat

datatype sock_type = ZMQ_XPUB | ZMQ_SUB | ZMQ_REP | ZMQ_REQ | ZMQ_DEALER | ZMQ_PAIR

datatype sock_opt =
    ZMQ_SNDHWM int
  | ZMQ_RCVHWM int
  | ZMQ_SUBSCRIBE bytes
  | ZMQ_UNSUBSCRIBE bytes
  | ZMQ_XPUB_VERBOSE bool

datatype send_status = Sent | Again | Send_failed

type_synonym frame = "bytes \<times> bool"

record 'e zmq =
  zmq_socket :: "sock_type \<Rightarrow> 'e \<Rightarrow> 'e \<times> sock"
  zmq_close :: "sock \<Rightarrow> 'e \<Rightarrow> 'e"
  zmq_bind :: "sock \<Rightarrow> string \<Rightarrow> 'e \<Rightarrow> 'e \<times> bool"
  zmq_connect :: "sock \<Rightarrow> string \<Rightarrow> 'e \<Rightarrow> 'e \<times> bool"
  zmq_disconnect :: "sock \<Rightarrow> string \<Rightarrow> 'e \<Rightarrow> 'e \<times> bool"
  zmq_setsockopt :: "sock \<Rightarrow> sock_opt \<Rightarrow> 'e \<Rightarrow> 'e \<times> bool"
  zmq_last_endpoint :: "sock \<Rightarrow> 'e \<Rightarrow> string option"
  zmq_msg_send :: "sock \<Rightarrow> frame \<Rightarrow> bool \<Rightarrow> 'e \<Rightarrow> 'e \<times> send_status"
  zmq_msg_recv :: "sock \<Rightarrow> bool \<Rightarrow> 'e \<Rightarrow> 'e \<times> frame option"
  zmq_socket_monitor :: "sock \<Rightarrow> string \<Rightarrow> 'e \<Rightarrow> 'e \<times> bool"
  zmq_strerror :: "'e \<Rightarrow> string"

section \<open>The world: the environment and the trace of calls made to it\<close>

text \<open>
  What a component does is what it calls. The world of the model is the environment's state
  together with the trace of the calls the program has made, in order and with their results,
  and of the application callbacks it has run. Theorems about the calls read the trace and
  need no assumption on the environment's answers.
\<close>

datatype 'k event =
    Call_socket sock_type sock
  | Call_close sock
  | Call_bind sock string bool
  | Call_connect sock string bool
  | Call_disconnect sock string bool
  | Call_setsockopt sock sock_opt bool
  | Call_send sock frame send_status
  | Call_recv sock "frame option"
  | Call_monitor sock string bool
  | Call_announce string "(string \<times> string) list" "16 word" string bool
  | Callback 'k "bytes option"

record ('k, 'e) world =
  trace :: "'k event list"
  env :: "'e"

definition emit :: "'k event \<Rightarrow> ('k, 'e) world \<Rightarrow> ('k, 'e) world" where
  "emit c w = w\<lparr>trace := trace w @ [c]\<rparr>"

lemma emit_simps [simp]:
  "trace (emit c w) = trace w @ [c]"
  "env (emit c w) = env w"
  by (simp_all add: emit_def)

definition z_socket :: "'e zmq \<Rightarrow> sock_type \<Rightarrow> ('k, 'e) world \<Rightarrow> ('k, 'e) world \<times> sock" where
  "z_socket Z t w =
     (let (e, s) = zmq_socket Z t (env w) in (emit (Call_socket t s) (w\<lparr>env := e\<rparr>), s))"

definition z_close :: "'e zmq \<Rightarrow> sock \<Rightarrow> ('k, 'e) world \<Rightarrow> ('k, 'e) world" where
  "z_close Z s w = emit (Call_close s) (w\<lparr>env := zmq_close Z s (env w)\<rparr>)"

definition z_bind :: "'e zmq \<Rightarrow> sock \<Rightarrow> string \<Rightarrow> ('k, 'e) world \<Rightarrow> ('k, 'e) world \<times> bool" where
  "z_bind Z s a w =
     (let (e, ok) = zmq_bind Z s a (env w) in (emit (Call_bind s a ok) (w\<lparr>env := e\<rparr>), ok))"

definition z_connect :: "'e zmq \<Rightarrow> sock \<Rightarrow> string \<Rightarrow> ('k, 'e) world \<Rightarrow> ('k, 'e) world \<times> bool" where
  "z_connect Z s a w =
     (let (e, ok) = zmq_connect Z s a (env w) in (emit (Call_connect s a ok) (w\<lparr>env := e\<rparr>), ok))"

definition z_disconnect :: "'e zmq \<Rightarrow> sock \<Rightarrow> string \<Rightarrow> ('k, 'e) world \<Rightarrow> ('k, 'e) world \<times> bool" where
  "z_disconnect Z s a w =
     (let (e, ok) = zmq_disconnect Z s a (env w)
      in (emit (Call_disconnect s a ok) (w\<lparr>env := e\<rparr>), ok))"

definition z_setsockopt ::
  "'e zmq \<Rightarrow> sock \<Rightarrow> sock_opt \<Rightarrow> ('k, 'e) world \<Rightarrow> ('k, 'e) world \<times> bool" where
  "z_setsockopt Z s opt w =
     (let (e, ok) = zmq_setsockopt Z s opt (env w)
      in (emit (Call_setsockopt s opt ok) (w\<lparr>env := e\<rparr>), ok))"

definition z_send ::
  "'e zmq \<Rightarrow> sock \<Rightarrow> frame \<Rightarrow> bool \<Rightarrow> ('k, 'e) world \<Rightarrow> ('k, 'e) world \<times> send_status" where
  "z_send Z s f dontwait w =
     (let (e, r) = zmq_msg_send Z s f dontwait (env w)
      in (emit (Call_send s f r) (w\<lparr>env := e\<rparr>), r))"

definition z_recv ::
  "'e zmq \<Rightarrow> sock \<Rightarrow> bool \<Rightarrow> ('k, 'e) world \<Rightarrow> ('k, 'e) world \<times> frame option" where
  "z_recv Z s dontwait w =
     (let (e, r) = zmq_msg_recv Z s dontwait (env w)
      in (emit (Call_recv s r) (w\<lparr>env := e\<rparr>), r))"

definition z_monitor :: "'e zmq \<Rightarrow> sock \<Rightarrow> string \<Rightarrow> ('k, 'e) world \<Rightarrow> ('k, 'e) world \<times> bool" where
  "z_monitor Z s a w =
     (let (e, ok) = zmq_socket_monitor Z s a (env w)
      in (emit (Call_monitor s a ok) (w\<lparr>env := e\<rparr>), ok))"

definition z_strerror :: "'e zmq \<Rightarrow> ('k, 'e) world \<Rightarrow> string" where
  "z_strerror Z w = zmq_strerror Z (env w)"

text \<open>Each call appends exactly one event to the trace.\<close>

lemma trace_calls [simp]:
  "trace (fst (z_socket Z t w)) = trace w @ [Call_socket t (snd (z_socket Z t w))]"
  "trace (z_close Z s w) = trace w @ [Call_close s]"
  "trace (fst (z_bind Z s a w)) = trace w @ [Call_bind s a (snd (z_bind Z s a w))]"
  "trace (fst (z_connect Z s a w)) = trace w @ [Call_connect s a (snd (z_connect Z s a w))]"
  "trace (fst (z_disconnect Z s a w)) = trace w @ [Call_disconnect s a (snd (z_disconnect Z s a w))]"
  "trace (fst (z_setsockopt Z s opt w)) =
     trace w @ [Call_setsockopt s opt (snd (z_setsockopt Z s opt w))]"
  "trace (fst (z_send Z s f dw w)) = trace w @ [Call_send s f (snd (z_send Z s f dw w))]"
  "trace (fst (z_recv Z s dw w)) = trace w @ [Call_recv s (snd (z_recv Z s dw w))]"
  "trace (fst (z_monitor Z s a w)) = trace w @ [Call_monitor s a (snd (z_monitor Z s a w))]"
  by (simp_all add: z_socket_def z_close_def z_bind_def z_connect_def z_disconnect_def
      z_setsockopt_def z_send_def z_recv_def z_monitor_def split: prod.splits)

lemma trace_callsD:
  "z_socket Z t w = (w', s) \<Longrightarrow> trace w' = trace w @ [Call_socket t s]"
  "z_bind Z s a w = (w', ok) \<Longrightarrow> trace w' = trace w @ [Call_bind s a ok]"
  "z_connect Z s a w = (w', ok) \<Longrightarrow> trace w' = trace w @ [Call_connect s a ok]"
  "z_disconnect Z s a w = (w', ok) \<Longrightarrow> trace w' = trace w @ [Call_disconnect s a ok]"
  "z_setsockopt Z s opt w = (w', ok) \<Longrightarrow> trace w' = trace w @ [Call_setsockopt s opt ok]"
  "z_send Z s f dw w = (w', r) \<Longrightarrow> trace w' = trace w @ [Call_send s f r]"
  "z_recv Z s dw w = (w', m) \<Longrightarrow> trace w' = trace w @ [Call_recv s m]"
  "z_monitor Z s a w = (w', ok) \<Longrightarrow> trace w' = trace w @ [Call_monitor s a ok]"
  using trace_calls(1) [of Z t w] trace_calls(3) [of Z s a w] trace_calls(4) [of Z s a w]
    trace_calls(5) [of Z s a w] trace_calls(6) [of Z s opt w] trace_calls(7) [of Z s f dw w]
    trace_calls(8) [of Z s dw w] trace_calls(9) [of Z s a w]
  by simp_all

section \<open>The operating system\<close>

text \<open>\<^verbatim>\<open>readlink\<close> of \<^verbatim>\<open>/proc/self/exe\<close> gives \<open>None\<close> when it fails.\<close>

record os =
  getenv :: "string \<Rightarrow> string option"
  getlogin :: "string option"
  readlink_exe :: "string option"
  gethostname :: "string"

end
