(* ===== verification/Std_Map.thy ===== *)
theory Std_Map
  imports Zeq_Prelude
begin

text \<open>
  \<^verbatim>\<open>std::map\<close> with a comparator, as an association list that is strictly sorted by its keys:
  lookup is \<open>map_of\<close>, \<open>smap_put\<close> is \<^verbatim>\<open>m[k] = v\<close>, \<open>smap_erase\<close> is \<^verbatim>\<open>m.erase(k)\<close>, and iteration
  is the order of the list. The locale \<open>ordered_keys\<close> states what a comparator has to
  promise; it is interpreted for ascending and for descending keys
  (\<^verbatim>\<open>std::greater<std::string>\<close> of the HTTP server's method tables).
\<close>

type_synonym ('k, 'v) smap = "('k \<times> 'v) list"

fun smap_put :: "('k \<Rightarrow> 'k \<Rightarrow> bool) \<Rightarrow> 'k \<Rightarrow> 'v \<Rightarrow> ('k, 'v) smap \<Rightarrow> ('k, 'v) smap" where
  "smap_put lt k v [] = [(k, v)]"
| "smap_put lt k v ((a, b) # m) =
     (if lt k a then (k, v) # (a, b) # m
      else if lt a k then (a, b) # smap_put lt k v m
      else (a, v) # m)"

fun smap_erase :: "('k \<Rightarrow> 'k \<Rightarrow> bool) \<Rightarrow> 'k \<Rightarrow> ('k, 'v) smap \<Rightarrow> ('k, 'v) smap" where
  "smap_erase lt k [] = []"
| "smap_erase lt k ((a, b) # m) =
     (if lt k a then (a, b) # m
      else if lt a k then (a, b) # smap_erase lt k m
      else m)"

definition smap_ok :: "('k \<Rightarrow> 'k \<Rightarrow> bool) \<Rightarrow> ('k, 'v) smap \<Rightarrow> bool" where
  "smap_ok lt m \<longleftrightarrow> sorted_wrt lt (map fst m)"

lemma smap_ok_Nil [simp]: "smap_ok lt []"
  by (simp add: smap_ok_def)

lemma smap_ok_Cons [simp]:
  "smap_ok lt ((a, b) # m) \<longleftrightarrow> (\<forall>k \<in> fst ` set m. lt a k) \<and> smap_ok lt m"
  by (auto simp: smap_ok_def)

lemma smap_put_mem: "(a, b) \<in> set (smap_put lt k v m) \<Longrightarrow> b = v \<or> (a, b) \<in> set m"
  by (induction m) (auto split: if_splits)

lemma smap_put_all:
  "\<forall>p \<in> set m. P (snd p) \<Longrightarrow> P v \<Longrightarrow> \<forall>p \<in> set (smap_put lt k v m). P (snd p)"
  using smap_put_mem by fastforce

lemma set_smap_erase: "set (smap_erase lt k m) \<subseteq> set m"
  by (induction m) (auto split: if_splits)

locale ordered_keys =
  fixes lt :: "'k \<Rightarrow> 'k \<Rightarrow> bool"
  assumes irrefl: "\<not> lt x x"
    and trans: "lt x y \<Longrightarrow> lt y z \<Longrightarrow> lt x z"
    and total: "lt x y \<or> x = y \<or> lt y x"
begin

lemma neither_eq: "\<not> lt x y \<Longrightarrow> \<not> lt y x \<Longrightarrow> x = y"
  using total by blast

lemma keys_put: "fst ` set (smap_put lt k v m) = insert k (fst ` set m)"
proof (induction m)
  case (Cons x m)
  then show ?case
    by (cases x) (auto dest: neither_eq simp: image_iff)
qed simp

lemma lookup_put: "map_of (smap_put lt k v m) = (map_of m)(k \<mapsto> v)"
proof (induction m)
  case (Cons x m)
  then show ?case
    using irrefl by (cases x) (auto simp: fun_eq_iff dest: neither_eq)
qed auto

lemma put_ok: "smap_ok lt m \<Longrightarrow> smap_ok lt (smap_put lt k v m)"
proof (induction m)
  case (Cons x m)
  obtain a b where x: "x = (a, b)" by (cases x)
  with Cons.prems have lt: "\<forall>c \<in> fst ` set m. lt a c" and ok: "smap_ok lt m" by auto
  with Cons.IH have IH: "smap_ok lt (smap_put lt k v m)" by blast
  have "\<forall>c \<in> fst ` set (smap_put lt k v m). lt a c" if "lt a k"
    using that lt by (simp add: keys_put)
  with IH lt ok x show ?case by (auto intro: trans)
qed simp

lemma keys_erase: "smap_ok lt m \<Longrightarrow> fst ` set (smap_erase lt k m) = fst ` set m - {k}"
proof (induction m)
  case (Cons x m)
  obtain a b where x: "x = (a, b)" by (cases x)
  with Cons.prems have lt: "\<forall>c \<in> fst ` set m. lt a c" and ok: "smap_ok lt m" by auto
  have "k \<notin> fst ` set m" if "lt k a \<or> \<not> lt a k"
    using that lt trans irrefl neither_eq by blast
  with Cons.IH ok x lt irrefl show ?case
    by (auto dest: neither_eq)
qed simp

lemma erase_ok: "smap_ok lt m \<Longrightarrow> smap_ok lt (smap_erase lt k m)"
proof (induction m)
  case (Cons x m)
  obtain a b where x: "x = (a, b)" by (cases x)
  with Cons.prems have lt: "\<forall>c \<in> fst ` set m. lt a c" and ok: "smap_ok lt m" by auto
  with Cons.IH x show ?case by (auto simp: keys_erase)
qed simp

lemma lookup_erase: "smap_ok lt m \<Longrightarrow> map_of (smap_erase lt k m) = (map_of m)(k := None)"
proof (induction m)
  case (Cons x m)
  obtain a b where x: "x = (a, b)" by (cases x)
  with Cons.prems have lt: "\<forall>c \<in> fst ` set m. lt a c" and ok: "smap_ok lt m" by auto
  have "map_of m k = None" if "lt k a \<or> \<not> lt a k"
    using that lt trans irrefl neither_eq by (metis map_of_eq_None_iff)
  with Cons.IH ok x irrefl show ?case
    by (auto simp: fun_eq_iff dest: neither_eq)
qed simp

lemma distinct_keys: "smap_ok lt m \<Longrightarrow> distinct (map fst m)"
proof (induction m)
  case (Cons x m)
  then show ?case using irrefl by (cases x) auto
qed simp

lemmas put_erase = lookup_put put_ok lookup_erase erase_ok keys_put keys_erase

end

interpretation asc: ordered_keys "(<) :: 'k::linorder \<Rightarrow> 'k \<Rightarrow> bool"
  by unfold_locales auto

interpretation desc: ordered_keys "(\<lambda>x y. y < x) :: 'k::linorder \<Rightarrow> 'k \<Rightarrow> bool"
  by unfold_locales auto

section \<open>Ascending keys\<close>

lemma smap_put_put: "smap_put (<) k x (smap_put (<) k y m) = smap_put (<) k x m" for k :: "'k::linorder"
  by (induction m) auto

lemma smap_put_above:
  "\<forall>k \<in> fst ` set m. k < a \<Longrightarrow> smap_put (<) a v m = m @ [(a, v)]" for a :: "'k::linorder"
  by (induction m) auto

lemma smap_put_last:
  "\<forall>k \<in> fst ` set m. k < a \<Longrightarrow> smap_put (<) a v (m @ [(a, u)]) = m @ [(a, v)]" for a :: "'k::linorder"
  by (induction m) auto

end
