(* ===== verification/Wire.thy ===== *)
theory Wire
  imports Std_Map
begin

text \<open>
  128-bit identifiers and their bytes on the wire: \<^verbatim>\<open>uint128_t\<close>, \<^verbatim>\<open>detail/byteswap.h\<close>, the
  \<^verbatim>\<open>memcpy\<close> images of identifiers on little- and big-endian hosts, the fixed port of a name
  (\<^verbatim>\<open>detail/port.cpp\<close>), and the application callbacks that appear in traces.
\<close>

section \<open>Identifiers\<close>

text \<open>\<^verbatim>\<open>servus::uint128_t\<close>: two 64-bit halves, ordered by value.\<close>

datatype uint128 = U128 (u_high: "64 word") (u_low: "64 word")

instantiation uint128 :: linorder
begin

definition less_uint128 :: "uint128 \<Rightarrow> uint128 \<Rightarrow> bool" where
  "less_uint128 x y \<longleftrightarrow> u_high x < u_high y \<or> u_high x = u_high y \<and> u_low x < u_low y"

definition less_eq_uint128 :: "uint128 \<Rightarrow> uint128 \<Rightarrow> bool" where
  "less_eq_uint128 x y \<longleftrightarrow> u_high x < u_high y \<or> u_high x = u_high y \<and> u_low x \<le> u_low y"

instance
  by standard (auto simp: less_uint128_def less_eq_uint128_def intro: uint128.expand)

end

text \<open>\<^verbatim>\<open>uint128_t()\<close> is zero.\<close>

definition u128_zero :: uint128 where
  "u128_zero = U128 0 0"

section \<open>Little-endian bytes\<close>

fun le_bytes :: "nat \<Rightarrow> nat \<Rightarrow> bytes" where
  "le_bytes 0 v = []"
| "le_bytes (Suc n) v = word_of_nat (v mod 256) # le_bytes n (v div 256)"

fun le_value :: "bytes \<Rightarrow> nat" where
  "le_value [] = 0"
| "le_value (b # bs) = unat b + 256 * le_value bs"

lemma length_le_bytes [simp]: "length (le_bytes n v) = n"
  by (induction n arbitrary: v) auto

lemma le_value_le_bytes: "le_value (le_bytes n v) = v mod 256 ^ n"
  by (induction n arbitrary: v) (auto simp: unat_of_nat mod_mult2_eq)

lemma le_bytes_le_value: "le_bytes (length bs) (le_value bs) = bs"
proof (induction bs)
  case (Cons b bs)
  have "unat b < 256" using unsigned_less [of b] by simp
  with Cons show ?case by simp
qed simp

lemma le_value_bound: "le_value bs < 256 ^ length bs"
proof (induction bs)
  case (Cons b bs)
  have "unat b < 256" using unsigned_less [of b] by simp
  with Cons show ?case by simp
qed simp

lemma le_bytes_inj: "v < 256 ^ n \<Longrightarrow> v' < 256 ^ n \<Longrightarrow> le_bytes n v = le_bytes n v' \<Longrightarrow> v = v'"
  by (metis le_value_le_bytes mod_less)

section \<open>byteswap\<close>

definition byteswap64 :: "64 word \<Rightarrow> 64 word" where
  "byteswap64 v = word_of_nat (le_value (rev (le_bytes 8 (unat v))))"

definition byteswap128 :: "uint128 \<Rightarrow> uint128" where
  "byteswap128 v = U128 (byteswap64 (u_high v)) (byteswap64 (u_low v))"

lemma unat_bound64: "unat (v :: 64 word) < 256 ^ 8"
  using unsigned_less [of v] by simp

lemma le_bytes_byteswap64: "le_bytes 8 (unat (byteswap64 v)) = rev (le_bytes 8 (unat v))"
proof -
  have "le_value (rev (le_bytes 8 (unat v))) < 2 ^ 64"
    using le_value_bound [of "rev (le_bytes 8 (unat v))"] by simp
  then have "unat (byteswap64 v) = le_value (rev (le_bytes 8 (unat v)))"
    by (simp add: byteswap64_def unat_of_nat)
  then show ?thesis
    using le_bytes_le_value [of "rev (le_bytes 8 (unat v))"] by simp
qed

lemma byteswap64_involution [simp]: "byteswap64 (byteswap64 v) = v"
proof -
  have "le_bytes 8 (unat (byteswap64 (byteswap64 v))) = le_bytes 8 (unat v)"
    by (simp add: le_bytes_byteswap64)
  then have "unat (byteswap64 (byteswap64 v)) = unat v"
    by (rule le_bytes_inj [OF unat_bound64 unat_bound64])
  then show ?thesis by (rule unsigned_word_eqI)
qed

lemma byteswap128_involution [simp]: "byteswap128 (byteswap128 v) = v"
  by (simp add: byteswap128_def uint128.expand)

lemma le_value_replicate_0 [simp]: "le_value (replicate n 0) = 0"
  by (induction n) simp_all

lemma le_bytes_0 [simp]: "le_bytes n 0 = replicate n 0"
  by (induction n) simp_all

lemma byteswap128_zero [simp]: "byteswap128 u128_zero = u128_zero"
  by (simp add: byteswap128_def u128_zero_def byteswap64_def)

section \<open>Memory images\<close>

text \<open>
  What \<^verbatim>\<open>memcpy\<close> of an integer copies depends on the host: the byte order of the processor, and
  which half of a \<^verbatim>\<open>uint128_t\<close> comes first in memory (a matter of the Servus library).
\<close>

record host =
  big_endian :: bool
  high_first :: bool

definition mem64 :: "host \<Rightarrow> 64 word \<Rightarrow> bytes" where
  "mem64 h v = (if big_endian h then rev (le_bytes 8 (unat v)) else le_bytes 8 (unat v))"

definition load64 :: "host \<Rightarrow> bytes \<Rightarrow> 64 word" where
  "load64 h bs = word_of_nat (le_value (if big_endian h then rev bs else bs))"

definition mem128 :: "host \<Rightarrow> uint128 \<Rightarrow> bytes" where
  "mem128 h v =
     (if high_first h then mem64 h (u_high v) @ mem64 h (u_low v)
      else mem64 h (u_low v) @ mem64 h (u_high v))"

definition load128 :: "host \<Rightarrow> bytes \<Rightarrow> uint128" where
  "load128 h bs =
     (let a = load64 h (take 8 bs); b = load64 h (take 8 (drop 8 bs))
      in if high_first h then U128 a b else U128 b a)"

lemma length_mem64 [simp]: "length (mem64 h v) = 8"
  by (simp add: mem64_def)

lemma length_mem128 [simp]: "length (mem128 h v) = 16"
  by (simp add: mem128_def)

lemma load64_mem64 [simp]: "load64 h (mem64 h v) = v"
  using unat_bound64 [of v]
  by (simp add: load64_def mem64_def le_value_le_bytes)

lemma load128_mem128 [simp]: "load128 h (mem128 h v) = v"
  by (simp add: load128_def mem128_def Let_def)

lemma mem128_inj [simp]: "mem128 h v = mem128 h v' \<longleftrightarrow> v = v'"
  by (metis load128_mem128)

section \<open>Identifiers on the wire\<close>

text \<open>
  The conversion every sender applies before \<^verbatim>\<open>memcpy\<close> (\<^verbatim>\<open>#ifdef ZEROEQ_BIGENDIAN\<close>), and the one
  every receiver applies after it.
\<close>

definition to_wire :: "host \<Rightarrow> uint128 \<Rightarrow> bytes" where
  "to_wire h v = mem128 h (if big_endian h then byteswap128 v else v)"

definition from_wire :: "host \<Rightarrow> bytes \<Rightarrow> uint128" where
  "from_wire h bs = (let v = load128 h bs in if big_endian h then byteswap128 v else v)"

lemma length_to_wire [simp]: "length (to_wire h v) = 16"
  by (simp add: to_wire_def)

lemma mem64_swapped: "mem64 h (if big_endian h then byteswap64 v else v) = le_bytes 8 (unat v)"
  by (simp add: mem64_def le_bytes_byteswap64)

lemma to_wire_bytes:
  "to_wire h v =
     (if high_first h then le_bytes 8 (unat (u_high v)) @ le_bytes 8 (unat (u_low v))
      else le_bytes 8 (unat (u_low v)) @ le_bytes 8 (unat (u_high v)))"
  using mem64_swapped [of h]
  by (auto simp: to_wire_def mem128_def byteswap128_def split: if_splits)

lemma to_wire_same_layout: "high_first h = high_first h' \<Longrightarrow> to_wire h v = to_wire h' v"
  by (simp add: to_wire_bytes)

lemma from_wire_to_wire_self [simp]: "from_wire h (to_wire h v) = v"
  by (simp add: from_wire_def to_wire_def Let_def)

lemma from_wire_to_wire:
  "high_first h = high_first h' \<Longrightarrow> from_wire h' (to_wire h v) = v"
  by (metis from_wire_to_wire_self to_wire_same_layout)

lemma to_wire_inj [simp]: "to_wire h v = to_wire h v' \<longleftrightarrow> v = v'"
  by (metis from_wire_to_wire_self)

lemma mem128_is_wire_iff: "mem128 h v = to_wire h v \<longleftrightarrow> (big_endian h \<longrightarrow> byteswap128 v = v)"
  by (auto simp: to_wire_def)

section \<open>Messages\<close>

text \<open>
  Events and replies are an identifier and an optional payload; a payload of size 0 counts as
  none. On the wire the identifier is one frame, and the payload, if any, a second one.
\<close>

definition has_payload :: "bytes option \<Rightarrow> bool" where
  "has_payload payload = (case payload of Some (b # bs) \<Rightarrow> True | _ \<Rightarrow> False)"

definition message_frames :: "host \<Rightarrow> uint128 \<Rightarrow> bytes option \<Rightarrow> frame list" where
  "message_frames h i payload =
     (if has_payload payload then [(to_wire h i, True), (the payload, False)]
      else [(to_wire h i, False)])"

lemma has_payload_iff: "has_payload payload \<longleftrightarrow> (\<exists>b bs. payload = Some (b # bs))"
  by (auto simp: has_payload_def split: option.splits list.splits)

lemma has_payload_simps [simp]:
  "\<not> has_payload None" "\<not> has_payload (Some [])" "has_payload (Some (b # bs))"
  by (simp_all add: has_payload_def)

text \<open>What a peer reads off the frames: the identifier and the payload.\<close>

definition payload_of :: "bytes option \<Rightarrow> bytes option" where
  "payload_of payload = (if has_payload payload then payload else None)"

text \<open>\<open>fs\<close> is what the next receives on a socket return, in order.\<close>

fun delivers :: "'e zmq \<Rightarrow> sock \<Rightarrow> frame list \<Rightarrow> ('k, 'e) world \<Rightarrow> ('k, 'e) world \<Rightarrow> bool" where
  "delivers Z s [] w w' \<longleftrightarrow> w' = w"
| "delivers Z s (f # fs) w w' \<longleftrightarrow>
     (\<exists>w1. (\<forall>dontwait. z_recv Z s dontwait w = (w1, Some f)) \<and> delivers Z s fs w1 w')"

section \<open>The fixed port of a name\<close>

text \<open>\<open>make_uint128\<close> (an MD5 hash) belongs to Servus and is a parameter.\<close>

definition getPort :: "(string \<Rightarrow> uint128) \<Rightarrow> string \<Rightarrow> 16 word" where
  "getPort make_uint128 name =
     (let md5 = make_uint128 name in ucast (1024 + u_low md5 mod (65535 - 1024)))"

lemma getPort_value:
  "unat (getPort md5 name) = 1024 + unat (u_low (md5 name)) mod 64511"
proof -
  let ?m = "u_low (md5 name) mod 64511"
  have m: "unat ?m = unat (u_low (md5 name)) mod 64511"
    by (simp add: unat_mod)
  then have b: "unat ?m < 64511" by simp
  have "unat (1024 + ?m) = 1024 + unat ?m"
    using b by (simp add: unat_word_ariths)
  then have "unat (ucast (1024 + ?m) :: 16 word) = 1024 + unat ?m"
    using b by (simp add: unsigned_ucast_eq take_bit_nat_eq_self)
  with m show ?thesis by (simp add: getPort_def Let_def)
qed

section \<open>Application callbacks\<close>

text \<open>
  The callbacks an application registers, as they appear in traces: an event handler of a
  subscriber, a request handler of a server, a reply handler of a client with the request id
  it belongs to, the connection notification of a monitor, and an HTTP handler with the number of
  its method and its endpoint. A callback acts on the
  environment and may throw; it does not call back into the object that runs it.
\<close>

datatype callback =
    On_event uint128
  | On_request uint128
  | On_reply "64 word" uint128
  | On_connection
  | On_http nat string

type_synonym 'e zworld = "(callback, 'e) world"
type_synonym trace = "callback event list"

definition run_callback ::
  "callback \<Rightarrow> (bytes option \<Rightarrow> 'e \<Rightarrow> 'e \<times> (exn + 'a)) \<Rightarrow> bytes option \<Rightarrow>
   'e zworld \<Rightarrow> ('e zworld, 'a) outcome" where
  "run_callback k f payload w =
     (let (e, r) = f payload (env w) in (emit (Callback k payload) (w\<lparr>env := e\<rparr>), r))"

lemma trace_run_callback [simp]:
  "trace (fst (run_callback k f d w)) = trace w @ [Callback k d]"
  by (simp add: run_callback_def split: prod.splits)

lemma trace_run_callbackD: "run_callback k f d w = (w', r) \<Longrightarrow> trace w' = trace w @ [Callback k d]"
  using trace_run_callback [of k f d w] by simp

end
