(* ===== verification/Traces.thy ===== *)
theory Traces
  imports Wire "HOL-Library.Multiset" "HOL-Library.Sublist"
begin

text \<open>
  What can be read off a trace of calls: which sockets are open, whether ZeroMQ handed out a
  handle that was still open, the subscriptions set on a socket, the messages sent on it, and
  the callbacks run.
\<close>

section \<open>Open sockets\<close>

fun open_step :: "sock set \<Rightarrow> 'k event \<Rightarrow> sock set" where
  "open_step A (Call_socket t s) = (if s = 0 then A else insert s A)"
| "open_step A (Call_close s) = A - {s}"
| "open_step A _ = A"

definition open_socks :: "'k event list \<Rightarrow> sock set" where
  "open_socks tr = foldl open_step {} tr"

lemma open_socks_simps [simp]:
  "open_socks [] = {}"
  "open_socks (tr @ [c]) = open_step (open_socks tr) c"
  by (simp_all add: open_socks_def)

lemma open_socks_append: "open_socks (tr @ us) = foldl open_step (open_socks tr) us"
  by (simp add: open_socks_def)

text \<open>
  ZeroMQ never returns a handle that is still in use. A trace in which it does not is fresh.
\<close>

fun fresh_from :: "sock set \<Rightarrow> 'k event list \<Rightarrow> bool" where
  "fresh_from A [] = True"
| "fresh_from A (c # cs) =
     ((case c of Call_socket t s \<Rightarrow> s = 0 \<or> s \<notin> A | _ \<Rightarrow> True) \<and> fresh_from (open_step A c) cs)"

definition fresh_trace :: "'k event list \<Rightarrow> bool" where
  "fresh_trace tr = fresh_from {} tr"

lemma fresh_from_append:
  "fresh_from A (xs @ ys) \<longleftrightarrow> fresh_from A xs \<and> fresh_from (foldl open_step A xs) ys"
  by (induction xs arbitrary: A) auto

lemma fresh_trace_append:
  "fresh_trace (xs @ ys) \<longleftrightarrow> fresh_trace xs \<and> fresh_from (open_socks xs) ys"
  by (simp add: fresh_trace_def open_socks_def fresh_from_append)

lemma fresh_trace_prefix: "prefix xs ys \<Longrightarrow> fresh_trace ys \<Longrightarrow> fresh_trace xs"
  by (auto simp: prefix_def fresh_trace_append)

section \<open>Subscriptions\<close>

text \<open>ZeroMQ counts subscriptions: a topic set twice has to be removed twice.\<close>

fun topic_step :: "sock \<Rightarrow> bytes multiset \<Rightarrow> 'k event \<Rightarrow> bytes multiset" where
  "topic_step s T (Call_socket t s') = (if s' = s then {#} else T)"
| "topic_step s T (Call_setsockopt s' (ZMQ_SUBSCRIBE b) ok) =
     (if s' = s \<and> ok then add_mset b T else T)"
| "topic_step s T (Call_setsockopt s' (ZMQ_UNSUBSCRIBE b) ok) =
     (if s' = s \<and> ok then T - {#b#} else T)"
| "topic_step s T _ = T"

definition topics :: "sock \<Rightarrow> 'k event list \<Rightarrow> bytes multiset" where
  "topics s tr = foldl (topic_step s) {#} tr"

lemma topics_simps [simp]:
  "topics s [] = {#}"
  "topics s (tr @ [c]) = topic_step s (topics s tr) c"
  by (simp_all add: topics_def)

lemma topics_append: "topics s (tr @ us) = foldl (topic_step s) (topics s tr) us"
  by (simp add: topics_def)

section \<open>Frames sent, messages received, callbacks run\<close>

fun sent_step :: "sock \<Rightarrow> frame list \<Rightarrow> 'k event \<Rightarrow> frame list" where
  "sent_step s fs (Call_send s' f Sent) = (if s' = s then fs @ [f] else fs)"
| "sent_step s fs _ = fs"

definition sent_on :: "sock \<Rightarrow> 'k event list \<Rightarrow> frame list" where
  "sent_on s tr = foldl (sent_step s) [] tr"

lemma sent_on_simps [simp]:
  "sent_on s [] = []"
  "sent_on s (tr @ [c]) = sent_step s (sent_on s tr) c"
  by (simp_all add: sent_on_def)

lemma sent_step_append: "sent_step s (fs @ gs) c = fs @ sent_step s gs c"
  by (induction s gs c rule: sent_step.induct) auto

lemma sent_on_fold: "foldl (sent_step s) fs us = fs @ sent_on s us"
  by (induction us rule: rev_induct) (simp_all add: sent_on_def sent_step_append)

lemma sent_on_append: "sent_on s (tr @ us) = sent_on s tr @ sent_on s us"
  by (metis foldl_append sent_on_def sent_on_fold)

lemma sent_on_Cons [simp]: "sent_on s (c # us) = sent_step s [] c @ sent_on s us"
  using sent_on_append [of s "[c]" us] by (simp add: sent_on_def)

fun callbacks :: "'k event list \<Rightarrow> ('k \<times> bytes option) list" where
  "callbacks [] = []"
| "callbacks (Callback k d # tr) = (k, d) # callbacks tr"
| "callbacks (_ # tr) = callbacks tr"

lemma callbacks_append [simp]: "callbacks (tr @ us) = callbacks tr @ callbacks us"
  by (induction tr rule: callbacks.induct) auto

end
