(* ===== verification/Uri.thy ===== *)
theory Uri
  imports Traces
begin

text \<open>
  \<^verbatim>\<open>zeroeq/uri.cpp\<close>: URIs that always have a scheme, and the ZeroMQ addresses of
  \<^verbatim>\<open>detail/common.h\<close>. The base class \<^verbatim>\<open>servus::URI\<close> is a library; its parser, printer and
  equality are parameters, its state is the record of the parts ZeroEQ reads and writes.
\<close>

section \<open>servus::URI\<close>

record servus_uri =
  uri_scheme :: string
  uri_host :: string
  uri_port :: "16 word"
  uri_path :: string
  uri_query :: string

type_synonym uri_parser = "string \<Rightarrow> exn + servus_uri"

definition empty_uri :: servus_uri where
  "empty_uri = \<lparr>uri_scheme = [], uri_host = [], uri_port = 0, uri_path = [], uri_query = []\<rparr>"

definition DEFAULT_SCHEMA :: string where
  "DEFAULT_SCHEMA = ''tcp''"

section \<open>zeroeq::URI\<close>

definition createURI :: "uri_parser \<Rightarrow> string \<Rightarrow> exn + servus_uri" where
  "createURI parse s =
     (case parse s of
        Inl e \<Rightarrow> Inl e
      | Inr u \<Rightarrow>
          if uri_scheme u = [] then
            let s' = (if s = [] \<or> hd s = CHR '':'' then ''*'' @ s else s)
            in parse (DEFAULT_SCHEMA @ ''://'' @ s')
          else Inr u)"

definition URI_default :: servus_uri where
  "URI_default = empty_uri\<lparr>uri_scheme := DEFAULT_SCHEMA\<rparr>"

text \<open>The string constructor goes through \<^verbatim>\<open>c_str()\<close>.\<close>

definition URI_string :: "uri_parser \<Rightarrow> string \<Rightarrow> exn + servus_uri" where
  "URI_string parse s = createURI parse (c_str s)"

definition URI_cstring :: "uri_parser \<Rightarrow> string \<Rightarrow> exn + servus_uri" where
  "URI_cstring parse s = createURI parse s"

definition URI_servus :: "servus_uri \<Rightarrow> servus_uri" where
  "URI_servus from_uri =
     (if uri_scheme from_uri = [] then from_uri\<lparr>uri_scheme := DEFAULT_SCHEMA\<rparr> else from_uri)"

text \<open>The copy constructor and the assignments; \<open>None\<close> is a failed \<^verbatim>\<open>assert\<close>.\<close>

definition URI_copy :: "servus_uri \<Rightarrow> servus_uri option" where
  "URI_copy from_uri = (if uri_scheme from_uri = [] then None else Some from_uri)"

definition URI_assign :: "bool \<Rightarrow> servus_uri \<Rightarrow> servus_uri \<Rightarrow> servus_uri option" where
  "URI_assign same_object this rhs =
     (if same_object then Some this
      else if uri_scheme rhs = [] then None else Some rhs)"

definition URI_assign_servus :: "servus_uri \<Rightarrow> servus_uri \<Rightarrow> servus_uri" where
  "URI_assign_servus this rhs =
     (if uri_scheme rhs = [] then rhs\<lparr>uri_scheme := DEFAULT_SCHEMA\<rparr> else rhs)"

definition URI_equal :: "(servus_uri \<Rightarrow> servus_uri \<Rightarrow> bool) \<Rightarrow> servus_uri \<Rightarrow> servus_uri \<Rightarrow> bool" where
  "URI_equal eq this rhs = eq this rhs"

definition URI_unequal :: "(servus_uri \<Rightarrow> servus_uri \<Rightarrow> bool) \<Rightarrow> servus_uri \<Rightarrow> servus_uri \<Rightarrow> bool" where
  "URI_unequal neq this rhs = neq this rhs"

definition isFullyQualified :: "servus_uri \<Rightarrow> bool" where
  "isFullyQualified u \<longleftrightarrow>
     uri_scheme u \<noteq> DEFAULT_SCHEMA \<or> (uri_host u \<noteq> [] \<and> uri_port u \<noteq> 0)"

text \<open>
  The invariant of the class: the scheme is never empty. What the parser of Servus has to
  promise for it is that a text that starts with a scheme and \<^verbatim>\<open>://\<close> parses to that scheme, as
  RFC 3986 has it.
\<close>

definition has_scheme :: "servus_uri \<Rightarrow> bool" where
  "has_scheme u \<longleftrightarrow> uri_scheme u \<noteq> []"

definition parses_default_scheme :: "uri_parser \<Rightarrow> bool" where
  "parses_default_scheme parse \<longleftrightarrow>
     (\<forall>t u. parse (DEFAULT_SCHEMA @ ''://'' @ t) = Inr u \<longrightarrow> uri_scheme u = DEFAULT_SCHEMA)"

lemma DEFAULT_SCHEMA_nonempty [simp]: "DEFAULT_SCHEMA \<noteq> []"
  by (simp add: DEFAULT_SCHEMA_def)

text \<open>A URI made from text has a scheme, whatever the text, if the parser of Servus reads the
  scheme of a text that starts with \<^verbatim>\<open>tcp://\<close>.\<close>

lemma createURI_has_scheme:
  "parses_default_scheme parse \<Longrightarrow> createURI parse s = Inr u \<Longrightarrow> has_scheme u"
  by (auto simp: createURI_def parses_default_scheme_def has_scheme_def Let_def
      split: sum.splits if_splits)

lemma URI_default_has_scheme [simp]: "has_scheme URI_default"
  by (simp add: URI_default_def has_scheme_def)

lemma URI_servus_has_scheme [simp]: "has_scheme (URI_servus u)"
  by (simp add: URI_servus_def has_scheme_def)

lemma URI_assign_servus_has_scheme [simp]: "has_scheme (URI_assign_servus this u)"
  by (simp add: URI_assign_servus_def has_scheme_def)

lemma URI_copy_defined: "has_scheme u \<Longrightarrow> URI_copy u = Some u"
  by (simp add: URI_copy_def has_scheme_def)

lemma URI_assign_defined: "has_scheme u \<Longrightarrow> URI_assign False this u = Some u"
  by (simp add: URI_assign_def has_scheme_def)

text \<open>A text without a scheme is read as \<^verbatim>\<open>tcp://\<close> followed by it, with \<^verbatim>\<open>*\<close> for a missing host.\<close>

lemma createURI_no_scheme:
  assumes "parse s = Inr u" and "uri_scheme u = []"
  shows "createURI parse s =
    parse (''tcp://'' @ (if s = [] \<or> hd s = CHR '':'' then CHR ''*'' # s else s))"
  using assms by (simp add: createURI_def DEFAULT_SCHEMA_def Let_def)

section \<open>ZeroMQ addresses\<close>

definition port_text :: "16 word \<Rightarrow> string" where
  "port_text p = decimal (unat p)"

definition buildZmqAddress :: "string \<Rightarrow> string \<Rightarrow> 16 word \<Rightarrow> string" where
  "buildZmqAddress schema host p =
     (let host = (if host = [] then ''*'' else host);
          zmqURI = schema @ ''://'' @ host
      in if p = 0 then zmqURI @ '':*'' else zmqURI @ '':'' @ port_text p)"

definition buildZmqURI :: "(servus_uri \<Rightarrow> string) \<Rightarrow> servus_uri \<Rightarrow> string" where
  "buildZmqURI print u =
     (if uri_scheme u = DEFAULT_SCHEMA
      then buildZmqAddress (uri_scheme u) (uri_host u) (uri_port u)
      else print u)"

lemma decimal_inj [simp]: "decimal m = decimal n \<longleftrightarrow> m = n"
  by (metis decimal_value_decimal)

lemma port_text_inj [simp]: "port_text p = port_text q \<longleftrightarrow> p = q"
  by (simp add: port_text_def word_unat_eq_iff)

lemma port_text_no_colon [simp]: "CHR '':'' \<notin> set (port_text p)"
  by (simp add: port_text_def decimal_no_colon)

lemma port_text_not_star: "port_text p \<noteq> ''*''"
  using decimal_digits [of "CHR ''*''" "unat p"] by (auto simp: port_text_def is_digit_def)

lemma stoi_port_text: "stoi (port_text p) = Inr (int (unat p))"
proof -
  have "unat p < 2 ^ 31" using unat_bound16 [of p] by simp
  then show ?thesis by (simp add: port_text_def stoi_decimal)
qed

lemma append_colon_inj:
  assumes "CHR '':'' \<notin> set b" "CHR '':'' \<notin> set d"
    and "a @ CHR '':'' # b = c @ CHR '':'' # d"
  shows "a = c \<and> b = d"
proof -
  have "find_last_char CHR '':'' (a @ CHR '':'' # b) = Some (length a)"
    using assms(1) by (rule find_last_char_append_notin)
  moreover have "find_last_char CHR '':'' (c @ CHR '':'' # d) = Some (length c)"
    using assms(2) by (rule find_last_char_append_notin)
  ultimately have "length a = length c" using assms(3) by simp
  with assms(3) show ?thesis by simp
qed

text \<open>
  Two host and port pairs have the same address only when they are the same, up to the
  host \<^verbatim>\<open>*\<close> that stands for the empty one.
\<close>

definition bind_host :: "string \<Rightarrow> string" where
  "bind_host host = (if host = [] then ''*'' else host)"

text \<open>Two pairs of host and port have the same ZeroMQ address only when they are the
  same, up to the host \<^verbatim>\<open>*\<close> that stands for the empty one.\<close>

lemma buildZmqAddress_inj:
  assumes "buildZmqAddress s h p = buildZmqAddress s h' p'"
  shows "bind_host h = bind_host h' \<and> p = p'"
proof -
  define q where "q p = (if p = 0 then ''*'' else port_text p)" for p :: "16 word"
  have split: "buildZmqAddress s h p = (s @ ''://'' @ bind_host h) @ CHR '':'' # q p" for h p
    by (simp add: buildZmqAddress_def bind_host_def q_def)
  have nc: "CHR '':'' \<notin> set (q p)" for p
    by (simp add: q_def)
  have qinj: "q p = q p' \<Longrightarrow> p = p'" for p p'
    using port_text_not_star [of p] port_text_not_star [of p']
    by (auto simp: q_def split: if_splits)
  from assms have "(s @ ''://'' @ bind_host h) @ CHR '':'' # q p
      = (s @ ''://'' @ bind_host h') @ CHR '':'' # q p'"
    by (simp only: split)
  from append_colon_inj [OF nc nc this] show ?thesis
    using qinj by simp
qed

end
