(* ===== verification/Common.thy ===== *)
theory Common
  imports Uri
begin

text \<open>
  The rest of \<^verbatim>\<open>detail/common.h\<close>, \<^verbatim>\<open>detail/constants.h\<close> and the session names of
  \<^verbatim>\<open>zeroeq/types.h\<close>: default sessions from the environment and the process, and the interface
  of the zeroconf library Servus.
\<close>

section \<open>Constants\<close>

definition PUBLISHER_SERVICE :: string where "PUBLISHER_SERVICE = ''_zeroeq_pub._tcp''"
definition SERVER_SERVICE :: string where "SERVER_SERVICE = ''_zeroeq_rep._tcp''"
definition KEY_INSTANCE :: string where "KEY_INSTANCE = ''Instance''"
definition KEY_SESSION :: string where "KEY_SESSION = ''Session''"
definition KEY_USER :: string where "KEY_USER = ''User''"
definition KEY_APPLICATION :: string where "KEY_APPLICATION = ''Application''"
definition ENV_SESSION :: string where "ENV_SESSION = ''ZEROEQ_SESSION''"
definition UNKNOWN_USER :: string where "UNKNOWN_USER = ''Unknown user''"
definition MEERKAT_NAME :: string where "MEERKAT_NAME = ''zeroeq::Meerkat''"

definition DEFAULT_SESSION :: string where "DEFAULT_SESSION = ''__zeroeq''"
definition NULL_SESSION :: string where "NULL_SESSION = ''__null_session''"
definition ENV_PUB_SESSION :: string where "ENV_PUB_SESSION = ''ZEROEQ_PUB_SESSION''"
definition ENV_REP_SESSION :: string where "ENV_REP_SESSION = ''ZEROEQ_SERVER_SESSION''"

lemmas constants =
  PUBLISHER_SERVICE_def SERVER_SERVICE_def KEY_INSTANCE_def KEY_SESSION_def KEY_USER_def
  KEY_APPLICATION_def ENV_SESSION_def UNKNOWN_USER_def MEERKAT_NAME_def DEFAULT_SESSION_def
  NULL_SESSION_def ENV_PUB_SESSION_def ENV_REP_SESSION_def

lemma sessions_nonempty [simp]: "DEFAULT_SESSION \<noteq> []" "NULL_SESSION \<noteq> []"
  "DEFAULT_SESSION \<noteq> NULL_SESSION" "NULL_SESSION \<noteq> DEFAULT_SESSION" "UNKNOWN_USER \<noteq> []"
  by (simp_all add: constants)

section \<open>Default sessions\<close>

definition getUserName :: "os \<Rightarrow> string" where
  "getUserName os = (case getlogin os of None \<Rightarrow> UNKNOWN_USER | Some u \<Rightarrow> u)"

definition getApplicationName :: "os \<Rightarrow> string" where
  "getApplicationName os =
     (case readlink_exe os of
        None \<Rightarrow> []
      | Some execPath \<Rightarrow>
          (case find_last_char CHR ''/'' execPath of
             None \<Rightarrow> execPath
           | Some lastSeparator \<Rightarrow> drop (lastSeparator + 1) execPath))"

definition getDefaultPubSession :: "os \<Rightarrow> string" where
  "getDefaultPubSession os =
     (case getenv os ENV_PUB_SESSION of
        Some (c # cs) \<Rightarrow> c # cs
      | _ \<Rightarrow>
          (case getenv os ENV_SESSION of
             Some (c # cs) \<Rightarrow> c # cs
           | _ \<Rightarrow> getUserName os))"

definition getDefaultRepSession :: "os \<Rightarrow> string" where
  "getDefaultRepSession os =
     (case getenv os ENV_REP_SESSION of
        Some (c # cs) \<Rightarrow> c # cs
      | _ \<Rightarrow> getApplicationName os)"

lemma getApplicationName_basename:
  "readlink_exe os = Some (dir @ CHR ''/'' # name) \<Longrightarrow> CHR ''/'' \<notin> set name \<Longrightarrow>
   getApplicationName os = name"
  by (simp add: getApplicationName_def find_last_char_append_notin)

lemma getDefaultPubSession_nonempty:
  "getlogin os \<noteq> Some [] \<Longrightarrow> getDefaultPubSession os \<noteq> []"
  by (auto simp: getDefaultPubSession_def getUserName_def split: option.splits list.splits)

section \<open>The zeroconf library\<close>

text \<open>
  A \<^verbatim>\<open>servus::Servus\<close> object is an opaque handle. Browsing yields the instances that appeared
  and disappeared since the last call, in order; the record of an instance is read with
  \<open>sv_get\<close> and \<open>sv_contains_key\<close>.
\<close>

datatype browse_event = Instance_added string | Instance_removed string

datatype announce_result = Announce_ok | Announce_unsupported | Announce_failed string

record 'e servus =
  sv_test_driver :: string
  sv_available :: bool
  sv_new :: "string \<Rightarrow> 'e \<Rightarrow> 'e \<times> nat"
  sv_announce :: "nat \<Rightarrow> (string \<times> string) list \<Rightarrow> 16 word \<Rightarrow> string \<Rightarrow> 'e \<Rightarrow> 'e \<times> announce_result"
  sv_add_listener :: "nat \<Rightarrow> 'e \<Rightarrow> 'e"
  sv_begin_browsing :: "nat \<Rightarrow> 'e \<Rightarrow> 'e"
  sv_end_browsing :: "nat \<Rightarrow> 'e \<Rightarrow> 'e"
  sv_is_browsing :: "nat \<Rightarrow> 'e \<Rightarrow> bool"
  sv_browse :: "nat \<Rightarrow> 'e \<Rightarrow> 'e \<times> browse_event list"
  sv_get :: "nat \<Rightarrow> string \<Rightarrow> string \<Rightarrow> 'e \<Rightarrow> string"
  sv_contains_key :: "nat \<Rightarrow> string \<Rightarrow> string \<Rightarrow> 'e \<Rightarrow> bool"
  sv_make_uint128 :: "string \<Rightarrow> uint128"
  sv_parse_uint128 :: "string \<Rightarrow> uint128"
  sv_uuid :: uint128
  sv_show_uint128 :: "uint128 \<Rightarrow> string"

definition MEERKAT :: "'e servus \<Rightarrow> uint128" where
  "MEERKAT S = sv_make_uint128 S MEERKAT_NAME"

definition on_env :: "('e \<Rightarrow> 'e) \<Rightarrow> ('k, 'e) world \<Rightarrow> ('k, 'e) world" where
  "on_env f w = w\<lparr>env := f (env w)\<rparr>"

lemma trace_on_env [simp]: "trace (on_env f w) = trace w"
  by (simp add: on_env_def)

end
