(* ===== verification/Sample.thy ===== *)
theory Sample
  imports Common
begin

text \<open>
  A small network to run the code on: handles are counted up, every call succeeds, and what
  sockets receive is a queue that the test fills. The theorems are applied to it at concrete
  inputs, which shows that their hypotheses can hold.
\<close>

type_synonym net = "nat \<times> frame list"

definition sample_zmq :: "net zmq" where
  "sample_zmq =
     \<lparr>zmq_socket = (\<lambda>t (n, q). ((n + 1, q), n)),
      zmq_close = (\<lambda>s e. e),
      zmq_bind = (\<lambda>s a e. (e, True)),
      zmq_connect = (\<lambda>s a e. (e, True)),
      zmq_disconnect = (\<lambda>s a e. (e, True)),
      zmq_setsockopt = (\<lambda>s opt e. (e, True)),
      zmq_last_endpoint = (\<lambda>s e. Some ''tcp://0.0.0.0:4242''),
      zmq_msg_send = (\<lambda>s f dontwait e. (e, Sent)),
      zmq_msg_recv = (\<lambda>s dontwait (n, q).
        case q of [] \<Rightarrow> ((n, []), None) | f # fs \<Rightarrow> ((n, fs), Some f)),
      zmq_socket_monitor = (\<lambda>s a e. (e, True)),
      zmq_strerror = (\<lambda>e. ''error'')\<rparr>"

text \<open>A network in which calls that can fail do: nothing is sent, bound or connected.\<close>

definition broken_zmq :: "net zmq" where
  "broken_zmq = sample_zmq
     \<lparr>zmq_bind := (\<lambda>s a e. (e, False)),
      zmq_msg_send := (\<lambda>s f dontwait e. (e, Send_failed))\<rparr>"

definition sample_servus :: "net servus" where
  "sample_servus =
     \<lparr>sv_test_driver = ''__test'',
      sv_available = True,
      sv_new = (\<lambda>name e. (e, 1)),
      sv_announce = (\<lambda>v props p name e. (e, Announce_ok)),
      sv_add_listener = (\<lambda>v e. e),
      sv_begin_browsing = (\<lambda>v e. e),
      sv_end_browsing = (\<lambda>v e. e),
      sv_is_browsing = (\<lambda>v e. True),
      sv_browse = (\<lambda>v e. (e, [Instance_added ''host:4242''])),
      sv_get = (\<lambda>v i k e. []),
      sv_contains_key = (\<lambda>v i k e. False),
      sv_make_uint128 = (\<lambda>name. U128 0 7),
      sv_parse_uint128 = (\<lambda>text. U128 0 8),
      sv_uuid = U128 0 9,
      sv_show_uint128 = (\<lambda>i. ''uuid'')\<rparr>"

definition sample_os :: os where
  "sample_os = \<lparr>getenv = (\<lambda>_. None), getlogin = Some ''user'', readlink_exe = None,
     gethostname = ''host''\<rparr>"

definition sample_host :: host where
  "sample_host = \<lparr>big_endian = False, high_first = False\<rparr>"

definition big_host :: host where
  "big_host = \<lparr>big_endian = True, high_first = True\<rparr>"

definition sample_print :: "servus_uri \<Rightarrow> string" where
  "sample_print u = uri_scheme u @ ''://'' @ uri_host u"

text \<open>A parser that knows \<^verbatim>\<open>tcp://\<close> only, and takes the rest for the path.\<close>

definition sample_parse :: uri_parser where
  "sample_parse s =
     (if take 6 s = ''tcp://''
      then Inr (empty_uri\<lparr>uri_scheme := ''tcp'', uri_path := drop 6 s\<rparr>)
      else Inr (empty_uri\<lparr>uri_path := s\<rparr>))"

text \<open>The world before the first call, with what will be received.\<close>

definition sample_world :: "frame list \<Rightarrow> net zworld" where
  "sample_world q = \<lparr>trace = [], env = (1, q)\<rparr>"

lemmas sample_defs = sample_zmq_def broken_zmq_def sample_servus_def sample_os_def
  sample_host_def big_host_def sample_print_def sample_parse_def sample_world_def

lemma sample_z [simp]:
  "z_socket sample_zmq t w = (emit (Call_socket t (fst (env w))) (w\<lparr>env := (fst (env w) + 1, snd (env w))\<rparr>), fst (env w))"
  "z_close sample_zmq s w = emit (Call_close s) w"
  "z_bind sample_zmq s a w = (emit (Call_bind s a True) w, True)"
  "z_connect sample_zmq s a w = (emit (Call_connect s a True) w, True)"
  "z_disconnect sample_zmq s a w = (emit (Call_disconnect s a True) w, True)"
  "z_setsockopt sample_zmq s opt w = (emit (Call_setsockopt s opt True) w, True)"
  "z_send sample_zmq s f b w = (emit (Call_send s f Sent) w, Sent)"
  "z_monitor sample_zmq s a w = (emit (Call_monitor s a True) w, True)"
  by (simp_all add: z_socket_def z_close_def z_bind_def z_connect_def z_disconnect_def
      z_setsockopt_def z_send_def z_monitor_def sample_zmq_def split: prod.splits)

lemma sample_recv [simp]:
  "z_recv sample_zmq s b w =
     (case snd (env w) of
        [] \<Rightarrow> (emit (Call_recv s None) w, None)
      | f # fs \<Rightarrow> (emit (Call_recv s (Some f)) (w\<lparr>env := (fst (env w), fs)\<rparr>), Some f))"
  by (cases "env w") (auto simp: z_recv_def sample_zmq_def split: list.splits)

lemma sample_port_text: "decimal 4242 = ''4242''"
  by code_simp

end
