(* ===== verification/Sender.thy ===== *)
theory Sender
  imports Sample
begin

text \<open>
  \<^verbatim>\<open>detail/sender.cpp\<close>: the base of publishers, servers, brokers and the HTTP server. It owns a
  socket and a URI, completes the URI from the endpoint ZeroMQ bound, and announces the
  address on zeroconf.
\<close>

section \<open>State and construction\<close>

record sender =
  sn_uri :: servus_uri
  sn_socket :: sock
  sn_service :: string
  sn_servus :: nat
  sn_session :: string

definition Sender_create ::
  "'e zmq \<Rightarrow> 'e servus \<Rightarrow> servus_uri \<Rightarrow> sock_type \<Rightarrow> string \<Rightarrow> string \<Rightarrow>
   'e zworld \<Rightarrow> 'e zworld \<times> sender" where
  "Sender_create Z S uri type service session w =
     (let (w1, s) = z_socket Z type w;
          name = (if session = sv_test_driver S then session else service);
          (e, v) = sv_new S name (env w1);
          (w2, _) = z_setsockopt Z s (ZMQ_SNDHWM 0) (w1\<lparr>env := e\<rparr>)
      in (w2, \<lparr>sn_uri = uri, sn_socket = s, sn_service = name, sn_servus = v,
               sn_session = session\<rparr>))"

definition Sender_create_plain ::
  "'e zmq \<Rightarrow> 'e servus \<Rightarrow> servus_uri \<Rightarrow> sock_type \<Rightarrow> 'e zworld \<Rightarrow> 'e zworld \<times> sender" where
  "Sender_create_plain Z S uri type w = Sender_create Z S uri type [] [] w"

text \<open>
  The socket is shared: it is closed by whichever of the sender and the monitors on it is
  destroyed last.
\<close>

definition Sender_destroy :: "'e zmq \<Rightarrow> bool \<Rightarrow> sender \<Rightarrow> 'e zworld \<Rightarrow> 'e zworld" where
  "Sender_destroy Z shared sn w = (if shared then w else z_close Z (sn_socket sn) w)"

lemma Sender_create_fields:
  "Sender_create Z S uri type service session w = (w', sn) \<Longrightarrow>
   sn_uri sn = uri \<and> sn_session sn = session \<and>
   sn_service sn = (if session = sv_test_driver S then session else service)"
  by (auto simp: Sender_create_def Let_def split: prod.splits)

lemma Sender_create_trace:
  "Sender_create Z S uri type service session w = (w', sn) \<Longrightarrow>
   \<exists>ok. trace w' = trace w @ [Call_socket type (sn_socket sn),
                                Call_setsockopt (sn_socket sn) (ZMQ_SNDHWM 0) ok]"
  by (auto simp: Sender_create_def Let_def dest!: trace_callsD split: prod.splits)

section \<open>Addresses\<close>

definition getAddress :: "sender \<Rightarrow> string" where
  "getAddress sn = uri_host (sn_uri sn) @ '':'' @ decimal (unat (uri_port (sn_uri sn)))"

definition Sender_addSockets :: "sender \<Rightarrow> sock list \<Rightarrow> sock list" where
  "Sender_addSockets sn entries = entries @ [sn_socket sn]"

text \<open>
  \<^verbatim>\<open>_getEndPoint\<close> cuts host and port out of ZeroMQ's last endpoint. \<^verbatim>\<open>find_last_of\<close> yields
  \<^verbatim>\<open>npos\<close> when there is no such character, and \<^verbatim>\<open>npos + 1\<close> is 0; the length \<^verbatim>\<open>end - start\<close> wraps to
  a huge number when the last colon precedes the last slash, and \<^verbatim>\<open>substr\<close> then takes the rest.
\<close>

definition endpoint_port :: "string \<Rightarrow> string" where
  "endpoint_port endPoint = substr_after endPoint (find_last_char CHR '':'' endPoint)"

definition endpoint_host :: "string \<Rightarrow> string" where
  "endpoint_host endPoint =
     (let start = (case find_last_char CHR ''/'' endPoint of None \<Rightarrow> 0 | Some i \<Rightarrow> i + 1)
      in case find_last_char CHR '':'' endPoint of
           None \<Rightarrow> drop start endPoint
         | Some e \<Rightarrow>
             if e < start then drop start endPoint else take (e - start) (drop start endPoint))"

definition getEndPoint ::
  "'e zmq \<Rightarrow> os \<Rightarrow> sender \<Rightarrow> 'e zworld \<Rightarrow> exn + (string \<times> string)" where
  "getEndPoint Z os sn w =
     (case zmq_last_endpoint Z (sn_socket sn) (env w) of
        None \<Rightarrow> Inl (Runtime_error ''Cannot determine port of publisher'')
      | Some buffer \<Rightarrow>
          let endPoint = c_str buffer;
              port = endpoint_port endPoint;
              host = endpoint_host endPoint
          in Inr (if host = ''0.0.0.0'' then gethostname os else host, port))"

text \<open>\<^verbatim>\<open>port = std::stoi(portStr)\<close> narrows to 16 bits.\<close>

definition initURI ::
  "'e zmq \<Rightarrow> os \<Rightarrow> sender \<Rightarrow> 'e zworld \<Rightarrow> exn + sender" where
  "initURI Z os sn w =
     (let u = sn_uri sn in
      if uri_scheme u \<noteq> DEFAULT_SCHEMA then Inr sn
      else
        let host = (if uri_host u = ''*'' then [] else uri_host u);
            port = uri_port u
        in if host \<noteq> [] \<and> port \<noteq> 0 then Inr sn
           else
             (case getEndPoint Z os sn w of
                Inl e \<Rightarrow> Inl e
              | Inr (hostStr, portStr) \<Rightarrow>
                  (case (if port = 0 then stoi portStr else Inr 0) of
                     Inl e \<Rightarrow> Inl e
                   | Inr n \<Rightarrow>
                       let u1 = (if port = 0 then u\<lparr>uri_port := word_of_int n\<rparr> else u);
                           u2 = (if host = [] then u1\<lparr>uri_host := hostStr\<rparr> else u1)
                       in Inr (sn\<lparr>sn_uri := u2\<rparr>))))"

text \<open>An endpoint as ZeroMQ reports it: scheme, a host without \<open>/\<close>, a colon and a port.\<close>

definition tcp_endpoint :: "string \<Rightarrow> 16 word \<Rightarrow> string" where
  "tcp_endpoint host p = ''tcp://'' @ host @ '':'' @ port_text p"

lemma port_text_no_slash: "CHR ''/'' \<notin> set (port_text p)"
  using decimal_digits [of "CHR ''/''" "unat p"] by (auto simp: port_text_def is_digit_def)

lemma endpoint_port_tcp: "endpoint_port (tcp_endpoint host p) = port_text p"
proof -
  have "find_last_char CHR '':'' ((''tcp://'' @ host) @ CHR '':'' # port_text p)
      = Some (length (''tcp://'' @ host))"
    by (rule find_last_char_append_notin) simp
  then show ?thesis
    by (simp add: endpoint_port_def tcp_endpoint_def substr_after_def)
qed

lemma endpoint_host_tcp:
  assumes "CHR ''/'' \<notin> set host"
  shows "endpoint_host (tcp_endpoint host p) = host"
proof -
  have "find_last_char CHR ''/'' (''tcp:/'' @ CHR ''/'' # (host @ '':'' @ port_text p))
      = Some (length ''tcp:/'')"
    by (rule find_last_char_append_notin) (use assms port_text_no_slash in auto)
  moreover have "find_last_char CHR '':'' ((''tcp://'' @ host) @ CHR '':'' # port_text p)
      = Some (length (''tcp://'' @ host))"
    by (rule find_last_char_append_notin) simp
  ultimately show ?thesis
    by (simp add: endpoint_host_def tcp_endpoint_def)
qed

lemma port_text_no_nul: "CHR 0x00 \<notin> set (port_text p)"
  using decimal_digits [of "CHR 0x00" "unat p"] by (auto simp: port_text_def is_digit_def)

lemma getEndPoint_tcp:
  assumes "zmq_last_endpoint Z (sn_socket sn) (env w) = Some (tcp_endpoint host p)"
    and "CHR ''/'' \<notin> set host" and "CHR 0x00 \<notin> set host"
  shows "getEndPoint Z os sn w =
    Inr (if host = ''0.0.0.0'' then gethostname os else host, port_text p)"
proof -
  have "c_str (tcp_endpoint host p) = tcp_endpoint host p"
    using assms(3) port_text_no_nul by (intro c_str_id) (simp add: tcp_endpoint_def)
  then show ?thesis
    using assms by (simp add: getEndPoint_def endpoint_port_tcp endpoint_host_tcp)
qed

text \<open>Once its socket is bound, a tcp sender's URI has the host and the port the user
  gave, and where he gave none, those ZeroMQ bound; the wildcard address is replaced by the host
  name.\<close>

lemma initURI_bound:
  assumes "zmq_last_endpoint Z (sn_socket sn) (env w) = Some (tcp_endpoint host p)"
    and "CHR ''/'' \<notin> set host" and "CHR 0x00 \<notin> set host"
    and "uri_scheme (sn_uri sn) = DEFAULT_SCHEMA"
  shows "\<exists>sn'. initURI Z os sn w = Inr sn' \<and>
    uri_scheme (sn_uri sn') = DEFAULT_SCHEMA \<and>
    uri_port (sn_uri sn') = (if uri_port (sn_uri sn) = 0 then p else uri_port (sn_uri sn)) \<and>
    uri_host (sn_uri sn') =
      (if uri_host (sn_uri sn) \<in> {[], ''*''}
       then (if host = ''0.0.0.0'' then gethostname os else host) else uri_host (sn_uri sn)) \<and>
    sn_socket sn' = sn_socket sn"
  using assms by (simp add: initURI_def Let_def getEndPoint_tcp stoi_port_text)

definition sample_sender :: sender where
  "sample_sender = \<lparr>sn_uri = URI_default, sn_socket = 1, sn_service = ''service'', sn_servus = 1,
     sn_session = ''session''\<rparr>"

lemma initURI_other_scheme:
  "uri_scheme (sn_uri sn) \<noteq> DEFAULT_SCHEMA \<Longrightarrow> initURI Z os sn w = Inr sn"
  by (simp add: initURI_def Let_def)

lemma initURI_socket: "initURI Z os sn w = Inr sn' \<Longrightarrow>
  sn_socket sn' = sn_socket sn \<and> sn_session sn' = sn_session sn \<and>
  sn_service sn' = sn_service sn \<and> sn_servus sn' = sn_servus sn"
  by (auto simp: initURI_def Let_def split: if_splits sum.splits prod.splits)

section \<open>Announcement\<close>

definition announce_record :: "'e servus \<Rightarrow> os \<Rightarrow> sender \<Rightarrow> (string \<times> string) list" where
  "announce_record S os sn =
     [(''Type'', ''ZeroEQ''), (KEY_INSTANCE, sv_show_uint128 S (sv_uuid S)),
      (KEY_USER, getUserName os), (KEY_APPLICATION, getApplicationName os)]
     @ (if sn_session sn \<noteq> [] then [(KEY_SESSION, sn_session sn)] else [])"

definition announce :: "'e servus \<Rightarrow> os \<Rightarrow> sender \<Rightarrow> 'e zworld \<Rightarrow> ('e zworld, unit) outcome" where
  "announce S os sn w =
     (if \<not> sv_available S then (w, Inr ())
      else
        let props = announce_record S os sn;
            p = uri_port (sn_uri sn);
            (e, result) = sv_announce S (sn_servus sn) props p (getAddress sn) (env w);
            w' = emit (Call_announce (sn_service sn) props p (getAddress sn)
                         (result = Announce_ok)) (w\<lparr>env := e\<rparr>)
        in case result of
             Announce_unsupported \<Rightarrow> (w', Inr ())
           | Announce_failed text \<Rightarrow>
               (w', Inl (Runtime_error (''Zeroconf announce failed: '' @ text)))
           | Announce_ok \<Rightarrow> (w', Inr ()))"

lemma announce_trace:
  "announce S os sn w = (w', r) \<Longrightarrow>
   trace w' = trace w \<or>
   (\<exists>ok. trace w' = trace w @ [Call_announce (sn_service sn) (announce_record S os sn)
                                 (uri_port (sn_uri sn)) (getAddress sn) ok])"
  by (auto simp: announce_def Let_def split: if_splits prod.splits announce_result.splits)

lemma announce_session_key:
  "map_of (announce_record S os sn) KEY_SESSION =
     (if sn_session sn = [] then None else Some (sn_session sn))"
  by (simp add: announce_record_def constants)

section \<open>Binding and announcing\<close>

text \<open>
  The body of the constructors of publishers and servers, which differ in the word \<open>what\<close>: the
  session must not be empty, the socket is bound, the URI completed, and the service announced
  unless the session is \<^verbatim>\<open>NULL_SESSION\<close>. The checks look at the session the caller gave, before
  the default is resolved. An exception destroys the base object, which closes the socket.
\<close>

definition Sender_start ::
  "'e zmq \<Rightarrow> 'e servus \<Rightarrow> os \<Rightarrow> (servus_uri \<Rightarrow> string) \<Rightarrow> string \<Rightarrow> string \<Rightarrow> sender \<Rightarrow>
   'e zworld \<Rightarrow> ('e zworld, sender) outcome" where
  "Sender_start Z S os print what session sn w =
     (let fail = (\<lambda>e w. (Sender_destroy Z False sn w, Inl e)) in
      if session = []
      then fail (Runtime_error (''Empty session is not allowed for '' @ what)) w
      else
        let zmqURI = buildZmqURI print (sn_uri sn);
            (w1, bound) = z_bind Z (sn_socket sn) zmqURI w
        in if \<not> bound
           then fail (Runtime_error (''Cannot bind '' @ what @ '' socket '' @ [CHR 0x27] @ zmqURI
                       @ [CHR 0x27] @ '': '' @ z_strerror Z w1)) w1
           else
             case initURI Z os sn w1 of
               Inl e \<Rightarrow> fail e w1
             | Inr sn' \<Rightarrow>
                 if session = NULL_SESSION then (w1, Inr sn')
                 else
                   (case announce S os sn' w1 of
                      (w2, Inl e) \<Rightarrow> fail e w2
                    | (w2, Inr _) \<Rightarrow> (w2, Inr sn')))"

fun announcements :: "'k event list \<Rightarrow> string list" where
  "announcements [] = []"
| "announcements (Call_announce _ _ _ address _ # tr) = address # announcements tr"
| "announcements (_ # tr) = announcements tr"

lemma announcements_append [simp]:
  "announcements (tr @ us) = announcements tr @ announcements us"
  by (induction tr rule: announcements.induct) auto

text \<open>
  A sender that was constructed is bound to the address of its URI, and it was announced, under
  the address its completed URI gives, only if its session is not the null session.
\<close>

lemma Sender_start_ok:
  assumes "Sender_start Z S os print what session sn w = (w', Inr sn')"
  shows "session \<noteq> []"
    and "\<exists>w1. trace w1 = trace w @ [Call_bind (sn_socket sn) (buildZmqURI print (sn_uri sn)) True]
          \<and> initURI Z os sn w1 = Inr sn'
          \<and> (trace w' = trace w1 \<or> session \<noteq> NULL_SESSION \<and> sv_available S
              \<and> (\<exists>ok. trace w' = trace w1 @ [Call_announce (sn_service sn')
                    (announce_record S os sn') (uri_port (sn_uri sn')) (getAddress sn') ok]))"
proof -
  show "session \<noteq> []"
    using assms by (auto simp: Sender_start_def Let_def split: if_splits)
  obtain w1 where w1: "z_bind Z (sn_socket sn) (buildZmqURI print (sn_uri sn)) w = (w1, True)"
    and init: "initURI Z os sn w1 = Inr sn'"
    and ann: "(session = NULL_SESSION \<and> w' = w1) \<or>
      (session \<noteq> NULL_SESSION \<and> announce S os sn' w1 = (w', Inr ()))"
    using assms
    by (auto simp: Sender_start_def Let_def split: if_splits prod.splits sum.splits)
  have tr: "trace w1 = trace w @ [Call_bind (sn_socket sn) (buildZmqURI print (sn_uri sn)) True]"
    using w1 by (rule trace_callsD)
  have "trace w' = trace w1 \<or> session \<noteq> NULL_SESSION \<and> sv_available S
      \<and> (\<exists>ok. trace w' = trace w1 @ [Call_announce (sn_service sn')
            (announce_record S os sn') (uri_port (sn_uri sn')) (getAddress sn') ok])"
    using ann by (auto simp: announce_def Let_def split: if_splits prod.splits announce_result.splits)
  with tr init show "\<exists>w1. trace w1 = trace w @
        [Call_bind (sn_socket sn) (buildZmqURI print (sn_uri sn)) True]
      \<and> initURI Z os sn w1 = Inr sn'
      \<and> (trace w' = trace w1 \<or> session \<noteq> NULL_SESSION \<and> sv_available S
          \<and> (\<exists>ok. trace w' = trace w1 @ [Call_announce (sn_service sn')
                (announce_record S os sn') (uri_port (sn_uri sn')) (getAddress sn') ok]))"
    by blast
qed

text \<open>A constructor that throws leaves no socket behind.\<close>

lemma Sender_start_throws:
  assumes "Sender_start Z S os print what session sn w = (w', Inl e)"
  shows "\<exists>us. trace w' = trace w @ us @ [Call_close (sn_socket sn)] \<and>
    (\<forall>t s. Call_socket t s \<notin> set us)"
  using assms
  by (auto simp: Sender_start_def Sender_destroy_def Let_def
      dest!: trace_callsD announce_trace split: if_splits prod.splits sum.splits)

end
