(* ===== verification/Publisher.thy ===== *)
theory Publisher
  imports Sender
begin

text \<open>
  \<^verbatim>\<open>zeroeq/publisher.cpp\<close>. A publisher is a sender with an XPUB socket; publishing an event
  sends its identifier in wire order and, when there is one, its payload as a second frame.
\<close>

definition Publisher_create ::
  "'e zmq \<Rightarrow> 'e servus \<Rightarrow> os \<Rightarrow> (servus_uri \<Rightarrow> string) \<Rightarrow> servus_uri \<Rightarrow> string \<Rightarrow>
   'e zworld \<Rightarrow> ('e zworld, sender) outcome" where
  "Publisher_create Z S os print uri session w =
     (let (w1, sn) = Sender_create Z S uri ZMQ_XPUB PUBLISHER_SERVICE
                       (if session = DEFAULT_SESSION then getDefaultPubSession os else session) w
      in Sender_start Z S os print ''publisher'' session sn w1)"

text \<open>The public constructors: the URI and the session have defaults.\<close>

definition Publisher_default where
  "Publisher_default Z S os print w = Publisher_create Z S os print URI_default DEFAULT_SESSION w"

definition Publisher_session where
  "Publisher_session Z S os print session w = Publisher_create Z S os print URI_default session w"

definition Publisher_uri where
  "Publisher_uri Z S os print uri w = Publisher_create Z S os print uri DEFAULT_SESSION w"

text \<open>
  \<open>payload\<close> is \<open>None\<close> for a null pointer. Any status but a success is \<^verbatim>\<open>-1\<close>.
\<close>

definition publish ::
  "'e zmq \<Rightarrow> host \<Rightarrow> uint128 \<Rightarrow> bytes option \<Rightarrow> sender \<Rightarrow> 'e zworld \<Rightarrow> 'e zworld \<times> bool" where
  "publish Z h event payload sn w =
     (let hasPayload = has_payload payload;
          (w1, ret) = z_send Z (sn_socket sn) (to_wire h event, hasPayload) False w
      in if ret \<noteq> Sent then (w1, False)
         else if \<not> hasPayload then (w1, True)
         else
           let (w2, ret) = z_send Z (sn_socket sn) (the payload, False) False w1
           in if ret \<noteq> Sent then (w2, False) else (w2, True))"

definition publish_event ::
  "'e zmq \<Rightarrow> host \<Rightarrow> uint128 \<Rightarrow> sender \<Rightarrow> 'e zworld \<Rightarrow> 'e zworld \<times> bool" where
  "publish_event Z h event sn w = publish Z h event None sn w"

text \<open>A serializable object is its type identifier and its binary form.\<close>

definition publish_object ::
  "'e zmq \<Rightarrow> host \<Rightarrow> uint128 \<times> bytes option \<Rightarrow> sender \<Rightarrow> 'e zworld \<Rightarrow> 'e zworld \<times> bool" where
  "publish_object Z h obj sn w = (case obj of (typeId, data) \<Rightarrow> publish Z h typeId data sn w)"

text \<open>
  Publishing sends the whole message or reports an error; no frame goes out after a failed one.
\<close>

lemma publish_sent:
  assumes "publish Z h event payload sn w = (w', ok)"
  shows "\<exists>fs. sent_on (sn_socket sn) (trace w') = sent_on (sn_socket sn) (trace w) @ fs \<and>
    prefix fs (message_frames h event payload) \<and> (ok \<longleftrightarrow> fs = message_frames h event payload)"
proof -
  let ?s = "sn_socket sn" and ?p = "has_payload payload"
  obtain w1 r1 where 1: "z_send Z ?s (to_wire h event, ?p) False w = (w1, r1)"
    by (metis prod.exhaust)
  obtain w2 r2 where 2: "z_send Z ?s (the payload, False) False w1 = (w2, r2)"
    by (metis prod.exhaust)
  note t = trace_callsD(6) [OF 1] trace_callsD(6) [OF 2]
  consider "r1 \<noteq> Sent" | "r1 = Sent" "\<not> ?p" | "r1 = Sent" "?p" by blast
  then show ?thesis
  proof cases
    case 1
    with assms \<open>z_send Z ?s (to_wire h event, ?p) False w = (w1, r1)\<close> have "w' = w1 \<and> \<not> ok"
      by (simp add: publish_def Let_def)
    with 1 t show ?thesis
      by (cases r1) (auto simp: message_frames_def)
  next
    case 2
    with assms \<open>z_send Z ?s (to_wire h event, ?p) False w = (w1, r1)\<close> have "w' = w1 \<and> ok"
      by (simp add: publish_def Let_def)
    with 2 t show ?thesis by (auto simp: message_frames_def)
  next
    case 3
    with assms \<open>z_send Z ?s (to_wire h event, ?p) False w = (w1, r1)\<close>
      \<open>z_send Z ?s (the payload, False) False w1 = (w2, r2)\<close>
    have "w' = w2 \<and> (ok \<longleftrightarrow> r2 = Sent)"
      by (auto simp: publish_def Let_def split: if_splits)
    with 3 t show ?thesis
      by (cases r2) (auto simp: message_frames_def sent_on_append)
  qed
qed

lemma Publisher_created:
  assumes "Publisher_create Z S os print uri session w = (w', Inr sn)"
  shows "session \<noteq> [] \<and> Call_bind (sn_socket sn) (buildZmqURI print uri) True \<in> set (trace w') \<and>
    announcements (trace w') = announcements (trace w) @
      (if announcements (trace w') = announcements (trace w) then [] else [getAddress sn]) \<and>
    (session = NULL_SESSION \<longrightarrow> announcements (trace w') = announcements (trace w)) \<and>
    sn_session sn = (if session = DEFAULT_SESSION then getDefaultPubSession os else session)"
proof -
  let ?sess = "if session = DEFAULT_SESSION then getDefaultPubSession os else session"
  obtain w1 s0 where c: "Sender_create Z S uri ZMQ_XPUB PUBLISHER_SERVICE ?sess w = (w1, s0)"
    and st: "Sender_start Z S os print ''publisher'' session s0 w1 = (w', Inr sn)"
    using assms by (auto simp: Publisher_create_def Let_def split: prod.splits)
  note f = Sender_create_fields [OF c]
  from Sender_create_trace [OF c] obtain ok0 where t1:
    "trace w1 = trace w @ [Call_socket ZMQ_XPUB (sn_socket s0),
       Call_setsockopt (sn_socket s0) (ZMQ_SNDHWM 0) ok0]" by blast
  from Sender_start_ok(2) [OF st] obtain w2 where t2:
    "trace w2 = trace w1 @ [Call_bind (sn_socket s0) (buildZmqURI print (sn_uri s0)) True]"
    and init: "initURI Z os s0 w2 = Inr sn"
    and t3: "trace w' = trace w2 \<or> session \<noteq> NULL_SESSION \<and> sv_available S
      \<and> (\<exists>ok. trace w' = trace w2 @ [Call_announce (sn_service sn)
            (announce_record S os sn) (uri_port (sn_uri sn)) (getAddress sn) ok])"
    by blast
  note k = initURI_socket [OF init]
  have "session \<noteq> []" using st by (rule Sender_start_ok)
  moreover have "Call_bind (sn_socket sn) (buildZmqURI print uri) True \<in> set (trace w')"
    using t2 t3 f k by auto
  moreover have "session = NULL_SESSION \<Longrightarrow> announcements (trace w') = announcements (trace w)"
    "announcements (trace w') = announcements (trace w) \<or>
     announcements (trace w') = announcements (trace w) @ [getAddress sn]"
    using t1 t2 t3 by auto
  ultimately show ?thesis using f k by auto
qed

text \<open>A publisher that was constructed is bound to the address of the URI it was given;
  it has announced nothing but the address its completed URI gives, nothing at all in the null
  session, and its session is the one given or the default one.\<close>

lemma Publisher_create_ok:
  assumes "Publisher_create Z S os print uri session w = (w', Inr sn)"
  shows "session \<noteq> [] \<and> Call_bind (sn_socket sn) (buildZmqURI print uri) True \<in> set (trace w') \<and>
    announcements (trace w') = announcements (trace w) @
      (if announcements (trace w') = announcements (trace w) then [] else [getAddress sn]) \<and>
    (session = NULL_SESSION \<longrightarrow> announcements (trace w') = announcements (trace w)) \<and>
    sn_session sn = (if session = DEFAULT_SESSION then getDefaultPubSession os else session)"
  using assms by (rule Publisher_created)

text \<open>A publisher that cannot be constructed leaves no socket open that was not open
  before.\<close>

lemma Publisher_create_throws:
  assumes "Publisher_create Z S os print uri session w = (w', Inl e)"
  shows "open_socks (trace w') \<subseteq> open_socks (trace w)"
proof -
  let ?sess = "if session = DEFAULT_SESSION then getDefaultPubSession os else session"
  obtain w1 sn where c: "Sender_create Z S uri ZMQ_XPUB PUBLISHER_SERVICE ?sess w = (w1, sn)"
    by (metis prod.exhaust)
  then have st: "Sender_start Z S os print ''publisher'' session sn w1 = (w', Inl e)"
    using assms by (simp add: Publisher_create_def)
  have step: "foldl open_step A us \<subseteq> A" if "\<forall>t s. Call_socket t s \<notin> set us" for A and us :: trace
    using that
  proof (induction us arbitrary: A)
    case (Cons c us)
    then have "open_step A c \<subseteq> A" by (cases c) auto
    moreover have "foldl open_step (open_step A c) us \<subseteq> open_step A c" using Cons by simp
    ultimately show ?case by simp
  qed simp
  from Sender_create_trace [OF c] Sender_start_throws [OF st] obtain ok us where
    "trace w' = trace w @ [Call_socket ZMQ_XPUB (sn_socket sn),
       Call_setsockopt (sn_socket sn) (ZMQ_SNDHWM 0) ok] @ us @ [Call_close (sn_socket sn)]"
    and "\<forall>t s. Call_socket t s \<notin> set us" by auto
  with step [of us] show ?thesis by (fastforce simp: open_socks_append split: if_splits)
qed

text \<open>Publishing sends the identifier and, after it, a payload that is not empty, and
  returns true when all of it went out; otherwise what went out is a proper beginning of
  it.\<close>

lemma publish_frames:
  assumes "publish Z h event payload sn w = (w', ok)"
  shows "\<exists>fs. sent_on (sn_socket sn) (trace w') = sent_on (sn_socket sn) (trace w) @ fs \<and>
    prefix fs (message_frames h event payload) \<and> (ok \<longleftrightarrow> fs = message_frames h event payload)"
  using assms by (rule publish_sent)

end
