(* ===== verification/Discovery.thy ===== *)
theory Discovery
  imports Sender
begin

text \<open>
  \<^verbatim>\<open>detail/receiver.h\<close>: the base of subscribers and clients. It keeps the connections to the
  instances a zeroconf browser reports, as a map from ZeroMQ addresses to sockets and as a list
  of poll entries. How a socket is made is the derived class's \<^verbatim>\<open>createSocket\<close>; the locale
  \<open>socket_factory\<close> is what the base class needs of it and what it gives back.
\<close>

section \<open>State\<close>

record net_receiver =
  nr_servus :: nat
  nr_session :: string
  nr_sockets :: "(string, sock) smap"
  nr_entries :: "sock list"
  nr_updated :: bool

type_synonym 'e net_state = "net_receiver \<times> 'e zworld"
type_synonym 'e create_socket = "uint128 \<Rightarrow> 'e zworld \<Rightarrow> ('e zworld, sock) outcome"

definition net_ok :: "net_receiver \<Rightarrow> bool" where
  "net_ok r \<longleftrightarrow> smap_ok (<) (nr_sockets r)"

definition connected :: "net_receiver \<Rightarrow> string set" where
  "connected r = fst ` set (nr_sockets r)"

definition sockets_of :: "net_receiver \<Rightarrow> sock set" where
  "sockets_of r = snd ` set (nr_sockets r)"

text \<open>Every connected socket is in the list that \<^verbatim>\<open>receive()\<close> polls.\<close>

definition all_polled :: "net_receiver \<Rightarrow> bool" where
  "all_polled r \<longleftrightarrow> sockets_of r \<subseteq> set (nr_entries r)"

section \<open>Construction and destruction\<close>

definition Receiver_browse ::
  "'e servus \<Rightarrow> string \<Rightarrow> string \<Rightarrow> 'e zworld \<Rightarrow> ('e zworld, net_receiver) outcome" where
  "Receiver_browse S service session w =
     (let (e, v) = sv_new S (if session = sv_test_driver S then session else service) (env w);
          w1 = w\<lparr>env := e\<rparr>;
          r = \<lparr>nr_servus = v, nr_session = session, nr_sockets = [], nr_entries = [],
               nr_updated = False\<rparr>
      in if session = NULL_SESSION \<or> session = []
         then (w1, Inl (Runtime_error ''Invalid session name for browsing''))
         else if \<not> sv_available S then (w1, Inr r)
         else (on_env (sv_begin_browsing S v) (on_env (sv_add_listener S v) w1), Inr r))"

definition Receiver_plain ::
  "'e servus \<Rightarrow> string \<Rightarrow> 'e zworld \<Rightarrow> 'e zworld \<times> net_receiver" where
  "Receiver_plain S service w =
     (let (e, v) = sv_new S service (env w)
      in (w\<lparr>env := e\<rparr>,
          \<lparr>nr_servus = v, nr_session = NULL_SESSION, nr_sockets = [], nr_entries = [],
           nr_updated = False\<rparr>))"

text \<open>The destructor registers the listener once more where it should remove it.\<close>

definition Receiver_destroy ::
  "'e zmq \<Rightarrow> 'e servus \<Rightarrow> (sock \<Rightarrow> bool) \<Rightarrow> 'e net_state \<Rightarrow> 'e zworld" where
  "Receiver_destroy Z S held st =
     (let (r, w) = st;
          w1 = (if sv_is_browsing S (nr_servus r) (env w)
                then on_env (sv_add_listener S (nr_servus r))
                       (on_env (sv_end_browsing S (nr_servus r)) w)
                else w)
      in fold (\<lambda>s w. if held s then w else z_close Z s w) (remdups (map snd (nr_sockets r))) w1)"

section \<open>Connecting\<close>

text \<open>
  A socket is closed when its last reference goes: the map, and whatever else the derived class
  keeps (\<open>held\<close>; the client holds its one socket).
\<close>

definition release ::
  "'e zmq \<Rightarrow> (sock \<Rightarrow> bool) \<Rightarrow> net_receiver \<Rightarrow> sock \<Rightarrow> 'e zworld \<Rightarrow> 'e zworld" where
  "release Z held r s w = (if held s \<or> s \<in> sockets_of r then w else z_close Z s w)"

definition net_connect ::
  "'e zmq \<Rightarrow> (sock \<Rightarrow> bool) \<Rightarrow> string \<Rightarrow> sock \<Rightarrow> 'e net_state \<Rightarrow> 'e net_state \<times> bool" where
  "net_connect Z held zmqURI socket st =
     (let (r, w) = st; (w1, ok) = z_connect Z socket zmqURI w
      in if \<not> ok then ((r, w1), False)
         else
           let r' = r\<lparr>nr_sockets := smap_put (<) zmqURI socket (nr_sockets r),
                      nr_entries := nr_entries r @ [socket]\<rparr>
           in case map_of (nr_sockets r) zmqURI of
                None \<Rightarrow> ((r', w1), True)
              | Some old \<Rightarrow> ((r', release Z held r' old w1), True))"

text \<open>
  \<^verbatim>\<open>std::remove_if\<close> moves the elements to keep to the front, in order, and leaves what is behind
  them; it does not shorten the vector. For the plain structs of a poll list the elements behind
  are the old ones.
\<close>

definition remove_if :: "('a \<Rightarrow> bool) \<Rightarrow> 'a list \<Rightarrow> 'a list" where
  "remove_if P xs = (let keep = filter (\<lambda>x. \<not> P x) xs in keep @ drop (length keep) xs)"

definition net_disconnect ::
  "'e zmq \<Rightarrow> (sock \<Rightarrow> bool) \<Rightarrow> string \<Rightarrow> 'e net_state \<Rightarrow> 'e net_state \<times> bool" where
  "net_disconnect Z held zmqURI st =
     (let (r, w) = st
      in case map_of (nr_sockets r) zmqURI of
           None \<Rightarrow> ((r, w), False)
         | Some socket \<Rightarrow>
             let (w1, _) = z_disconnect Z socket zmqURI w;
                 r' = r\<lparr>nr_entries := remove_if (\<lambda>c. c = socket) (nr_entries r),
                        nr_sockets := smap_erase (<) zmqURI (nr_sockets r)\<rparr>
             in ((r', release Z held r' socket w1), True))"

section \<open>Zeroconf callbacks\<close>

definition zmqURI_of_instance :: "string \<Rightarrow> exn + string" where
  "zmqURI_of_instance instance =
     (let pos = find_char CHR '':'' instance;
          host = substr_to instance pos;
          port = substr_after instance pos
      in case stoi port of
           Inl e \<Rightarrow> Inl e
         | Inr n \<Rightarrow> Inr (buildZmqAddress DEFAULT_SCHEMA host (word_of_int n)))"

definition instanceAdded ::
  "'e zmq \<Rightarrow> 'e servus \<Rightarrow> (sock \<Rightarrow> bool) \<Rightarrow> 'e create_socket \<Rightarrow> string \<Rightarrow>
   'e net_state \<Rightarrow> ('e net_state, unit) outcome" where
  "instanceAdded Z S held createSocket instance st =
     (let (r, w) = st in
      case zmqURI_of_instance instance of
        Inl e \<Rightarrow> (st, Inl e)
      | Inr zmqURI \<Rightarrow>
          if map_of (nr_sockets r) zmqURI \<noteq> None then (st, Inr ())
          else
            let session = sv_get S (nr_servus r) instance KEY_SESSION (env w)
            in if sv_contains_key S (nr_servus r) instance KEY_SESSION (env w)
                  \<and> nr_session r \<noteq> [] \<and> session \<noteq> nr_session r
               then (st, Inr ())
               else
                 let identifier =
                       sv_parse_uint128 S (sv_get S (nr_servus r) instance KEY_INSTANCE (env w))
                 in (case createSocket identifier w of
                      (w1, Inl e) \<Rightarrow> ((r, w1), Inl e)
                    | (w1, Inr socket) \<Rightarrow>
                        if socket = 0 then ((r, w1), Inr ())
                        else
                          (case net_connect Z held zmqURI socket (r, w1) of
                             ((r2, w2), True) \<Rightarrow> ((r2\<lparr>nr_updated := True\<rparr>, w2), Inr ())
                           | ((r2, w2), False) \<Rightarrow> ((r2, release Z held r2 socket w2), Inr ()))))"

definition instanceRemoved ::
  "'e zmq \<Rightarrow> (sock \<Rightarrow> bool) \<Rightarrow> string \<Rightarrow> 'e net_state \<Rightarrow> ('e net_state, unit) outcome" where
  "instanceRemoved Z held instance st =
     (case zmqURI_of_instance instance of
        Inl e \<Rightarrow> (st, Inl e)
      | Inr zmqURI \<Rightarrow>
          (case net_disconnect Z held zmqURI st of
             ((r, w), True) \<Rightarrow> ((r\<lparr>nr_updated := True\<rparr>, w), Inr ())
           | (st', False) \<Rightarrow> (st', Inr ())))"

definition on_browse_event ::
  "'e zmq \<Rightarrow> 'e servus \<Rightarrow> (sock \<Rightarrow> bool) \<Rightarrow> 'e create_socket \<Rightarrow> browse_event \<Rightarrow>
   'e net_state \<Rightarrow> ('e net_state, unit) outcome" where
  "on_browse_event Z S held createSocket ev st =
     (case ev of
        Instance_added i \<Rightarrow> instanceAdded Z S held createSocket i st
      | Instance_removed i \<Rightarrow> instanceRemoved Z held i st)"

definition net_update ::
  "'e zmq \<Rightarrow> 'e servus \<Rightarrow> (sock \<Rightarrow> bool) \<Rightarrow> 'e create_socket \<Rightarrow>
   'e net_state \<Rightarrow> ('e net_state, bool) outcome" where
  "net_update Z S held createSocket st =
     (let (r, w) = st in
      if \<not> sv_is_browsing S (nr_servus r) (env w) then (st, Inr False)
      else
        let (e, events) = sv_browse S (nr_servus r) (env w)
        in and_then
             (for_each (on_browse_event Z S held createSocket) events
                (r\<lparr>nr_updated := False\<rparr>, w\<lparr>env := e\<rparr>))
             (\<lambda>_ st'. (st', Inr (nr_updated (fst st')))))"

definition net_addConnection ::
  "'e zmq \<Rightarrow> (sock \<Rightarrow> bool) \<Rightarrow> 'e create_socket \<Rightarrow> string \<Rightarrow>
   'e net_state \<Rightarrow> ('e net_state, bool) outcome" where
  "net_addConnection Z held createSocket zmqURI st =
     (let (r, w) = st in
      case createSocket u128_zero w of
        (w1, Inl e) \<Rightarrow> ((r, w1), Inl e)
      | (w1, Inr socket) \<Rightarrow>
          if socket = 0 then ((r, w1), Inr True)
          else
            (case net_connect Z held zmqURI socket (r, w1) of
               (st2, True) \<Rightarrow> (st2, Inr True)
             | ((r2, w2), False) \<Rightarrow> ((r2, release Z held r2 socket w2), Inr False)))"

definition net_addSockets :: "net_receiver \<Rightarrow> sock list \<Rightarrow> sock list" where
  "net_addSockets r entries = entries @ nr_entries r"

section \<open>Zeroconf addresses\<close>

text \<open>
  A sender announces its \<^verbatim>\<open>getAddress()\<close> as its instance name; the address a receiver rebuilds
  from it is the one a URI of that host and port has.
\<close>

lemma zmqURI_of_getAddress:
  assumes "CHR '':'' \<notin> set (uri_host (sn_uri sn))"
  shows "zmqURI_of_instance (getAddress sn) =
    Inr (buildZmqAddress DEFAULT_SCHEMA (uri_host (sn_uri sn)) (uri_port (sn_uri sn)))"
proof -
  let ?h = "uri_host (sn_uri sn)" and ?p = "uri_port (sn_uri sn)"
  have a: "getAddress sn = ?h @ CHR '':'' # port_text ?p"
    by (simp add: getAddress_def port_text_def)
  have pos: "find_char CHR '':'' (?h @ CHR '':'' # port_text ?p) = Some (length ?h)"
    using assms by (rule find_char_append_notin)
  show ?thesis
    unfolding a zmqURI_of_instance_def pos
    by (simp add: substr_to_def substr_after_def stoi_port_text)
qed

section \<open>Effects of the operations on the map and the poll list\<close>

lemma remove_if_length [simp]: "length (remove_if P xs) = length xs"
proof -
  have "length (filter (\<lambda>x. \<not> P x) xs) \<le> length xs" by (rule length_filter_le)
  then show ?thesis by (simp add: remove_if_def Let_def)
qed

lemma remove_if_keeps: "x \<in> set xs \<Longrightarrow> \<not> P x \<Longrightarrow> x \<in> set (remove_if P xs)"
  by (simp add: remove_if_def Let_def)

lemma remove_if_all: "\<forall>x \<in> set xs. P x \<Longrightarrow> remove_if P xs = xs"
  by (simp add: remove_if_def filter_False)

lemma remove_if_last:
  "s \<notin> set es \<Longrightarrow> remove_if (\<lambda>c. c = s) (es @ [s]) = es @ [s]"
proof -
  assume "s \<notin> set es"
  then have "filter (\<lambda>x. x \<noteq> s) es = es" by (auto simp: filter_id_conv)
  then show ?thesis by (simp add: remove_if_def Let_def)
qed

lemma trace_release:
  "trace (release Z held r s w) =
     trace w @ (if held s \<or> s \<in> sockets_of r then [] else [Call_close s])"
  by (simp add: release_def)

lemma net_connect_False:
  "net_connect Z held u s (r, w) = ((r', w'), False) \<Longrightarrow>
   r' = r \<and> trace w' = trace w @ [Call_connect s u False]"
  by (auto simp: net_connect_def Let_def dest: trace_callsD split: prod.splits if_splits option.splits)

lemma net_connect_True:
  assumes "net_connect Z held u s (r, w) = ((r', w'), True)"
  shows "nr_sockets r' = smap_put (<) u s (nr_sockets r)"
    and "nr_entries r' = nr_entries r @ [s]"
    and "nr_session r' = nr_session r" "nr_servus r' = nr_servus r"
    and "\<exists>cs. trace w' = trace w @ Call_connect s u True # map Call_close cs \<and>
           set cs \<inter> sockets_of r' = {}"
  using assms
  by (auto simp: net_connect_def Let_def release_def dest!: trace_callsD
      split: prod.splits if_splits option.splits
      intro: exI [of _ "[]"] exI [of _ "[x]" for x])

lemma net_disconnect_False:
  "net_disconnect Z held u (r, w) = (st', False) \<Longrightarrow>
   st' = (r, w) \<and> u \<notin> connected r"
  by (auto simp: net_disconnect_def connected_def Let_def map_of_eq_None_iff
      split: option.splits prod.splits)

lemma net_disconnect_True:
  assumes "net_disconnect Z held u (r, w) = ((r', w'), True)"
  obtains s ok where "map_of (nr_sockets r) u = Some s"
    and "nr_sockets r' = smap_erase (<) u (nr_sockets r)"
    and "nr_entries r' = remove_if (\<lambda>c. c = s) (nr_entries r)"
    and "nr_session r' = nr_session r" "nr_servus r' = nr_servus r"
    and "trace w' = trace w @ Call_disconnect s u ok #
           (if held s \<or> s \<in> sockets_of r' then [] else [Call_close s])"
  using assms
  by (auto simp: net_disconnect_def Let_def release_def dest!: trace_callsD
      split: prod.splits option.splits if_splits)

lemmas net_steps = net_connect_False net_connect_True net_disconnect_False

text \<open>The poll list never shrinks.\<close>

lemma net_disconnect_entries_length:
  "net_disconnect Z held u (r, w) = ((r', w'), b) \<Longrightarrow>
   length (nr_entries r') = length (nr_entries r)"
  by (cases b) (auto dest: net_disconnect_False elim!: net_disconnect_True)

section \<open>The socket factory\<close>

definition all_good :: "(trace \<Rightarrow> sock \<Rightarrow> bool) \<Rightarrow> 'e net_state \<Rightarrow> bool" where
  "all_good good st \<longleftrightarrow> net_ok (fst st) \<and> (\<forall>s \<in> sockets_of (fst st). good (trace (snd st)) s)"

definition distinct_sockets :: "'e net_state \<Rightarrow> bool" where
  "distinct_sockets st \<longleftrightarrow> distinct (map snd (nr_sockets (fst st)))"

lemma all_good_updated [simp]:
  "all_good good (r\<lparr>nr_updated := b\<rparr>, w) = all_good good (r, w)"
  by (simp add: all_good_def net_ok_def sockets_of_def)

lemma distinct_sockets_updated [simp]:
  "distinct_sockets (r\<lparr>nr_updated := b\<rparr>, w) = distinct_sockets (r, w)"
  by (simp add: distinct_sockets_def)

lemma distinct_put:
  "distinct (map snd m) \<Longrightarrow> v \<notin> snd ` set m \<Longrightarrow> distinct (map snd (smap_put lt k v m))"
proof (induction m)
  case (Cons x m)
  obtain a b where x: "x = (a, b)" by (cases x)
  have "b \<notin> snd ` set (smap_put lt k v m)"
    using Cons.prems x by (force dest: smap_put_mem)
  with Cons x show ?case by auto
qed simp

lemma distinct_erase:
  "distinct (map snd m) \<Longrightarrow> distinct (map snd (smap_erase lt k m))"
proof (induction m)
  case (Cons x m)
  obtain a b where x: "x = (a, b)" by (cases x)
  have "b \<notin> snd ` set (smap_erase lt k m)"
    using Cons.prems x set_smap_erase [of lt k m] by force
  with Cons x show ?case by auto
qed simp

text \<open>
  A relation between the trace before and the trace after that every event of the base class and
  of the factory respects is respected by every operation.
\<close>

locale trace_relation =
  fixes createSocket :: "'e create_socket"
    and held :: "sock \<Rightarrow> bool"
    and R :: "trace \<Rightarrow> trace \<Rightarrow> bool"
  assumes R_refl: "R t t"
    and R_trans: "R t u \<Longrightarrow> R u v \<Longrightarrow> R t v"
    and R_connected: "R t (t @ [Call_connect s a ok])"
    and R_disconnected: "R t (t @ [Call_disconnect s a ok])"
    and R_closed: "\<not> held s \<Longrightarrow> R t (t @ [Call_close s])"
    and R_created: "createSocket i w = (w', x) \<Longrightarrow> R (trace w) (trace w')"
begin

lemma R_release: "R t (trace w) \<Longrightarrow> R t (trace (release Z held r s w))"
  by (auto simp: trace_release intro: R_closed R_trans)

lemma R_connect:
  assumes "net_connect Z held u s (r, w) = ((r', w'), b)"
  shows "R (trace w) (trace w')"
proof -
  obtain w1 ok where 1: "z_connect Z s u w = (w1, ok)" by (metis prod.exhaust)
  then have "R (trace w) (trace w1)" using trace_callsD(3) [OF 1] R_connected by simp
  with assms 1 show ?thesis
    by (auto simp: net_connect_def Let_def intro: R_release split: if_splits option.splits)
qed

lemma R_disconnect:
  assumes "net_disconnect Z held u (r, w) = ((r', w'), b)"
  shows "R (trace w) (trace w')"
proof (cases "map_of (nr_sockets r) u")
  case None
  with assms R_refl show ?thesis by (simp add: net_disconnect_def)
next
  case (Some s)
  obtain w1 ok where 1: "z_disconnect Z s u w = (w1, ok)" by (metis prod.exhaust)
  then have "R (trace w) (trace w1)" using trace_callsD(4) [OF 1] R_disconnected by simp
  with assms Some 1 show ?thesis
    by (auto simp: net_disconnect_def Let_def intro: R_release)
qed

lemma R_addConnection:
  assumes "net_addConnection Z held createSocket u (r, w) = ((r', w'), x)"
  shows "R (trace w) (trace w')"
  using assms
  by (auto simp: net_addConnection_def split: prod.splits sum.splits if_splits bool.splits
      dest!: R_created R_connect intro!: R_release intro: R_trans)

lemma R_instanceAdded:
  assumes "instanceAdded Z S held createSocket i (r, w) = ((r', w'), x)"
  shows "R (trace w) (trace w')"
  using assms
  by (auto simp: instanceAdded_def Let_def split: prod.splits sum.splits if_splits bool.splits
      dest!: R_created R_connect intro!: R_release R_refl intro: R_trans)

lemma R_event:
  assumes "on_browse_event Z S held createSocket ev (r, w) = ((r', w'), x)"
  shows "R (trace w) (trace w')"
  using assms
  by (cases ev)
    (auto simp: on_browse_event_def instanceRemoved_def dest: R_instanceAdded R_disconnect
      intro: R_refl split: prod.splits sum.splits bool.splits)

lemma R_events:
  assumes "for_each (on_browse_event Z S held createSocket) evs st = (st', x)"
  shows "R (trace (snd st)) (trace (snd st'))"
proof -
  have "R (trace (snd st)) (trace (snd (fst (for_each
      (on_browse_event Z S held createSocket) evs st))))"
  proof (rule for_each_invariant [where P = "\<lambda>s. R (trace (snd st)) (trace (snd s))"])
    fix ev s s' y
    assume "R (trace (snd st)) (trace (snd s))"
      and "on_browse_event Z S held createSocket ev s = (s', y)"
    then show "R (trace (snd st)) (trace (snd s'))"
      using R_event [of Z S ev "fst s" "snd s" "fst s'" "snd s'" y] by (auto intro: R_trans)
  qed (rule R_refl)
  with assms show ?thesis by simp
qed

lemma R_update:
  assumes "net_update Z S held createSocket st = (st', x)"
  shows "R (trace (snd st)) (trace (snd st'))"
  using assms
  by (auto simp: net_update_def and_then_def intro: R_refl split: if_splits prod.splits sum.splits
      dest!: R_events)

end

text \<open>
  What a derived class promises about the sockets it creates: they are good, in a sense of its
  own that is read off the trace; creating another socket keeps good sockets good; and
  connecting, disconnecting and closing other sockets do not change that.
\<close>

locale socket_factory =
  fixes createSocket :: "'e create_socket"
    and held :: "sock \<Rightarrow> bool"
    and good :: "trace \<Rightarrow> sock \<Rightarrow> bool"
  assumes created: "createSocket i w = (w', Inr s) \<Longrightarrow> s \<noteq> 0 \<Longrightarrow> good (trace w') s"
    and keeps: "createSocket i w = (w', Inr s') \<Longrightarrow> good (trace w) s \<Longrightarrow> good (trace w') s"
    and extends: "createSocket i w = (w', r) \<Longrightarrow> prefix (trace w) (trace w')"
    and frame_connect: "good t s \<Longrightarrow> good (t @ [Call_connect s' a ok]) s"
    and frame_disconnect: "good t s \<Longrightarrow> good (t @ [Call_disconnect s' a ok]) s"
    and frame_close: "good t s \<Longrightarrow> s \<noteq> s' \<Longrightarrow> good (t @ [Call_close s']) s"
begin

lemma good_closes:
  "good t s \<Longrightarrow> s \<notin> set cs \<Longrightarrow> good (t @ map Call_close cs) s"
proof (induction cs arbitrary: t)
  case (Cons c cs)
  then have "good (t @ [Call_close c]) s" by (simp add: frame_close)
  with Cons show ?case by fastforce
qed simp

lemma all_good_connect:
  assumes "all_good good (r, w)" and "good (trace w) s"
    and "net_connect Z held u s (r, w) = ((r', w'), b)"
  shows "all_good good (r', w')"
proof (cases b)
  case True
  with assms(3) have "net_connect Z held u s (r, w) = ((r', w'), True)" by simp
  note step = net_connect_True [OF this]
  from step(5) obtain cs where tr: "trace w' = trace w @ Call_connect s u True # map Call_close cs"
    and cs: "set cs \<inter> sockets_of r' = {}" by blast
  have "good (trace w') t" if t: "t \<in> sockets_of r'" for t
  proof -
    have "t = s \<or> t \<in> sockets_of r"
      using t step(1) by (force simp: sockets_of_def dest: smap_put_mem)
    then have "good (trace w @ [Call_connect s u True]) t"
      using assms(1,2) frame_connect by (auto simp: all_good_def)
    moreover have "t \<notin> set cs" using t cs by blast
    ultimately have "good ((trace w @ [Call_connect s u True]) @ map Call_close cs) t"
      by (rule good_closes)
    then show ?thesis by (simp add: tr)
  qed
  moreover have "net_ok r'"
    using assms(1) step(1) by (simp add: all_good_def net_ok_def asc.put_ok)
  ultimately show ?thesis by (simp add: all_good_def)
next
  case False
  with assms(3) have "r' = r" and "trace w' = trace w @ [Call_connect s u False]"
    by (auto dest: net_connect_False)
  with assms(1) frame_connect show ?thesis by (simp add: all_good_def)
qed

lemma all_good_release:
  "all_good good (r, w) \<Longrightarrow> all_good good (r, release Z held r s w)"
  by (auto simp: all_good_def trace_release intro: frame_close)

lemma all_good_disconnect:
  assumes "all_good good (r, w)" and "net_disconnect Z held u (r, w) = ((r', w'), b)"
  shows "all_good good (r', w')"
proof (cases b)
  case True
  with assms(2) have "net_disconnect Z held u (r, w) = ((r', w'), True)" by simp
  then show ?thesis
  proof (rule net_disconnect_True)
    fix s ok
    assume sub: "nr_sockets r' = smap_erase (<) u (nr_sockets r)"
      and tr: "trace w' = trace w @ Call_disconnect s u ok #
        (if held s \<or> s \<in> sockets_of r' then [] else [Call_close s])"
    have "good (trace w') t" if t: "t \<in> sockets_of r'" for t
    proof -
      have "t \<in> sockets_of r"
        using t sub set_smap_erase [of "(<)" u "nr_sockets r"] by (force simp: sockets_of_def)
      with assms(1) have "good (trace w @ [Call_disconnect s u ok]) t"
        by (simp add: all_good_def frame_disconnect)
      with t show ?thesis
        using frame_close [of "trace w @ [Call_disconnect s u ok]" t s] by (auto simp: tr)
    qed
    moreover have "net_ok r'"
      using assms(1) sub by (simp add: all_good_def net_ok_def asc.erase_ok)
    ultimately show ?thesis by (simp add: all_good_def)
  qed
next
  case False
  with assms show ?thesis by (auto dest: net_disconnect_False)
qed

lemma all_good_created:
  assumes "all_good good (r, w)" and "createSocket i w = (w', Inr s)"
  shows "all_good good (r, w')"
  using assms keeps by (auto simp: all_good_def)

text \<open>
  The operations of the base class keep every connected socket good, as long as they return; an
  exception can only come from the derived class's factory or from a malformed instance name.
\<close>

lemma all_good_addConnection:
  assumes "all_good good (r, w)" and "net_addConnection Z held createSocket u (r, w) = (st', Inr b)"
  shows "all_good good st'"
  using assms
  by (auto simp: net_addConnection_def split: prod.splits sum.splits if_splits bool.splits
      dest: all_good_created created intro!: all_good_release
      elim!: all_good_connect [rotated 2])

lemma all_good_instanceAdded:
  assumes "all_good good (r, w)" and "instanceAdded Z S held createSocket i (r, w) = (st', Inr x)"
  shows "all_good good st'"
  using assms
  by (auto simp: instanceAdded_def Let_def split: prod.splits sum.splits if_splits bool.splits
      dest: all_good_created created intro!: all_good_release
      elim!: all_good_connect [rotated 2])

lemma all_good_instanceRemoved:
  assumes "all_good good (r, w)" and "instanceRemoved Z held i (r, w) = (st', Inr x)"
  shows "all_good good st'"
  using assms
  by (auto simp: instanceRemoved_def split: prod.splits sum.splits bool.splits
      dest: all_good_disconnect)

lemma all_good_events:
  "all_good good st \<Longrightarrow>
   for_each (on_browse_event Z S held createSocket) evs st = (st', Inr x) \<Longrightarrow> all_good good st'"
proof (induction evs arbitrary: st)
  case (Cons ev evs)
  from Cons.prems(2) obtain st1 y
    where 1: "on_browse_event Z S held createSocket ev st = (st1, Inr y)"
      and 2: "for_each (on_browse_event Z S held createSocket) evs st1 = (st', Inr x)"
    by (auto simp: and_then_Inr_iff)
  from 1 Cons.prems(1) have "all_good good st1"
    by (cases st; cases ev)
      (auto simp: on_browse_event_def dest: all_good_instanceAdded all_good_instanceRemoved)
  then show ?case using 2 by (rule Cons.IH)
qed simp

lemma all_good_update:
  assumes "all_good good (r, w)" and "net_update Z S held createSocket (r, w) = (st', Inr b)"
  shows "all_good good st'"
proof -
  have start: "all_good good (r\<lparr>nr_updated := False\<rparr>, w\<lparr>env := e\<rparr>)" for e
    using assms(1) by (simp add: all_good_def net_ok_def sockets_of_def)
  show ?thesis
    using assms all_good_events [OF start]
    by (auto simp: net_update_def and_then_Inr_iff split: if_splits prod.splits)
qed

end

text \<open>In particular the trace only grows.\<close>

sublocale socket_factory \<subseteq> grows: trace_relation createSocket held prefix
  by unfold_locales (auto intro: extends prefix_order.trans)

lemma instanceAdded_cases [consumes 1, case_names unchanged tried]:
  assumes "instanceAdded Z S held createSocket i (r, w) = ((r', w'), Inr x)"
  obtains "r' = r"
  | id w1 s u r2 w2 ok where "createSocket id w = (w1, Inr s)" and "s \<noteq> 0"
      and "net_connect Z held u s (r, w1) = ((r2, w2), ok)"
      and "nr_sockets r' = nr_sockets r2"
      and "w' = (if ok then w2 else release Z held r2 s w2)"
  using assms
  by (auto simp: instanceAdded_def Let_def split: sum.splits if_splits prod.splits bool.splits)

text \<open>
  A factory whose sockets are new: when ZeroMQ hands out fresh handles, the one just created is
  none of those that were good before. Then no two addresses share a socket.
\<close>

locale fresh_factory = socket_factory +
  assumes fresh: "createSocket i w = (w', Inr s) \<Longrightarrow> s \<noteq> 0 \<Longrightarrow> fresh_trace (trace w') \<Longrightarrow>
    good (trace w) s' \<Longrightarrow> s' \<noteq> s"
begin

lemma distinct_connect:
  assumes "distinct_sockets (r, w)" and "s \<notin> sockets_of r"
    and "net_connect Z held u s (r, w) = ((r', w'), b)"
  shows "distinct_sockets (r', w')"
proof (cases b)
  case True
  with assms show ?thesis
    using net_connect_True(1) [of Z held u s r w r' w']
    by (simp add: distinct_sockets_def distinct_put sockets_of_def)
next
  case False
  with assms show ?thesis by (auto dest: net_connect_False simp: distinct_sockets_def)
qed

lemma distinct_disconnect:
  assumes "distinct_sockets (r, w)" and "net_disconnect Z held u (r, w) = ((r', w'), b)"
  shows "distinct_sockets (r', w')"
  using assms
  by (cases b) (auto simp: distinct_sockets_def distinct_erase dest: net_disconnect_False
      elim!: net_disconnect_True)

lemma created_new:
  assumes "createSocket i w = (w1, Inr s)" and "s \<noteq> 0" and "all_good good (r, w)"
    and "fresh_trace (trace w1)"
  shows "s \<notin> sockets_of r"
  using assms fresh by (fastforce simp: all_good_def)

lemma distinct_addConnection:
  assumes inv: "all_good good (r, w)" "distinct_sockets (r, w)"
    and op: "net_addConnection Z held createSocket u (r, w) = ((r', w'), Inr b)"
    and fr: "fresh_trace (trace w')"
  shows "distinct_sockets (r', w')"
proof -
  from op obtain w1 s where c: "createSocket u128_zero w = (w1, Inr s)"
    by (auto simp: net_addConnection_def split: prod.splits sum.splits)
  show ?thesis
  proof (cases "s = 0")
    case True
    with op c inv show ?thesis by (simp add: net_addConnection_def distinct_sockets_def)
  next
    case False
    obtain r2 w2 ok where k: "net_connect Z held u s (r, w1) = ((r2, w2), ok)"
      by (metis prod.exhaust)
    have "r' = r2 \<and> prefix (trace w2) (trace w')"
      using op c False k by (cases ok) (auto simp: net_addConnection_def intro: grows.R_release)
    moreover from this have "fresh_trace (trace w1)"
      using fr fresh_trace_prefix grows.R_connect [OF k] by blast
    then have "s \<notin> sockets_of r"
      using created_new c False inv(1) by blast
    then have "distinct_sockets (r2, w2)"
      using distinct_connect [OF _ _ k] inv(2) by (simp add: distinct_sockets_def)
    ultimately show ?thesis by (simp add: distinct_sockets_def)
  qed
qed

lemma distinct_instanceAdded:
  assumes inv: "all_good good (r, w)" "distinct_sockets (r, w)"
    and op: "instanceAdded Z S held createSocket i (r, w) = ((r', w'), Inr x)"
    and fr: "fresh_trace (trace w')"
  shows "distinct_sockets (r', w')"
  using op
proof (cases rule: instanceAdded_cases)
  case unchanged
  with inv show ?thesis by (simp add: distinct_sockets_def)
next
  case (tried id w1 s u r2 w2 ok)
  have p2: "prefix (trace w2) (trace w')"
    using tried(4,5) by (cases ok) (auto intro: grows.R_release)
  then have "fresh_trace (trace w1)"
    using fr fresh_trace_prefix grows.R_connect [OF tried(3)] by blast
  then have "s \<notin> sockets_of r"
    using created_new tried(1,2) inv(1) by blast
  then have "distinct_sockets (r2, w2)"
    using distinct_connect [OF _ _ tried(3)] inv(2) by (simp add: distinct_sockets_def)
  with tried(4) show ?thesis by (simp add: distinct_sockets_def)
qed

lemma distinct_instanceRemoved:
  assumes "distinct_sockets (r, w)" and "instanceRemoved Z held i (r, w) = ((r', w'), x)"
  shows "distinct_sockets (r', w')"
  using assms
  by (auto simp: instanceRemoved_def split: prod.splits sum.splits bool.splits
      dest: distinct_disconnect)

lemma distinct_events:
  "all_good good (r, w) \<Longrightarrow> distinct_sockets (r, w) \<Longrightarrow>
   for_each (on_browse_event Z S held createSocket) evs (r, w) = ((r', w'), Inr x) \<Longrightarrow>
   fresh_trace (trace w') \<Longrightarrow> distinct_sockets (r', w')"
proof (induction evs arbitrary: r w)
  case (Cons ev evs)
  from Cons.prems(3) obtain r1 w1 y
    where 1: "on_browse_event Z S held createSocket ev (r, w) = ((r1, w1), Inr y)"
      and 2: "for_each (on_browse_event Z S held createSocket) evs (r1, w1) = ((r', w'), Inr x)"
    by (auto simp: and_then_Inr_iff)
  have fr: "fresh_trace (trace w1)"
    using Cons.prems(4) grows.R_events [OF 2] by (auto intro: fresh_trace_prefix)
  have "distinct_sockets (r1, w1)"
    using 1 Cons.prems(1,2) fr
    by (cases ev) (auto simp: on_browse_event_def intro: distinct_instanceAdded
        distinct_instanceRemoved)
  moreover have "all_good good (r1, w1)"
    using 1 Cons.prems(1) by (cases ev)
      (auto simp: on_browse_event_def dest: all_good_instanceAdded all_good_instanceRemoved)
  ultimately show ?case using Cons.IH 2 Cons.prems(4) by blast
qed simp

lemma distinct_update:
  assumes inv: "all_good good (r, w)" "distinct_sockets (r, w)"
    and op: "net_update Z S held createSocket (r, w) = ((r', w'), Inr b)"
    and fr: "fresh_trace (trace w')"
  shows "distinct_sockets (r', w')"
proof -
  have start: "all_good good (r\<lparr>nr_updated := False\<rparr>, w\<lparr>env := e\<rparr>)"
    "distinct_sockets (r\<lparr>nr_updated := False\<rparr>, w\<lparr>env := e\<rparr>)" for e
    using inv by (simp_all add: all_good_def net_ok_def sockets_of_def distinct_sockets_def)
  show ?thesis
    using inv op fr distinct_events [OF start]
    by (auto simp: net_update_def and_then_Inr_iff split: if_splits prod.splits)
qed

end

section \<open>Disconnecting\<close>

text \<open>C37: when the last connection is removed, the map forgets it and its socket is closed,
  but the closed socket stays in the list that is polled:
  \<^verbatim>\<open>std::remove_if\<close> does not shorten a vector.\<close>

theorem disconnect_leaves_entry:
  assumes "net_ok r" and "map_of (nr_sockets r) u = Some s"
    and "nr_entries r = es @ [s]" and "s \<notin> set es" and "\<not> held s"
    and "s \<notin> snd ` (set (nr_sockets r) - {(u, s)})"
    and "net_disconnect Z held u (r, w) = ((r', w'), b)"
  shows "b \<and> map_of (nr_sockets r') u = None \<and> s \<in> set (nr_entries r') \<and> s \<notin> open_socks (trace w')"
proof -
  obtain w1 ok where 1: "z_disconnect Z s u w = (w1, ok)" by (metis prod.exhaust)
  have e: "remove_if (\<lambda>c. c = s) (es @ [s]) = es @ [s]" using assms(4) by (rule remove_if_last)
  have m: "set (smap_erase (<) u (nr_sockets r)) \<subseteq> set (nr_sockets r)"
    by (rule set_smap_erase)
  have n: "map_of (smap_erase (<) u (nr_sockets r)) u = None"
    using assms(1) by (simp add: net_ok_def asc.lookup_erase)
  then have "(u, s) \<notin> set (smap_erase (<) u (nr_sockets r))"
    by (metis fst_conv image_eqI map_of_eq_None_iff)
  have "s \<notin> snd ` set (smap_erase (<) u (nr_sockets r))"
  proof
    assume "s \<in> snd ` set (smap_erase (<) u (nr_sockets r))"
    then obtain x where "x \<in> set (smap_erase (<) u (nr_sockets r))" "snd x = s" by blast
    with m assms(6) \<open>(u, s) \<notin> _\<close> show False by (metis DiffI image_eqI singletonD subsetD)
  qed
  then have "net_disconnect Z held u (r, w) = ((r\<lparr>nr_entries := es @ [s],
      nr_sockets := smap_erase (<) u (nr_sockets r)\<rparr>, z_close Z s w1), True)"
    by (simp add: net_disconnect_def release_def sockets_of_def Let_def 1 e assms(2,3,5))
  with assms(7) n show ?thesis by auto
qed

theorem disconnect_leaves_entry_witness:
  "\<exists>r' w'. net_disconnect sample_zmq (\<lambda>_. False) ''a''
     (\<lparr>nr_servus = 1, nr_session = [], nr_sockets = [(''a'', 1)], nr_entries = [1], nr_updated = False\<rparr>,
      sample_world []) = ((r', w'), True) \<and> nr_sockets r' = [] \<and> 1 \<in> set (nr_entries r') \<and>
     1 \<notin> open_socks (trace w')"
proof -
  let ?r = "\<lparr>nr_servus = 1, nr_session = [], nr_sockets = [(''a'', 1)], nr_entries = [1], nr_updated = False\<rparr>"
  have "\<exists>r' w'. net_disconnect sample_zmq (\<lambda>_. False) ''a'' (?r, sample_world []) = ((r', w'), True) \<and>
      nr_sockets r' = []"
    by (simp add: net_disconnect_def Let_def)
  then obtain r' w' where d: "net_disconnect sample_zmq (\<lambda>_. False) ''a'' (?r, sample_world []) =
      ((r', w'), True)" and n: "nr_sockets r' = []" by blast
  have "1 \<in> set (nr_entries r') \<and> 1 \<notin> open_socks (trace w')"
    using disconnect_leaves_entry [OF _ _ _ _ _ _ d, of 1 "[]"] by (simp add: net_ok_def)
  with d n show ?thesis by blast
qed

end
