(* ===== verification/Subscriber.thy ===== *)
theory Subscriber
  imports Discovery
begin

text \<open>
  \<^verbatim>\<open>zeroeq/subscriber.cpp\<close>. A subscriber keeps a table of event handlers next to the connections
  of its base class; the topic filters of every connected socket follow the table. The section
  on filters states that correspondence as an invariant, and \<open>socket_factory\<close> carries it
  through the connection handling of the base class.
\<close>

section \<open>State\<close>

type_synonym 'e event_func = "bytes option \<Rightarrow> 'e \<Rightarrow> 'e \<times> (exn + unit)"

record 'e subscriber =
  sub_net :: net_receiver
  sub_events :: "(uint128, 'e event_func) smap"
  sub_self :: uint128

type_synonym 'e sub_state = "'e subscriber \<times> 'e zworld"

section \<open>Topic filters\<close>

definition set_filter ::
  "'e zmq \<Rightarrow> string \<Rightarrow> sock \<times> sock_opt \<Rightarrow> 'e zworld \<Rightarrow> ('e zworld, unit) outcome" where
  "set_filter Z what f w =
     (let (w', ok) = z_setsockopt Z (fst f) (snd f) w
      in (w', if ok then Inr () else Inl (Runtime_error (what @ z_strerror Z w'))))"

definition set_filters ::
  "'e zmq \<Rightarrow> (sock \<times> sock_opt) list \<Rightarrow> 'e zworld \<Rightarrow> ('e zworld, unit) outcome" where
  "set_filters Z fs w = for_each (set_filter Z ''Cannot update topic filter: '') fs w"

text \<open>The filter of an event is the memory image of its identifier, in the host's byte order.\<close>

definition Subscriber_createSocket ::
  "'e zmq \<Rightarrow> 'e servus \<Rightarrow> host \<Rightarrow> uint128 \<Rightarrow> (uint128, 'e event_func) smap \<Rightarrow> 'e create_socket" where
  "Subscriber_createSocket Z S h self events instance w =
     (if instance = self then (w, Inr 0)
      else
        let (w1, s) = z_socket Z ZMQ_SUB w;
            (w2, _) = z_setsockopt Z s (ZMQ_RCVHWM 0) w1
        in case and_then
                  (set_filter Z ''Cannot update meerkat filter: ''
                     (s, ZMQ_SUBSCRIBE (mem128 h (MEERKAT S))) w2)
                  (\<lambda>_. set_filters Z (map (\<lambda>(k, _). (s, ZMQ_SUBSCRIBE (mem128 h k))) events)) of
             (w3, Inl e) \<Rightarrow> (z_close Z s w3, Inl e)
           | (w3, Inr _) \<Rightarrow> (w3, Inr s))"

definition subscribe_sockets ::
  "'e zmq \<Rightarrow> host \<Rightarrow> uint128 \<Rightarrow> 'e sub_state \<Rightarrow> ('e sub_state, unit) outcome" where
  "subscribe_sockets Z h event st =
     (let (sub, w) = st;
          (w1, r) = set_filters Z (map (\<lambda>(_, s). (s, ZMQ_SUBSCRIBE (mem128 h event)))
                                     (nr_sockets (sub_net sub))) w
      in ((sub, w1), r))"

definition unsubscribe_sockets ::
  "'e zmq \<Rightarrow> host \<Rightarrow> uint128 \<Rightarrow> 'e sub_state \<Rightarrow> ('e sub_state, unit) outcome" where
  "unsubscribe_sockets Z h event st =
     (let (sub, w) = st;
          (w1, r) = set_filters Z (map (\<lambda>(_, s). (s, ZMQ_UNSUBSCRIBE (mem128 h event)))
                                     (nr_sockets (sub_net sub))) w
      in ((sub, w1), r))"

section \<open>Subscribing\<close>

definition subscribe ::
  "'e zmq \<Rightarrow> host \<Rightarrow> uint128 \<Rightarrow> 'e event_func \<Rightarrow> 'e sub_state \<Rightarrow> ('e sub_state, bool) outcome" where
  "subscribe Z h event func st =
     (if map_of (sub_events (fst st)) event \<noteq> None then (st, Inr False)
      else
        and_then (subscribe_sockets Z h event st)
          (\<lambda>_ (sub, w). ((sub\<lparr>sub_events := smap_put (<) event func (sub_events sub)\<rparr>, w),
                         Inr True)))"

definition subscribe_event ::
  "'e zmq \<Rightarrow> host \<Rightarrow> uint128 \<Rightarrow> ('e \<Rightarrow> 'e \<times> (exn + unit)) \<Rightarrow> 'e sub_state \<Rightarrow>
   ('e sub_state, bool) outcome" where
  "subscribe_event Z h event func st = subscribe Z h event (\<lambda>_. func) st"

text \<open>A serializable object is its type identifier and its \<open>fromBinary\<close>, whose result is dropped.\<close>

definition subscribe_object ::
  "'e zmq \<Rightarrow> host \<Rightarrow> uint128 \<times> (bytes option \<Rightarrow> 'e \<Rightarrow> 'e \<times> (exn + bool)) \<Rightarrow> 'e sub_state \<Rightarrow>
   ('e sub_state, bool) outcome" where
  "subscribe_object Z h obj st =
     (case obj of (typeId, fromBinary) \<Rightarrow>
        subscribe Z h typeId (\<lambda>d e. apsnd (map_sum id (\<lambda>_. ())) (fromBinary d e)) st)"

definition unsubscribe ::
  "'e zmq \<Rightarrow> host \<Rightarrow> uint128 \<Rightarrow> 'e sub_state \<Rightarrow> ('e sub_state, bool) outcome" where
  "unsubscribe Z h event st =
     (let (sub, w) = st in
      if map_of (sub_events sub) event = None then (st, Inr False)
      else
        and_then
          (unsubscribe_sockets Z h event
             (sub\<lparr>sub_events := smap_erase (<) event (sub_events sub)\<rparr>, w))
          (\<lambda>_ st'. (st', Inr True)))"

section \<open>Receiving an event\<close>

text \<open>
  The results of \<^verbatim>\<open>zmq_msg_recv\<close> are not checked: a failed receive leaves an empty message, and
  copying sixteen bytes out of a shorter one is undefined.
\<close>

definition Subscriber_process ::
  "'e zmq \<Rightarrow> 'e servus \<Rightarrow> host \<Rightarrow> sock \<Rightarrow> 'e sub_state \<Rightarrow> ('e sub_state, bool) outcome" where
  "Subscriber_process Z S h s st =
     (let (sub, w) = st;
          (w1, msg) = z_recv Z s False w;
          (data, payload) = (case msg of None \<Rightarrow> ([], False) | Some f \<Rightarrow> f)
      in if length data < 16
         then ((sub, w1), Inl (Undefined ''memcpy past the end of the message''))
         else
           let type = from_wire h data;
               (w2, body) =
                 (if payload
                  then let (w2, msg) = z_recv Z s False w1
                       in (w2, Some (case msg of None \<Rightarrow> [] | Some f \<Rightarrow> fst f))
                  else (w1, None))
           in case map_of (sub_events sub) type of
                None \<Rightarrow> ((sub, w2),
                  Inl (Runtime_error (''Got unsubscribed event '' @ sv_show_uint128 S type)))
              | Some f \<Rightarrow>
                  (case run_callback (On_event type) f body w2 of
                     (w3, Inl e) \<Rightarrow> ((sub, w3), Inl e)
                   | (w3, Inr _) \<Rightarrow> ((sub, w3), Inr True)))"

section \<open>Connections and construction\<close>

definition on_net ::
  "('e net_state \<Rightarrow> ('e net_state, 'a) outcome) \<Rightarrow> 'e sub_state \<Rightarrow> ('e sub_state, 'a) outcome" where
  "on_net f st =
     (let (sub, w) = st; ((r, w'), x) = f (sub_net sub, w) in ((sub\<lparr>sub_net := r\<rparr>, w'), x))"

definition Subscriber_update ::
  "'e zmq \<Rightarrow> 'e servus \<Rightarrow> host \<Rightarrow> 'e sub_state \<Rightarrow> ('e sub_state, bool) outcome" where
  "Subscriber_update Z S h st =
     on_net (net_update Z S (\<lambda>_. False)
               (Subscriber_createSocket Z S h (sub_self (fst st)) (sub_events (fst st)))) st"

definition Subscriber_addConnection ::
  "'e zmq \<Rightarrow> 'e servus \<Rightarrow> host \<Rightarrow> string \<Rightarrow> 'e sub_state \<Rightarrow> ('e sub_state, bool) outcome" where
  "Subscriber_addConnection Z S h uri st =
     on_net (net_addConnection Z (\<lambda>_. False)
               (Subscriber_createSocket Z S h (sub_self (fst st)) (sub_events (fst st))) uri) st"

definition Subscriber_addSockets :: "'e subscriber \<Rightarrow> sock list \<Rightarrow> sock list" where
  "Subscriber_addSockets sub entries = net_addSockets (sub_net sub) entries"

definition Subscriber_destroy :: "'e zmq \<Rightarrow> 'e servus \<Rightarrow> 'e sub_state \<Rightarrow> 'e zworld" where
  "Subscriber_destroy Z S st = Receiver_destroy Z S (\<lambda>_. False) (sub_net (fst st), snd st)"

text \<open>When the body of a constructor throws, the base class is destroyed again.\<close>

definition constructed ::
  "('s \<times> 'w \<Rightarrow> 'w) \<Rightarrow> ('s \<times> 'w, 'a) outcome \<Rightarrow> ('w, 's) outcome" where
  "constructed destroy r =
     (case r of (st, Inl e) \<Rightarrow> (destroy st, Inl e) | ((s, w), Inr _) \<Rightarrow> (w, Inr s))"

lemma constructed_Inr_iff:
  "constructed d r = (w, Inr s) \<longleftrightarrow> (\<exists>x. r = ((s, w), Inr x))"
  by (auto simp: constructed_def split: prod.splits sum.splits)

definition Subscriber_session ::
  "'e zmq \<Rightarrow> 'e servus \<Rightarrow> os \<Rightarrow> host \<Rightarrow> string \<Rightarrow> 'e zworld \<Rightarrow>
   ('e zworld, 'e subscriber) outcome" where
  "Subscriber_session Z S os h session w =
     and_then
       (Receiver_browse S PUBLISHER_SERVICE
          (if session = DEFAULT_SESSION then getDefaultPubSession os else session) w)
       (\<lambda>r w1. constructed (Subscriber_destroy Z S)
          (Subscriber_update Z S h (\<lparr>sub_net = r, sub_events = [], sub_self = sv_uuid S\<rparr>, w1)))"

definition Subscriber_connect_uri ::
  "'e zmq \<Rightarrow> 'e servus \<Rightarrow> host \<Rightarrow> (servus_uri \<Rightarrow> string) \<Rightarrow> servus_uri \<Rightarrow> 'e sub_state \<Rightarrow>
   ('e sub_state, unit) outcome" where
  "Subscriber_connect_uri Z S h print uri st =
     (if \<not> isFullyQualified uri
      then (st, Inl (Runtime_error ''Non-fully qualified URI used for subscriber''))
      else
        let zmqURI = buildZmqURI print uri
        in and_then (Subscriber_addConnection Z S h zmqURI st)
             (\<lambda>ok st1. (st1,
                if ok then Inr ()
                else Inl (Runtime_error
                  (''Cannot connect subscriber to '' @ zmqURI @ '': '' @ z_strerror Z (snd st1))))))"

definition Subscriber_uris ::
  "'e zmq \<Rightarrow> 'e servus \<Rightarrow> host \<Rightarrow> (servus_uri \<Rightarrow> string) \<Rightarrow> servus_uri list \<Rightarrow> 'e zworld \<Rightarrow>
   ('e zworld, 'e subscriber) outcome" where
  "Subscriber_uris Z S h print uris w =
     (let (w1, r) = Receiver_plain S PUBLISHER_SERVICE w
      in constructed (Subscriber_destroy Z S)
           (for_each (Subscriber_connect_uri Z S h print) uris
              (\<lparr>sub_net = r, sub_events = [], sub_self = sv_uuid S\<rparr>, w1)))"

definition Subscriber_default where
  "Subscriber_default Z S os h w = Subscriber_session Z S os h DEFAULT_SESSION w"

section \<open>Filters follow the table\<close>

lemma set_filter_ok:
  "set_filter Z what f w = (w', Inr x) \<Longrightarrow>
   trace w' = trace w @ [Call_setsockopt (fst f) (snd f) True]"
  by (auto simp: set_filter_def Let_def dest!: trace_callsD split: prod.splits if_splits)

lemma set_filters_ok:
  "set_filters Z fs w = (w', Inr x) \<Longrightarrow>
   trace w' = trace w @ map (\<lambda>f. Call_setsockopt (fst f) (snd f) True) fs"
proof (induction fs arbitrary: w)
  case (Cons f fs)
  then obtain w1 y where 1: "set_filter Z ''Cannot update topic filter: '' f w = (w1, Inr y)"
    and "set_filters Z fs w1 = (w', Inr x)"
    by (auto simp: set_filters_def and_then_Inr_iff)
  with Cons.IH set_filter_ok [OF 1] show ?case by simp
qed (simp add: set_filters_def)

lemma set_filter_prefix: "set_filter Z what f w = (w', x) \<Longrightarrow> prefix (trace w) (trace w')"
  by (auto simp: set_filter_def Let_def dest!: trace_callsD split: prod.splits)

lemma set_filters_prefix: "set_filters Z fs w = (w', x) \<Longrightarrow> prefix (trace w) (trace w')"
  using for_each_invariant [of fs "\<lambda>w1. prefix (trace w) (trace w1)"
      "set_filter Z ''Cannot update topic filter: ''" w]
  by (auto simp: set_filters_def dest!: set_filter_prefix intro: prefix_order.trans)

text \<open>Effects on the subscriptions and open sockets.\<close>

lemma topics_set [simp]:
  "topics s (tr @ map (\<lambda>f. Call_setsockopt (fst f) (snd f) True) (map (\<lambda>b. (s', ZMQ_SUBSCRIBE b)) bs))
   = topics s tr + (if s' = s then mset bs else {#})"
  by (induction bs rule: rev_induct) (auto simp flip: append_assoc)

lemma topics_subscribe_all:
  "distinct ss \<Longrightarrow>
   topics s (tr @ map (\<lambda>f. Call_setsockopt (fst f) (snd f) True) (map (\<lambda>s'. (s', ZMQ_SUBSCRIBE b)) ss))
   = topics s tr + (if s \<in> set ss then {#b#} else {#})"
  by (induction ss rule: rev_induct) (auto simp flip: append_assoc)

lemma topics_unsubscribe_all:
  "distinct ss \<Longrightarrow>
   topics s (tr @ map (\<lambda>f. Call_setsockopt (fst f) (snd f) True) (map (\<lambda>s'. (s', ZMQ_UNSUBSCRIBE b)) ss))
   = topics s tr - (if s \<in> set ss then {#b#} else {#})"
  by (induction ss rule: rev_induct) (auto simp flip: append_assoc)

lemma open_socks_setsockopt [simp]:
  "open_socks (tr @ map (\<lambda>f. Call_setsockopt (f1 f) (f2 f) (f3 f)) fs) = open_socks tr"
  by (induction fs rule: rev_induct) (simp_all flip: append_assoc)

lemma trace_two_calls [simp]:
  "topics s (tr @ [a, b]) = topic_step s (topic_step s (topics s tr) a) b"
  "open_socks (tr @ [a, b]) = open_step (open_step (open_socks tr) a) b"
  by (simp_all add: topics_append open_socks_append)

text \<open>
  The subscriptions a socket has to have for a table \<open>events\<close>: the Meerkat topic, which tells a
  monitor at the other end that someone is here, and every event once.
\<close>

definition filters_for :: "'e servus \<Rightarrow> host \<Rightarrow> (uint128, 'v) smap \<Rightarrow> bytes multiset" where
  "filters_for S h events = mset (map (mem128 h) (MEERKAT S # map fst events))"

definition filtered :: "'e servus \<Rightarrow> host \<Rightarrow> (uint128, 'v) smap \<Rightarrow> trace \<Rightarrow> sock \<Rightarrow> bool" where
  "filtered S h events tr s \<longleftrightarrow> s \<in> open_socks tr \<and> topics s tr = filters_for S h events"

lemma zero_not_open: "0 \<notin> open_socks tr"
proof (induction tr rule: rev_induct)
  case (snoc c tr)
  then show ?case by (cases c) auto
qed simp

lemma createSocket_ok:
  assumes "Subscriber_createSocket Z S h self events i w = (w', Inr s)"
  obtains "i = self" "s = 0" "w' = w"
  | ok where "i \<noteq> self" and "trace w' = ((trace w @ [Call_socket ZMQ_SUB s,
        Call_setsockopt s (ZMQ_RCVHWM 0) ok]) @
        [Call_setsockopt s (ZMQ_SUBSCRIBE (mem128 h (MEERKAT S))) True]) @
        map (\<lambda>f. Call_setsockopt (fst f) (snd f) True)
          (map (\<lambda>b. (s, ZMQ_SUBSCRIBE b)) (map (mem128 h) (map fst events)))"
proof (cases "i = self")
  case True
  with assms that(1) show ?thesis by (simp add: Subscriber_createSocket_def)
next
  case False
  obtain w1 s1 where 1: "z_socket Z ZMQ_SUB w = (w1, s1)" by (metis prod.exhaust)
  obtain w2 ok where 2: "z_setsockopt Z s1 (ZMQ_RCVHWM 0) w1 = (w2, ok)" by (metis prod.exhaust)
  from assms False 1 2 have "s1 = s" and "and_then
      (set_filter Z ''Cannot update meerkat filter: '' (s, ZMQ_SUBSCRIBE (mem128 h (MEERKAT S))) w2)
      (\<lambda>_. set_filters Z (map (\<lambda>(k, _). (s, ZMQ_SUBSCRIBE (mem128 h k))) events)) = (w', Inr ())"
    by (auto simp: Subscriber_createSocket_def split: prod.splits sum.splits)
  then obtain w3 x where 3: "set_filter Z ''Cannot update meerkat filter: ''
      (s, ZMQ_SUBSCRIBE (mem128 h (MEERKAT S))) w2 = (w3, Inr x)"
    and 4: "set_filters Z (map (\<lambda>(k, _). (s, ZMQ_SUBSCRIBE (mem128 h k))) events) w3 = (w', Inr ())"
    by (auto simp: and_then_Inr_iff)
  show ?thesis
    using that(2) [OF False, of ok] \<open>s1 = s\<close> trace_callsD(1) [OF 1] trace_callsD(5) [OF 2]
      set_filter_ok [OF 3] set_filters_ok [OF 4]
    by (simp add: comp_def case_prod_unfold)
qed

lemma createSocket_prefix:
  assumes "Subscriber_createSocket Z S h self events i w = (w', x)"
  shows "prefix (trace w) (trace w')"
proof -
  obtain w1 s where 1: "z_socket Z ZMQ_SUB w = (w1, s)" by (metis prod.exhaust)
  obtain w2 ok where 2: "z_setsockopt Z s (ZMQ_RCVHWM 0) w1 = (w2, ok)" by (metis prod.exhaust)
  obtain w3 y where 3: "set_filter Z ''Cannot update meerkat filter: ''
      (s, ZMQ_SUBSCRIBE (mem128 h (MEERKAT S))) w2 = (w3, y)" by (metis prod.exhaust)
  obtain w4 z where 4: "set_filters Z
      (map (\<lambda>(k, _). (s, ZMQ_SUBSCRIBE (mem128 h k))) events) w3 = (w4, z)" by (metis prod.exhaust)
  have "prefix (trace w) (trace w2)"
    using trace_callsD(1) [OF 1] trace_callsD(5) [OF 2] by simp
  note p = this set_filter_prefix [OF 3] set_filters_prefix [OF 4]
  show ?thesis
    using assms 1 2 3 4 p
    by (cases y; cases z)
      (auto simp: Subscriber_createSocket_def intro: prefix_order.trans split: if_splits)
qed


lemma filtered_created:
  assumes "Subscriber_createSocket Z S h self events i w = (w', Inr s)" and "s \<noteq> 0"
  shows "filtered S h events (trace w') s"
  using assms(1)
proof (cases rule: createSocket_ok)
  case (2 ok)
  then show ?thesis
    using assms(2) by (simp add: filtered_def filters_for_def del: map_map append_assoc)
qed (use assms(2) in simp)

lemma filtered_keeps:
  assumes "Subscriber_createSocket Z S h self events i w = (w', Inr s')"
    and "filtered S h events (trace w) s"
  shows "filtered S h events (trace w') s"
  using assms(1)
proof (cases rule: createSocket_ok)
  case (2 ok)
  show ?thesis
  proof (cases "s' = s")
    case True
    then show ?thesis
      using filtered_created [OF assms(1)] assms(2) zero_not_open by (auto simp: filtered_def)
  next
    case False
    with 2 assms(2) show ?thesis
      by (simp add: filtered_def del: map_map append_assoc)
  qed
qed (use assms(2) in simp)

interpretation sub: fresh_factory
  "Subscriber_createSocket Z S h self events" "\<lambda>_. False" "filtered S h events"
  for Z :: "'e zmq" and S h self events
proof unfold_locales
  fix i w w' s s'
  assume c: "Subscriber_createSocket Z S h self events i w = (w', Inr s)" and "s \<noteq> 0"
    and fr: "fresh_trace (trace w')" and g: "filtered S h events (trace w) s'"
  from c show "s' \<noteq> s"
  proof (cases rule: createSocket_ok)
    case (2 ok)
    with fr \<open>s \<noteq> 0\<close> g show ?thesis by (auto simp: fresh_trace_append filtered_def)
  qed (use \<open>s \<noteq> 0\<close> in simp)
qed (auto simp: filtered_def dest: filtered_created filtered_keeps createSocket_prefix)

section \<open>The invariant of a subscriber\<close>

text \<open>
  Every connected socket is open and subscribed to exactly the Meerkat topic and the events of
  the table, once each, and no two connections share a socket.
\<close>

definition sub_inv :: "'e servus \<Rightarrow> host \<Rightarrow> 'e sub_state \<Rightarrow> bool" where
  "sub_inv S h st \<longleftrightarrow>
     smap_ok (<) (sub_events (fst st)) \<and>
     all_good (filtered S h (sub_events (fst st))) (sub_net (fst st), snd st) \<and>
     distinct_sockets (sub_net (fst st), snd st)"

lemma filters_for_put:
  "map_of m k = None \<Longrightarrow>
   filters_for S h (smap_put (<) k v m) = add_mset (mem128 h k) (filters_for S h m)"
proof (induction m)
  case (Cons x m)
  then show ?case
    by (cases x) (auto simp: filters_for_def split: if_splits)
qed (simp add: filters_for_def)

lemma filters_for_erase:
  assumes "smap_ok (<) m" and "map_of m k \<noteq> None"
  shows "filters_for S h (smap_erase (<) k m) = filters_for S h m - {#mem128 h k#}"
proof -
  have "map_of m k \<noteq> None \<Longrightarrow> smap_ok (<) m \<Longrightarrow>
    mset (map fst m) = add_mset k (mset (map fst (smap_erase (<) k m)))"
    by (induction m) (auto split: if_splits dest!: map_of_SomeD, fastforce+)
  then have "mset (map (mem128 h) (map fst m)) =
    add_mset (mem128 h k) (mset (map (mem128 h) (map fst (smap_erase (<) k m))))"
    using assms by (metis image_mset_add_mset mset_map)
  then show ?thesis by (simp add: filters_for_def)
qed

lemma subscribe_cases:
  assumes "subscribe Z h event func (sub, w) = (st', Inr b)"
  obtains "map_of (sub_events sub) event \<noteq> None" "\<not> b" "st' = (sub, w)"
  | w' where "map_of (sub_events sub) event = None" "b"
      "st' = (sub\<lparr>sub_events := smap_put (<) event func (sub_events sub)\<rparr>, w')"
      "trace w' = trace w @ map (\<lambda>f. Call_setsockopt (fst f) (snd f) True)
         (map (\<lambda>s. (s, ZMQ_SUBSCRIBE (mem128 h event))) (map snd (nr_sockets (sub_net sub))))"
  using assms
  by (auto simp: subscribe_def subscribe_sockets_def and_then_Inr_iff Let_def comp_def
      case_prod_unfold[symmetric] dest!: set_filters_ok split: if_splits prod.splits)

lemma sub_inv_subscribe:
  assumes inv: "sub_inv S h st" and op: "subscribe Z h event func st = (st', Inr b)"
  shows "sub_inv S h st'"
proof -
  obtain sub w where st: "st = (sub, w)" by (cases st)
  from op show ?thesis
    unfolding st
  proof (cases rule: subscribe_cases)
    case 1
    with inv st show ?thesis by simp
  next
    case (2 w')
    let ?ss = "map snd (nr_sockets (sub_net sub))"
    have d: "distinct ?ss" using inv st by (simp add: sub_inv_def distinct_sockets_def)
    have "filtered S h (smap_put (<) event func (sub_events sub)) (trace w') s"
      if s: "s \<in> sockets_of (sub_net sub)" for s
    proof -
      have "filtered S h (sub_events sub) (trace w) s"
        using inv s st by (auto simp: sub_inv_def all_good_def)
      moreover have "s \<in> set ?ss" using s by (simp add: sockets_of_def)
      ultimately show ?thesis
        using 2(1,4) topics_subscribe_all [OF d, of s "trace w" "mem128 h event"]
        by (simp add: filtered_def filters_for_put del: map_map)
    qed
    with 2 inv st show ?thesis
      by (auto simp: sub_inv_def all_good_def distinct_sockets_def asc.put_ok)
  qed
qed

lemma unsubscribe_cases:
  assumes "unsubscribe Z h event (sub, w) = (st', Inr b)"
  obtains "map_of (sub_events sub) event = None" "\<not> b" "st' = (sub, w)"
  | w' where "map_of (sub_events sub) event \<noteq> None" "b"
      "st' = (sub\<lparr>sub_events := smap_erase (<) event (sub_events sub)\<rparr>, w')"
      "trace w' = trace w @ map (\<lambda>f. Call_setsockopt (fst f) (snd f) True)
         (map (\<lambda>s. (s, ZMQ_UNSUBSCRIBE (mem128 h event))) (map snd (nr_sockets (sub_net sub))))"
  using assms
  by (auto simp: unsubscribe_def unsubscribe_sockets_def and_then_Inr_iff Let_def comp_def
      case_prod_unfold[symmetric] dest!: set_filters_ok split: if_splits prod.splits)

lemma sub_inv_unsubscribe:
  assumes inv: "sub_inv S h st" and op: "unsubscribe Z h event st = (st', Inr b)"
  shows "sub_inv S h st'"
proof -
  obtain sub w where st: "st = (sub, w)" by (cases st)
  from op show ?thesis
    unfolding st
  proof (cases rule: unsubscribe_cases)
    case 1
    with inv st show ?thesis by simp
  next
    case (2 w')
    let ?ss = "map snd (nr_sockets (sub_net sub))"
    have d: "distinct ?ss" and ok: "smap_ok (<) (sub_events sub)"
      using inv st by (simp_all add: sub_inv_def distinct_sockets_def)
    have "filtered S h (smap_erase (<) event (sub_events sub)) (trace w') s"
      if s: "s \<in> sockets_of (sub_net sub)" for s
    proof -
      have "filtered S h (sub_events sub) (trace w) s"
        using inv s st by (auto simp: sub_inv_def all_good_def)
      moreover have "s \<in> set ?ss" using s by (simp add: sockets_of_def)
      ultimately show ?thesis
        using 2(1,4) ok topics_unsubscribe_all [OF d, of s "trace w" "mem128 h event"]
        by (simp add: filtered_def filters_for_erase del: map_map)
    qed
    with 2 inv st show ?thesis
      by (auto simp: sub_inv_def all_good_def distinct_sockets_def asc.erase_ok)
  qed
qed

lemma sub_inv_update:
  assumes "sub_inv S h st" and "Subscriber_update Z S h st = (st', Inr b)"
    and "fresh_trace (trace (snd st'))"
  shows "sub_inv S h st'"
  using assms sub.all_good_update sub.distinct_update
  by (fastforce simp: sub_inv_def Subscriber_update_def on_net_def split: prod.splits)

lemma sub_inv_addConnection:
  assumes "sub_inv S h st" and "Subscriber_addConnection Z S h uri st = (st', Inr b)"
    and "fresh_trace (trace (snd st'))"
  shows "sub_inv S h st'"
  using assms sub.all_good_addConnection sub.distinct_addConnection
  by (fastforce simp: sub_inv_def Subscriber_addConnection_def on_net_def split: prod.splits)

lemma sub_inv_created:
  "smap_ok (<) (sub_events sub) \<Longrightarrow> nr_sockets (sub_net sub) = [] \<Longrightarrow> sub_inv S h (sub, w)"
  by (simp add: sub_inv_def all_good_def distinct_sockets_def net_ok_def sockets_of_def)

lemma sub_inv_session:
  assumes "Subscriber_session Z S os h session w = (w', Inr sub)" and "fresh_trace (trace w')"
  shows "sub_inv S h (sub, w')"
proof -
  let ?s = "\<lambda>r. \<lparr>sub_net = r, sub_events = [], sub_self = sv_uuid S\<rparr>"
  from assms(1) obtain r w1 st b where
    r: "Receiver_browse S PUBLISHER_SERVICE
      (if session = DEFAULT_SESSION then getDefaultPubSession os else session) w = (w1, Inr r)"
    and u: "Subscriber_update Z S h (?s r, w1) = (st, Inr b)" and st: "st = (sub, w')"
    by (auto simp: Subscriber_session_def and_then_Inr_iff constructed_Inr_iff)
  have "nr_sockets r = []"
    using r by (auto simp: Receiver_browse_def Let_def split: prod.splits if_splits)
  then have "sub_inv S h (?s r, w1)" by (intro sub_inv_created) simp_all
  from sub_inv_update [OF this u] assms(2) st show ?thesis by simp
qed

text \<open>The same for a subscriber constructed from a list of URIs.\<close>

lemma for_each_Inr_invariant:
  assumes "\<And>x st st' y. P st \<Longrightarrow> f x st = (st', Inr y) \<Longrightarrow> Q st' \<Longrightarrow> P st'"
    and "\<And>x st st' y. f x st = (st', Inr y) \<Longrightarrow> Q st' \<Longrightarrow> Q st"
  shows "P st \<Longrightarrow> for_each f xs st = (st', Inr y) \<Longrightarrow> Q st' \<Longrightarrow> P st' \<and> Q st"
proof (induction xs arbitrary: st)
  case (Cons x xs)
  from Cons.prems(2) obtain st1 z where 1: "f x st = (st1, Inr z)"
    and 2: "for_each f xs st1 = (st', Inr y)" by (auto simp: and_then_Inr_iff)
  have earlier: "for_each f ys a = (st', Inr y) \<Longrightarrow> Q a" for ys a
  proof (induction ys arbitrary: a)
    case (Cons v vs)
    then show ?case using assms(2) by (auto simp: and_then_Inr_iff)
  qed (use Cons.prems(3) in simp)
  have "P st1" using assms(1) [OF Cons.prems(1) 1 earlier [OF 2]] .
  then show ?case
    using Cons.IH [OF _ 2 Cons.prems(3)] assms(2) [OF 1] by blast
qed simp

lemma connect_uri_cases:
  "Subscriber_connect_uri Z S h print uri st = (st', Inr y) \<Longrightarrow>
   isFullyQualified uri \<and>
   Subscriber_addConnection Z S h (buildZmqURI print uri) st = (st', Inr True)"
  by (auto simp: Subscriber_connect_uri_def and_then_Inr_iff Let_def split: if_splits)

lemma addConnection_prefix:
  "Subscriber_addConnection Z S h uri st = (st', b) \<Longrightarrow> prefix (trace (snd st)) (trace (snd st'))"
  using sub.grows.R_addConnection
  by (fastforce simp: Subscriber_addConnection_def on_net_def split: prod.splits)

lemma sub_inv_uris:
  assumes "Subscriber_uris Z S h print uris w = (w', Inr sub)" and "fresh_trace (trace w')"
  shows "sub_inv S h (sub, w')"
proof -
  let ?s = "\<lambda>r. \<lparr>sub_net = r, sub_events = [], sub_self = sv_uuid S\<rparr>"
  from assms(1) obtain r w1 y where
    r: "Receiver_plain S PUBLISHER_SERVICE w = (w1, r)"
    and u: "for_each (Subscriber_connect_uri Z S h print) uris (?s r, w1) = ((sub, w'), Inr y)"
    by (auto simp: Subscriber_uris_def constructed_Inr_iff split: prod.splits)
  have "nr_sockets r = []"
    using r by (auto simp: Receiver_plain_def Let_def split: prod.splits)
  then have "sub_inv S h (?s r, w1)" by (intro sub_inv_created) simp_all
  moreover have "sub_inv S h st'"
    if "sub_inv S h st" "Subscriber_connect_uri Z S h print x st = (st', Inr y)"
      "fresh_trace (trace (snd st'))" for x st st' y
    using that sub_inv_addConnection connect_uri_cases by blast
  moreover have "fresh_trace (trace (snd st))"
    if "Subscriber_connect_uri Z S h print x st = (st', Inr y)" "fresh_trace (trace (snd st'))"
    for x st st' y
    using that connect_uri_cases addConnection_prefix fresh_trace_prefix by blast
  ultimately show ?thesis
    using for_each_Inr_invariant [where P = "sub_inv S h" and Q = "\<lambda>st. fresh_trace (trace (snd st))",
        OF _ _ _ u] assms(2)
    by (metis snd_conv)
qed

section \<open>Processing one event\<close>

text \<open>
  What \<open>process\<close> does with a message: with the handler registered for its type it runs the
  handler once, on the payload; without one it throws, and no callback runs.
\<close>

lemma process_event:
  assumes "map_of (sub_events sub) event = Some f"
    and "z_recv Z s False w = (w1, Some (to_wire h event, False))"
  shows "Subscriber_process Z S h s (sub, w) =
    (case run_callback (On_event event) f None w1 of
       (w3, Inl e) \<Rightarrow> ((sub, w3), Inl e) | (w3, Inr _) \<Rightarrow> ((sub, w3), Inr True))"
  using assms by (simp add: Subscriber_process_def)

lemma process_event_payload:
  assumes "map_of (sub_events sub) event = Some f"
    and "z_recv Z s False w = (w1, Some (to_wire h event, True))"
    and "z_recv Z s False w1 = (w2, Some (data, more_frames))"
  shows "Subscriber_process Z S h s (sub, w) =
    (case run_callback (On_event event) f (Some data) w2 of
       (w3, Inl e) \<Rightarrow> ((sub, w3), Inl e) | (w3, Inr _) \<Rightarrow> ((sub, w3), Inr True))"
  using assms by (simp add: Subscriber_process_def)

lemma process_callbacks:
  assumes "Subscriber_process Z S h s (sub, w) = ((sub', w'), x)"
  shows "sub' = sub \<and> (\<exists>cs. callbacks (trace w') = callbacks (trace w) @ cs \<and>
     (cs = [] \<or> (\<exists>event d. cs = [(On_event event, d)] \<and> map_of (sub_events sub) event \<noteq> None)))"
  using assms
  by (auto simp: Subscriber_process_def Let_def split: prod.splits if_splits option.splits sum.splits
      dest!: trace_callsD trace_run_callbackD)

section \<open>Reachable states\<close>

text \<open>A call that creates or closes a socket or sets an option of it.\<close>

fun touches :: "sock \<Rightarrow> 'k event \<Rightarrow> bool" where
  "touches s (Call_socket t s') \<longleftrightarrow> s' = s"
| "touches s (Call_close s') \<longleftrightarrow> s' = s"
| "touches s (Call_setsockopt s' opt ok) \<longleftrightarrow> s' = s"
| "touches s c \<longleftrightarrow> False"

text \<open>
  The states a subscriber gets into: it is constructed, and its operations return. An operation
  that throws because ZeroMQ refused a topic filter is not one of these steps; the filters are
  then set on some of the sockets only.
\<close>

inductive sub_reach ::
  "'e zmq \<Rightarrow> 'e servus \<Rightarrow> os \<Rightarrow> host \<Rightarrow> (servus_uri \<Rightarrow> string) \<Rightarrow> 'e sub_state \<Rightarrow> bool"
  for Z S os h print where
  session: "Subscriber_session Z S os h session w = (w', Inr sub) \<Longrightarrow>
    sub_reach Z S os h print (sub, w')"
| uris: "Subscriber_uris Z S h print us w = (w', Inr sub) \<Longrightarrow> sub_reach Z S os h print (sub, w')"
| subscribe: "sub_reach Z S os h print st \<Longrightarrow> subscribe Z h event f st = (st', Inr b) \<Longrightarrow>
    sub_reach Z S os h print st'"
| unsubscribe: "sub_reach Z S os h print st \<Longrightarrow> unsubscribe Z h event st = (st', Inr b) \<Longrightarrow>
    sub_reach Z S os h print st'"
| update: "sub_reach Z S os h print st \<Longrightarrow> Subscriber_update Z S h st = (st', Inr b) \<Longrightarrow>
    sub_reach Z S os h print st'"
| addConnection: "sub_reach Z S os h print st \<Longrightarrow>
    Subscriber_addConnection Z S h uri st = (st', Inr b) \<Longrightarrow> sub_reach Z S os h print st'"
| process: "sub_reach Z S os h print st \<Longrightarrow> Subscriber_process Z S h s st = (st', x) \<Longrightarrow>
    sub_reach Z S os h print st'"
| others: "sub_reach Z S os h print (sub, w) \<Longrightarrow> trace w' = trace w @ us \<Longrightarrow>
    \<forall>s \<in> sockets_of (sub_net sub). \<forall>c \<in> set us. \<not> touches s c \<Longrightarrow>
    sub_reach Z S os h print (sub, w')"

lemma untouched:
  "\<forall>c \<in> set us. \<not> touches s c \<Longrightarrow> topics s (tr @ us) = topics s tr"
  "\<forall>c \<in> set us. \<not> touches s c \<Longrightarrow> s \<in> open_socks tr \<Longrightarrow> s \<in> open_socks (tr @ us)"
proof (induction us rule: rev_induct)
  case (snoc c us)
  have "topic_step s T c = T" if "\<not> touches s c" for T
    using that by (cases "(s, T, c)" rule: topic_step.cases) auto
  moreover have "s \<in> A \<Longrightarrow> s \<in> open_step A c" if "\<not> touches s c" for A
    using that by (cases c) auto
  ultimately show "topics s (tr @ us @ [c]) = topics s tr"
    and "s \<in> open_socks tr \<Longrightarrow> s \<in> open_socks (tr @ us @ [c])"
    if "\<forall>c \<in> set (us @ [c]). \<not> touches s c"
    using snoc that by (simp_all flip: append_assoc)
qed simp_all

lemma process_trace:
  assumes "Subscriber_process Z S h s (sub, w) = ((sub', w'), x)"
  shows "sub' = sub" and "prefix (trace w) (trace w')"
    and "topics s' (trace w') = topics s' (trace w)" and "open_socks (trace w') = open_socks (trace w)"
  using assms
  by (auto simp: Subscriber_process_def Let_def topics_append open_socks_append
      split: prod.splits if_splits option.splits sum.splits
      dest!: trace_callsD trace_run_callbackD)

lemma sub_inv_process:
  assumes "sub_inv S h st" and "Subscriber_process Z S h s st = (st', x)"
  shows "sub_inv S h st'"
proof -
  have "Subscriber_process Z S h s (fst st, snd st) = ((fst st', snd st'), x)"
    using assms(2) by simp
  note t = process_trace [OF this]
  with assms(1) show ?thesis
    by (simp add: sub_inv_def all_good_def filtered_def distinct_sockets_def)
qed

lemma subscribe_prefix:
  "subscribe Z h event f st = (st', x) \<Longrightarrow> prefix (trace (snd st)) (trace (snd st'))"
  "unsubscribe Z h event st = (st', y) \<Longrightarrow> prefix (trace (snd st)) (trace (snd st'))"
  by (auto simp: subscribe_def unsubscribe_def subscribe_sockets_def unsubscribe_sockets_def
      and_then_def Let_def dest!: set_filters_prefix split: prod.splits sum.splits if_splits)

lemma update_prefix:
  "Subscriber_update Z S h st = (st', b) \<Longrightarrow> prefix (trace (snd st)) (trace (snd st'))"
  using sub.grows.R_update
  by (fastforce simp: Subscriber_update_def on_net_def split: prod.splits)

lemma sub_reach_inv:
  "sub_reach Z S os h print st \<Longrightarrow> fresh_trace (trace (snd st)) \<Longrightarrow> sub_inv S h st"
proof (induction rule: sub_reach.induct)
  case (subscribe st event f st' b)
  then show ?case using sub_inv_subscribe subscribe_prefix(1) fresh_trace_prefix by metis
next
  case (unsubscribe st event st' b)
  then show ?case using sub_inv_unsubscribe subscribe_prefix(2) fresh_trace_prefix by metis
next
  case (update st st' b)
  then show ?case using sub_inv_update update_prefix fresh_trace_prefix by metis
next
  case (addConnection st uri st' b)
  then show ?case using sub_inv_addConnection addConnection_prefix fresh_trace_prefix by metis
next
  case (others sub w w' us)
  have "sub_inv S h (sub, w)"
    using others fresh_trace_prefix by (metis prefixI snd_conv)
  with others(2,3) show ?case
    by (auto simp: sub_inv_def all_good_def filtered_def distinct_sockets_def untouched)
next
  case (process st s st' x)
  then show ?case
    using sub_inv_process process_trace(2) fresh_trace_prefix by (metis prod.collapse)
qed (simp_all add: sub_inv_session sub_inv_uris)

lemma sub_reach_filtered:
  assumes "sub_reach Z S os h print (sub, w)" and "fresh_trace (trace w)"
    and "s \<in> snd ` set (nr_sockets (sub_net sub))"
  shows "filtered S h (sub_events sub) (trace w) s" and "distinct (map snd (nr_sockets (sub_net sub)))"
proof -
  have "sub_inv S h (sub, w)" using sub_reach_inv [OF assms(1)] assms(2) by simp
  moreover have "s \<in> sockets_of (sub_net sub)" using assms(3) by (simp add: sockets_of_def)
  ultimately show "filtered S h (sub_events sub) (trace w) s"
    and "distinct (map snd (nr_sockets (sub_net sub)))"
    by (simp_all add: sub_inv_def all_good_def distinct_sockets_def)
qed

text \<open>C3: in every state a subscriber gets into, each of its sockets is open and subscribed
  to exactly the Meerkat topic and the events of its table, once each, and no two connections
  share a socket, provided ZeroMQ never returns a handle that is still open.\<close>

theorem subscriptions_follow_table:
  assumes "sub_reach Z S os h print (sub, w)" and "fresh_trace (trace w)"
    and "s \<in> snd ` set (nr_sockets (sub_net sub))"
  shows "s \<in> open_socks (trace w) \<and>
    topics s (trace w) = mset (map (mem128 h) (MEERKAT S # map fst (sub_events sub))) \<and>
    distinct (map snd (nr_sockets (sub_net sub)))"
  using sub_reach_filtered [OF assms] by (simp add: filtered_def filters_for_def)

text \<open>A subscriber of the sample network, connected to one address.\<close>

lemma sample_subscriber:
  obtains sub w a where "Subscriber_uris sample_zmq sample_servus h sample_print
      [URI_default\<lparr>uri_host := ''a'', uri_port := 4\<rparr>] (sample_world q) = (w, Inr sub)"
    and "nr_sockets (sub_net sub) = [(a, 1)]" and "nr_entries (sub_net sub) = [1]"
    and "sub_events sub = []" and "fresh_trace (trace w)" and "env w = (2, q)"
    and "callbacks (trace w) = []"
proof -
  have "\<exists>w sub a. Subscriber_uris sample_zmq sample_servus h sample_print
      [URI_default\<lparr>uri_host := ''a'', uri_port := 4\<rparr>] (sample_world q) = (w, Inr sub) \<and>
    nr_sockets (sub_net sub) = [(a, 1)] \<and> nr_entries (sub_net sub) = [1] \<and>
    sub_events sub = [] \<and> fresh_trace (trace w) \<and> env w = (2, q) \<and> callbacks (trace w) = []"
    by (simp add: Subscriber_uris_def Receiver_plain_def Subscriber_connect_uri_def
        isFullyQualified_def Subscriber_addConnection_def on_net_def net_addConnection_def
        Subscriber_createSocket_def set_filter_def set_filters_def net_connect_def constructed_def
        Let_def URI_default_def empty_uri_def sample_world_def sample_servus_def u128_zero_def
        fresh_trace_def)
  with that show ?thesis by blast
qed

lemma sample_subscribe:
  assumes "nr_sockets (sub_net sub) = [(a, 1)]" and "sub_events sub = []"
  shows "\<exists>w'. subscribe sample_zmq h event f (sub, w) =
      ((sub\<lparr>sub_events := [(event, f)]\<rparr>, w'), Inr True) \<and>
    trace w' = trace w @ [Call_setsockopt 1 (ZMQ_SUBSCRIBE (mem128 h event)) True] \<and> env w' = env w"
  using assms
  by (simp add: subscribe_def subscribe_sockets_def set_filters_def set_filter_def)

lemma sample_subscribed:
  obtains sub w a where "sub_reach sample_zmq sample_servus os h sample_print (sub, w)"
    and "nr_sockets (sub_net sub) = [(a, 1)]" and "sub_events sub = [(event, f)]"
    and "fresh_trace (trace w)" and "env w = (2, q)" and "callbacks (trace w) = []"
proof (rule sample_subscriber [of h q])
  fix sub w a
  assume c: "Subscriber_uris sample_zmq sample_servus h sample_print
      [URI_default\<lparr>uri_host := ''a'', uri_port := 4\<rparr>] (sample_world q) = (w, Inr sub)"
    and n: "nr_sockets (sub_net sub) = [(a, 1)]" and e: "sub_events sub = []"
    and fr: "fresh_trace (trace w)" and q: "env w = (2, q)" "callbacks (trace w) = []"
  let ?sub = "sub\<lparr>sub_events := [(event, f)]\<rparr>"
  from sample_subscribe [OF n e, of h event f w] obtain w' where
    d: "subscribe sample_zmq h event f (sub, w) = ((?sub, w'), Inr True)" and
    t: "trace w' = trace w @ [Call_setsockopt 1 (ZMQ_SUBSCRIBE (mem128 h event)) True]" "env w' = env w"
    by blast
  have "sub_reach sample_zmq sample_servus os h sample_print (?sub, w')"
    by (rule sub_reach.subscribe [OF sub_reach.uris [OF c] d])
  with that [of ?sub w'] show ?thesis using n fr q t by (simp add: fresh_trace_append)
qed

theorem subscriptions_follow_table_witness:
  "\<exists>sub w. sub_reach sample_zmq sample_servus sample_os sample_host sample_print (sub, w) \<and>
     topics 1 (trace w) = {#mem128 sample_host (MEERKAT sample_servus), mem128 sample_host (U128 1 2)#}"
proof (rule sample_subscribed [of sample_os sample_host "U128 1 2" "\<lambda>d e. (e, Inr ())" "[]"])
  fix sub w a
  assume "sub_reach sample_zmq sample_servus sample_os sample_host sample_print (sub, w)"
    and "nr_sockets (sub_net sub) = [(a, 1)]" and "sub_events sub = [(U128 1 2, \<lambda>d e. (e, Inr ()))]"
    and "fresh_trace (trace w)"
  then show ?thesis
    using subscriptions_follow_table [of sample_zmq sample_servus sample_os sample_host sample_print sub w 1]
    by auto
qed

text \<open>C7: the topic filters of a connected socket let the header of an event pass exactly
  when its memory image on this host is that of a subscribed event or of the Meerkat topic: on a
  host with little-endian words exactly the subscribed events, on one with big-endian words the
  events whose byte-swapped identifier is subscribed, for the filters are set in the byte order of
  the host while publishers send little-endian words.\<close>

theorem subscribed_events_pass:
  assumes "sub_reach Z S os h print (sub, w)" and "fresh_trace (trace w)"
    and "s \<in> snd ` set (nr_sockets (sub_net sub))" and "high_first h' = high_first h"
  shows "(\<exists>t \<in># topics s (trace w). prefix t (to_wire h' event)) \<longleftrightarrow>
    (let k = (if big_endian h then byteswap128 event else event)
     in k = MEERKAT S \<or> map_of (sub_events sub) k \<noteq> None)"
proof -
  let ?k = "if big_endian h then byteswap128 event else event"
  have pre: "prefix (mem128 h k) (to_wire h' event) \<longleftrightarrow> k = ?k" for k
  proof -
    have "to_wire h' event = mem128 h ?k"
      using to_wire_same_layout [OF assms(4), of event] by (simp add: to_wire_def)
    moreover have "prefix (mem128 h k) (mem128 h k') \<longleftrightarrow> k = k'" for k'
      by (metis length_mem128 mem128_inj not_equal_is_parallel parallel_def prefix_order.refl)
    ultimately show ?thesis by (simp only:)
  qed
  have "set_mset (topics s (trace w)) = mem128 h ` set (MEERKAT S # map fst (sub_events sub))"
    using sub_reach_filtered(1) [OF assms(1-3)] by (auto simp: filtered_def filters_for_def)
  then have "(\<exists>t \<in># topics s (trace w). prefix t (to_wire h' event)) \<longleftrightarrow>
      (\<exists>k \<in> set (MEERKAT S # map fst (sub_events sub)). k = ?k)"
    by (simp only: bex_simps pre)
  also have "\<dots> \<longleftrightarrow> ?k = MEERKAT S \<or> map_of (sub_events sub) ?k \<noteq> None"
  proof -
    have "(\<exists>k \<in> A. k = q) \<longleftrightarrow> q \<in> A" for A :: "uint128 set" and q by blast
    then show ?thesis
      unfolding map_of_eq_None_iff by (simp only: list.set set_map insert_iff not_not)
  qed
  finally show ?thesis by (simp only: Let_def)
qed

theorem subscribed_events_pass_witness:
  "\<exists>sub w. sub_reach sample_zmq sample_servus sample_os sample_host sample_print (sub, w) \<and>
     (\<exists>t \<in># topics 1 (trace w). prefix t (to_wire sample_host (U128 1 2)))"
proof (rule sample_subscribed [of sample_os sample_host "U128 1 2" "\<lambda>d e. (e, Inr ())" "[]"])
  fix sub w a
  assume r: "sub_reach sample_zmq sample_servus sample_os sample_host sample_print (sub, w)"
    and n: "nr_sockets (sub_net sub) = [(a, 1)]"
    and e: "sub_events sub = [(U128 1 2, \<lambda>d e. (e, Inr ()))]" and fr: "fresh_trace (trace w)"
  have "1 \<in> snd ` set (nr_sockets (sub_net sub))" using n by simp
  from subscribed_events_pass [OF r fr this refl, of "U128 1 2"] e r show ?thesis
    by (auto simp: sample_host_def)
qed

end
