(* ===== verification/Registration.thy ===== *)
theory Registration
  imports Zeq_Prelude
begin

text \<open>
  The contract of the tables applications register handlers in: the events of a subscriber, the
  requests of a server, the methods and endpoints of the HTTP server. Adding a key that is
  present fails and changes nothing, removing one that is absent fails and changes nothing, and
  otherwise the table changes at that key alone. A sequence of operations that all return acts
  as the same sequence does on a partial map.
\<close>

datatype ('k, 'v) reg_op = Add 'k 'v | Remove 'k

text \<open>The abstract table.\<close>

fun reg_step :: "('k, 'v) reg_op \<Rightarrow> ('k \<rightharpoonup> 'v) \<Rightarrow> ('k \<rightharpoonup> 'v) \<times> bool" where
  "reg_step (Add k v) m = (if m k = None then (m(k \<mapsto> v), True) else (m, False))"
| "reg_step (Remove k) m = (m(k := None), m k \<noteq> None)"

fun reg_spec :: "('k, 'v) reg_op list \<Rightarrow> ('k \<rightharpoonup> 'v) \<Rightarrow> ('k \<rightharpoonup> 'v) \<times> bool list" where
  "reg_spec [] m = (m, [])"
| "reg_spec (a # as) m =
     (let (m1, b) = reg_step a m; (m2, bs) = reg_spec as m1 in (m2, b # bs))"

text \<open>A sequence of operations on an implementation, stopped by the first exception.\<close>

fun reg_run ::
  "('k \<Rightarrow> 'v \<Rightarrow> 's \<Rightarrow> ('s, bool) outcome) \<Rightarrow> ('k \<Rightarrow> 's \<Rightarrow> ('s, bool) outcome) \<Rightarrow>
   ('k, 'v) reg_op list \<Rightarrow> 's \<Rightarrow> ('s, bool list) outcome" where
  "reg_run add rem [] s = (s, Inr [])"
| "reg_run add rem (a # as) s =
     and_then (case a of Add k v \<Rightarrow> add k v s | Remove k \<Rightarrow> rem k s)
       (\<lambda>b s1. and_then (reg_run add rem as s1) (\<lambda>bs s2. (s2, Inr (b # bs))))"

locale registration =
  fixes inv :: "'s \<Rightarrow> bool"
    and lookup :: "'s \<Rightarrow> 'k \<Rightarrow> 'v option"
    and add :: "'k \<Rightarrow> 'v \<Rightarrow> 's \<Rightarrow> ('s, bool) outcome"
    and rem :: "'k \<Rightarrow> 's \<Rightarrow> ('s, bool) outcome"
  assumes add_inv: "inv s \<Longrightarrow> add k v s = (s', Inr b) \<Longrightarrow> inv s'"
    and add_step: "inv s \<Longrightarrow> add k v s = (s', Inr b) \<Longrightarrow>
      reg_step (Add k v) (lookup s) = (lookup s', b)"
    and rem_inv: "inv s \<Longrightarrow> rem k s = (s', Inr b) \<Longrightarrow> inv s'"
    and rem_step: "inv s \<Longrightarrow> rem k s = (s', Inr b) \<Longrightarrow>
      reg_step (Remove k :: ('k, 'v) reg_op) (lookup s) = (lookup s', b)"
begin

lemma step_refines:
  assumes "inv s" and "(case a of Add k v \<Rightarrow> add k v s | Remove k \<Rightarrow> rem k s) = (s', Inr b)"
  shows "inv s' \<and> reg_step a (lookup s) = (lookup s', b)"
proof (cases a)
  case (Add k v)
  with assms(2) have op: "add k v s = (s', Inr b)" by simp
  show ?thesis
    unfolding Add using add_inv [OF assms(1) op] add_step [OF assms(1) op] by (rule conjI)
next
  case (Remove k)
  with assms(2) have op: "rem k s = (s', Inr b)" by simp
  show ?thesis
    unfolding Remove using rem_inv [OF assms(1) op] rem_step [OF assms(1) op] by (rule conjI)
qed

lemma run_refines:
  "inv s \<Longrightarrow> reg_run add rem ops s = (s', Inr bs) \<Longrightarrow>
   inv s' \<and> reg_spec ops (lookup s) = (lookup s', bs)"
proof (induction ops arbitrary: s bs)
  case (Cons a as)
  from Cons.prems(2) obtain s1 b bs1 where
    1: "(case a of Add k v \<Rightarrow> add k v s | Remove k \<Rightarrow> rem k s) = (s1, Inr b)"
    and 2: "reg_run add rem as s1 = (s', Inr bs1)" and bs: "bs = b # bs1"
    by (auto simp: and_then_Inr_iff)
  note s1 = step_refines [OF Cons.prems(1) 1]
  with Cons.IH [OF _ 2] bs show ?case by simp
qed simp

lemma add_twice:
  assumes "inv s" and "add k v s = (s1, Inr b1)" and "add k v' s1 = (s2, Inr b2)"
  shows "\<not> b2 \<and> lookup s2 = lookup s1"
proof -
  have "lookup s1 k \<noteq> None"
    using add_step [OF assms(1,2)] by (auto split: if_splits) (metis fun_upd_same option.exhaust)
  with add_step [OF add_inv [OF assms(1,2)] assms(3)] show ?thesis by auto
qed

lemma add_remove:
  assumes "inv s" and "lookup s k = None" and "add k v s = (s1, Inr b1)"
    and "rem k s1 = (s2, Inr b2)"
  shows "b1 \<and> b2 \<and> lookup s2 = lookup s"
proof -
  have s1: "lookup s1 = (lookup s)(k \<mapsto> v)" "b1"
    using add_step [OF assms(1,3)] assms(2) by simp_all
  moreover have "lookup s2 = (lookup s1)(k := None)" "b2 \<longleftrightarrow> lookup s1 k \<noteq> None"
    using rem_step [OF add_inv [OF assms(1,3)] assms(4)] by simp_all
  ultimately show ?thesis
    using assms(2) by (auto simp: fun_eq_iff)
qed

end

end
