(* ===== verification/Req_Server.thy ===== *)
theory Req_Server
  imports Sender Registration
begin

text \<open>
  \<^verbatim>\<open>zeroeq/server.cpp\<close>. A server answers each request with exactly one reply: what the handler
  returns, or the identifier 0 when there is no handler or the handler throws.
\<close>

section \<open>State and handlers\<close>

type_synonym reply = "uint128 \<times> bytes option"
type_synonym 'e handle_func = "bytes option \<Rightarrow> 'e \<Rightarrow> 'e \<times> (exn + reply)"

record 'e server =
  srv_sender :: sender
  srv_handlers :: "uint128 \<Rightarrow> 'e handle_func option"

type_synonym 'e server_state = "'e server \<times> 'e zworld"

definition Server_create ::
  "'e zmq \<Rightarrow> 'e servus \<Rightarrow> os \<Rightarrow> (servus_uri \<Rightarrow> string) \<Rightarrow> servus_uri \<Rightarrow> string \<Rightarrow>
   'e zworld \<Rightarrow> ('e zworld, 'e server) outcome" where
  "Server_create Z S os print uri session w =
     (let (w1, sn) = Sender_create Z S uri ZMQ_REP SERVER_SERVICE
                       (if session = DEFAULT_SESSION then getDefaultRepSession os else session) w
      in and_then (Sender_start Z S os print ''server'' session sn w1)
           (\<lambda>sn' w2. (w2, Inr \<lparr>srv_sender = sn', srv_handlers = Map.empty\<rparr>)))"

definition Server_default where
  "Server_default Z S os print w = Server_create Z S os print URI_default DEFAULT_SESSION w"

definition Server_session where
  "Server_session Z S os print session w = Server_create Z S os print URI_default session w"

definition Server_uri where
  "Server_uri Z S os print uri w = Server_create Z S os print uri DEFAULT_SESSION w"

definition Server_handle ::
  "uint128 \<Rightarrow> 'e handle_func \<Rightarrow> 'e server \<Rightarrow> 'e server \<times> bool" where
  "Server_handle request func srv =
     (if srv_handlers srv request \<noteq> None then (srv, False)
      else (srv\<lparr>srv_handlers := (srv_handlers srv)(request \<mapsto> func)\<rparr>, True))"

definition Server_remove :: "uint128 \<Rightarrow> 'e server \<Rightarrow> 'e server \<times> bool" where
  "Server_remove request srv =
     (srv\<lparr>srv_handlers := (srv_handlers srv)(request := None)\<rparr>, srv_handlers srv request \<noteq> None)"

definition Server_addSockets :: "'e server \<Rightarrow> sock list \<Rightarrow> sock list" where
  "Server_addSockets srv entries = Sender_addSockets (srv_sender srv) entries"

definition Server_addConnection :: "string \<Rightarrow> 's \<Rightarrow> ('s, unit) outcome" where
  "Server_addConnection uri s = (s, Inl (Runtime_error ''Server cannot add connections''))"

definition Server_destroy :: "'e zmq \<Rightarrow> bool \<Rightarrow> 'e server_state \<Rightarrow> 'e zworld" where
  "Server_destroy Z shared st = Sender_destroy Z shared (srv_sender (fst st)) (snd st)"

section \<open>Processing a request\<close>

definition Server_send ::
  "'e zmq \<Rightarrow> sender \<Rightarrow> frame \<Rightarrow> 'e zworld \<Rightarrow> 'e zworld \<times> bool" where
  "Server_send Z sn f w =
     (let (w1, ret) = z_send Z (sn_socket sn) f False w
      in if ret = Sent then (w1, True) else (w1, False))"

text \<open>A failed receive leaves an empty message, whose size then does not match.\<close>

definition Server_recv ::
  "'e zmq \<Rightarrow> sender \<Rightarrow> nat \<Rightarrow> 'e zworld \<Rightarrow> ('e zworld, bytes \<times> bool) outcome" where
  "Server_recv Z sn expected w =
     (let (w1, msg) = z_recv Z (sn_socket sn) False w;
          (data, more) = (case msg of None \<Rightarrow> ([], False) | Some f \<Rightarrow> f)
      in if length data \<noteq> expected
         then (w1, Inl (Runtime_error (''Message size mismatch, expected '' @ decimal expected @
                                       '' got '' @ decimal (length data))))
         else (w1, Inr (data, more)))"

definition send_zero :: "'e zmq \<Rightarrow> host \<Rightarrow> sender \<Rightarrow> 'e zworld \<Rightarrow> 'e zworld" where
  "send_zero Z h sn w = fst (Server_send Z sn (mem128 h u128_zero, False) w)"

definition send_reply :: "'e zmq \<Rightarrow> host \<Rightarrow> sender \<Rightarrow> reply \<Rightarrow> 'e zworld \<Rightarrow> 'e zworld" where
  "send_reply Z h sn reply w =
     (let hasReplyData = has_payload (snd reply);
          (w1, ok) = Server_send Z sn (to_wire h (fst reply), hasReplyData) w
      in if ok \<and> hasReplyData then fst (Server_send Z sn (the (snd reply), False) w1) else w1)"

definition receive_request ::
  "'e zmq \<Rightarrow> host \<Rightarrow> sender \<Rightarrow> 'e zworld \<Rightarrow> ('e zworld, uint128 \<times> bytes option) outcome" where
  "receive_request Z h sn w =
     and_then (Server_recv Z sn 16 w)
       (\<lambda>(data, payload) w1.
          let requestID = from_wire h data
          in if payload
             then let (w2, msg) = z_recv Z (sn_socket sn) False w1
                  in (w2, Inr (requestID, Some (case msg of None \<Rightarrow> [] | Some f \<Rightarrow> fst f)))
             else (w1, Inr (requestID, None)))"

text \<open>\<^verbatim>\<open>catch (...)\<close> catches every exception, but a handler that is undefined stays undefined.\<close>

definition Server_process ::
  "'e zmq \<Rightarrow> host \<Rightarrow> 'e server_state \<Rightarrow> ('e server_state, bool) outcome" where
  "Server_process Z h st =
     (let (srv, w) = st; sn = srv_sender srv in
      case receive_request Z h sn w of
        (w1, Inl e) \<Rightarrow> ((srv, w1), Inl e)
      | (w1, Inr (requestID, body)) \<Rightarrow>
          (case srv_handlers srv requestID of
             None \<Rightarrow> ((srv, send_zero Z h sn w1), Inr True)
           | Some f \<Rightarrow>
               (case run_callback (On_request requestID) f body w1 of
                  (w2, Inr reply) \<Rightarrow> ((srv, send_reply Z h sn reply w2), Inr True)
                | (w2, Inl e) \<Rightarrow>
                    if is_undefined e then ((srv, w2), Inl e)
                    else ((srv, send_zero Z h sn w2), Inr True))))"

section \<open>The table of handlers\<close>

interpretation srv: registration
  "\<lambda>_. True" "srv_handlers" "\<lambda>k f s. apsnd Inr (Server_handle k f s)"
  "\<lambda>k s. apsnd Inr (Server_remove k s)"
  by unfold_locales (auto simp: Server_handle_def Server_remove_def split: if_splits)

section \<open>Replies\<close>

text \<open>
  The answer a server owes a request: a function of the handlers, the request and the
  environment, without the mechanics of sending it.
\<close>

definition answer ::
  "(uint128 \<Rightarrow> 'e handle_func option) \<Rightarrow> uint128 \<Rightarrow> bytes option \<Rightarrow> 'e \<Rightarrow> exn + reply" where
  "answer handlers request body e =
     (case handlers request of
        None \<Rightarrow> Inr (u128_zero, None)
      | Some f \<Rightarrow>
          (case snd (f body e) of
             Inr reply \<Rightarrow> Inr reply
           | Inl x \<Rightarrow> if is_undefined x then Inl x else Inr (u128_zero, None)))"


lemma Server_send_sent:
  "Server_send Z sn f w = (w', ok) \<Longrightarrow>
   (\<exists>r. trace w' = trace w @ [Call_send (sn_socket sn) f r] \<and> ok = (r = Sent))"
  by (auto simp: Server_send_def dest!: trace_callsD split: prod.splits if_splits)

text \<open>One reply goes out: all of it, or a prefix of it if sending fails.\<close>

definition replies :: "sock \<Rightarrow> frame list \<Rightarrow> trace \<Rightarrow> bool" where
  "replies s fs us \<longleftrightarrow> callbacks us = [] \<and> prefix (sent_on s us) fs \<and>
     ((\<forall>c \<in> set us. case c of Call_send _ _ r \<Rightarrow> r = Sent | _ \<Rightarrow> True) \<longrightarrow> sent_on s us = fs)"

lemma send_reply_trace:
  "\<exists>us. trace (send_reply Z h sn r w) = trace w @ us \<and>
     replies (sn_socket sn) (message_frames h (fst r) (snd r)) us"
proof -
  let ?p = "has_payload (snd r)" and ?s = "sn_socket sn"
  obtain w1 ok1 where 1: "Server_send Z sn (to_wire h (fst r), ?p) w = (w1, ok1)"
    by (metis prod.exhaust)
  obtain w2 ok2 where 2: "Server_send Z sn (the (snd r), False) w1 = (w2, ok2)"
    by (metis prod.exhaust)
  obtain r1 where t1: "trace w1 = trace w @ [Call_send ?s (to_wire h (fst r), ?p) r1]"
    and ok1: "ok1 = (r1 = Sent)" using Server_send_sent [OF 1] by blast
  obtain r2 where t2: "trace w2 = trace w1 @ [Call_send ?s (the (snd r), False) r2]"
    using Server_send_sent [OF 2] by blast
  show ?thesis
  proof (cases "ok1 \<and> ?p")
    case True
    then have "send_reply Z h sn r w = w2" using 1 2 by (simp add: send_reply_def)
    with t1 t2 ok1 True show ?thesis
      by (cases r2) (auto simp: replies_def message_frames_def)
  next
    case False
    then have "send_reply Z h sn r w = w1" using 1 by (auto simp: send_reply_def)
    with t1 ok1 False show ?thesis
      by (cases r1) (auto simp: replies_def message_frames_def)
  qed
qed

lemma send_zero_reply: "send_zero Z h sn w = send_reply Z h sn (u128_zero, None) w"
  by (simp add: send_zero_def send_reply_def to_wire_def split: prod.splits)

text \<open>
  The whole request: it is answered with one reply, the one \<open>answer\<close> gives, by at most one call
  of a handler, and the handlers stay as they are.
\<close>

lemma Server_process_answers:
  assumes "receive_request Z h (srv_sender srv) w = (w1, Inr (request, body))"
    and "answer (srv_handlers srv) request body (env w1) = Inr r"
  shows "\<exists>w' cb us. Server_process Z h (srv, w) = ((srv, w'), Inr True) \<and>
    trace w' = trace w1 @ cb @ us \<and>
    cb = (if srv_handlers srv request = None then [] else [Callback (On_request request) body]) \<and>
    replies (sn_socket (srv_sender srv)) (message_frames h (fst r) (snd r)) us"
proof -
  let ?sn = "srv_sender srv"
  show ?thesis
  proof (cases "srv_handlers srv request")
    case None
    with assms send_reply_trace [of Z h ?sn "(u128_zero, None)" w1] show ?thesis
      by (auto simp: Server_process_def answer_def send_zero_reply)
  next
    case (Some f)
    obtain w2 x where 2: "run_callback (On_request request) f body w1 = (w2, x)"
      by (metis prod.exhaust)
    have tr: "trace w2 = trace w1 @ [Callback (On_request request) body]"
      using 2 by (rule trace_run_callbackD)
    have x: "x = snd (f body (env w1))"
      using 2 by (auto simp: run_callback_def split: prod.splits)
    have "Server_process Z h (srv, w) = ((srv, send_reply Z h ?sn r w2), Inr True)"
      using assms Some 2 x [symmetric]
      by (cases x) (auto simp: Server_process_def answer_def send_zero_reply Let_def split: if_splits)
    with send_reply_trace [of Z h ?sn r w2] tr Some show ?thesis by auto
  qed
qed

text \<open>
  A request frame of the wrong size is the one case without a reply: \<open>process\<close> throws before it
  sends anything, and the frames that follow stay unread.
\<close>

text \<open>A request whose identifier does not have 16 bytes makes
  \<^verbatim>\<open>process\<close> throw; it is the one request that gets no reply at all:
  nothing is sent on any socket.\<close>

lemma Server_process_mismatch:
  assumes "z_recv Z (sn_socket (srv_sender srv)) False w = (w1, Some (data, more_frames))"
    and "length data \<noteq> 16"
  shows "Server_process Z h (srv, w) = ((srv, w1), Inl (Runtime_error
      (''Message size mismatch, expected 16 got '' @ decimal (length data)))) \<and>
    sent_on s (trace w1) = sent_on s (trace w)"
proof -
  have "decimal 16 = ''16''" by code_simp
  with assms trace_callsD(7) [OF assms(1)] show ?thesis
    by (simp add: Server_process_def receive_request_def Server_recv_def)
qed

lemma receive_request_delivered:
  assumes "delivers Z (sn_socket sn) (message_frames h i d) w w1"
  shows "receive_request Z h sn w = (w1, Inr (i, payload_of d))"
  using assms
  by (auto simp: message_frames_def receive_request_def Server_recv_def Let_def payload_of_def
      has_payload_iff split: if_splits)

text \<open>
  A server that works through its requests, with whatever else happens in between: \<open>served\<close>
  collects the requests that were received and the replies owed to them.
\<close>

inductive served ::
  "'e zmq \<Rightarrow> host \<Rightarrow> 'e server \<Rightarrow> 'e zworld \<Rightarrow> (uint128 \<times> bytes option) list \<Rightarrow> reply list \<Rightarrow> 'e zworld \<Rightarrow> bool"
  for Z h srv w where
  start: "served Z h srv w [] [] w"
| request: "served Z h srv w reqs rs w1 \<Longrightarrow>
    receive_request Z h (srv_sender srv) w1 = (w2, Inr (i, body)) \<Longrightarrow>
    answer (srv_handlers srv) i body (env w2) = Inr r \<Longrightarrow>
    Server_process Z h (srv, w1) = ((srv', w3), x) \<Longrightarrow>
    served Z h srv w (reqs @ [(i, body)]) (rs @ [r]) w3"
| others: "served Z h srv w reqs rs w1 \<Longrightarrow> trace w2 = trace w1 @ us \<Longrightarrow>
    sent_on (sn_socket (srv_sender srv)) us = [] \<Longrightarrow> callbacks us = [] \<Longrightarrow>
    served Z h srv w reqs rs w2"

definition no_send_failed :: "trace \<Rightarrow> bool" where
  "no_send_failed tr \<longleftrightarrow> (\<forall>s f r. Call_send s f r \<in> set tr \<longrightarrow> r = Sent)"

lemma receive_request_quiet:
  assumes "receive_request Z h sn w = (w1, x)"
  shows "\<exists>us. trace w1 = trace w @ us \<and> sent_on s us = [] \<and> callbacks us = []"
  using assms
  by (auto simp: receive_request_def Server_recv_def and_then_def Let_def
      dest!: trace_callsD split: prod.splits sum.splits if_splits)

lemma replies_sent:
  "replies s fs us \<Longrightarrow> no_send_failed us \<Longrightarrow> sent_on s us = fs"
  by (auto simp: replies_def no_send_failed_def split: event.splits)

lemma served_step:
  assumes "receive_request Z h (srv_sender srv) w1 = (w2, Inr (i, body))"
    and "answer (srv_handlers srv) i body (env w2) = Inr r"
    and "Server_process Z h (srv, w1) = ((srv', w3), x)" and "no_send_failed (trace w3)"
  obtains us where "trace w3 = trace w1 @ us"
    and "sent_on (sn_socket (srv_sender srv)) us = message_frames h (fst r) (snd r)"
    and "callbacks us = (if srv_handlers srv i = None then [] else [(On_request i, body)])"
proof -
  obtain us1 where 1: "trace w2 = trace w1 @ us1" "callbacks us1 = []"
    "sent_on (sn_socket (srv_sender srv)) us1 = []"
    using receive_request_quiet [OF assms(1), of "sn_socket (srv_sender srv)"] by blast
  from Server_process_answers [OF assms(1,2)] assms(3) obtain cb us where
    3: "trace w3 = trace w2 @ cb @ us"
    "cb = (if srv_handlers srv i = None then [] else [Callback (On_request i) body])"
    and r: "replies (sn_socket (srv_sender srv)) (message_frames h (fst r) (snd r)) us"
    by auto
  have "no_send_failed us" using assms(4) 3 by (auto simp: no_send_failed_def)
  with that [of "us1 @ cb @ us"] 1 3 r replies_sent [OF r] show ?thesis
    by (auto simp: sent_on_append replies_def)
qed

text \<open>C4: a server answers its requests one by one: what it has sent is the replies owed to
  the requests it received, complete and in the order of the requests, and every handler has run
  once per request of its identifier, in that order. Sends are assumed to succeed.\<close>

theorem served_in_order:
  assumes "served Z h srv w reqs rs w'" and "no_send_failed (trace w')"
  shows "sent_on (sn_socket (srv_sender srv)) (trace w') =
      sent_on (sn_socket (srv_sender srv)) (trace w) @
        concat (map (\<lambda>(i, d). message_frames h i d) rs) \<and>
    length rs = length reqs \<and>
    callbacks (trace w') = callbacks (trace w) @
      map (\<lambda>(i, d). (On_request i, d)) (filter (\<lambda>(i, d). srv_handlers srv i \<noteq> None) reqs)"
  using assms
proof (induction rule: served.induct)
  case (request reqs rs w1 w2 i body r srv' w3 x)
  from served_step [OF request(2-4) request.prems] obtain us where
    us: "trace w3 = trace w1 @ us"
    "sent_on (sn_socket (srv_sender srv)) us = message_frames h (fst r) (snd r)"
    "callbacks us = (if srv_handlers srv i = None then [] else [(On_request i, body)])" .
  have "no_send_failed (trace w1)" using request.prems us by (auto simp: no_send_failed_def)
  with request.IH us show ?case by (simp add: sent_on_append case_prod_unfold)
next
  case (others reqs rs w1 w2 us)
  have "no_send_failed (trace w1)" using others.prems others(2) by (auto simp: no_send_failed_def)
  with others show ?case by (simp add: sent_on_append)
qed simp

theorem served_in_order_witness:
  "\<exists>srv w w'. served sample_zmq sample_host srv w [(U128 1 2, None), (U128 5 6, None)]
      [(U128 3 4, None), (u128_zero, None)] w' \<and>
    sent_on 7 (trace w') = [(to_wire sample_host (U128 3 4), False), (to_wire sample_host u128_zero, False)]"
proof -
  let ?srv = "\<lparr>srv_sender = sample_sender\<lparr>sn_socket := 7\<rparr>,
    srv_handlers = [U128 1 2 \<mapsto> \<lambda>d (e :: net). (e, Inr (U128 3 4, None))]\<rparr>"
  let ?w = "sample_world [(to_wire sample_host (U128 1 2), False), (to_wire sample_host (U128 5 6), False)]"
  let ?p = "Server_process sample_zmq sample_host"
  obtain s1 w1 x1 where 1: "?p (?srv, ?w) = ((s1, w1), x1)" by (metis prod.exhaust)
  obtain s2 w2 x2 where 2: "?p (?srv, w1) = ((s2, w2), x2)" by (metis prod.exhaust)
  have r1: "\<exists>v. receive_request sample_zmq sample_host (srv_sender ?srv) ?w = (v, Inr (U128 1 2, None))"
    by (simp add: receive_request_def Server_recv_def sample_world_def)
  have e1: "env w1 = (1, [(to_wire sample_host (U128 5 6), False)])"
    and t1: "trace w1 = [Call_recv 7 (Some (to_wire sample_host (U128 1 2), False)),
      Callback (On_request (U128 1 2)) None,
      Call_send 7 (to_wire sample_host (U128 3 4), False) Sent]"
    using 1 by (auto simp: Server_process_def receive_request_def Server_recv_def sample_world_def
        run_callback_def send_reply_def Server_send_def)
  have r2: "\<exists>v. receive_request sample_zmq sample_host (srv_sender ?srv) w1 = (v, Inr (U128 5 6, None))"
    by (simp add: receive_request_def Server_recv_def e1)
  have t2: "trace w2 = trace w1 @ [Call_recv 7 (Some (to_wire sample_host (U128 5 6), False)),
      Call_send 7 (to_wire sample_host u128_zero, False) Sent]"
    using 2 by (auto simp: Server_process_def receive_request_def Server_recv_def e1
        send_zero_reply send_reply_def Server_send_def)
  have a: "answer (srv_handlers ?srv) (U128 1 2) None e = Inr (U128 3 4, None)"
    "answer (srv_handlers ?srv) (U128 5 6) None e = Inr (u128_zero, None)" for e
    by (simp_all add: answer_def)
  from r1 obtain v1 where "receive_request sample_zmq sample_host (srv_sender ?srv) ?w =
    (v1, Inr (U128 1 2, None))" by blast
  note h1 = served.request [OF served.start this a(1) 1]
  from r2 obtain v2 where "receive_request sample_zmq sample_host (srv_sender ?srv) w1 =
    (v2, Inr (U128 5 6, None))" by blast
  note s = served.request [OF h1 this a(2) 2]
  have "no_send_failed (trace w2)" by (auto simp: no_send_failed_def t1 t2)
  from served_in_order [OF s this] s show ?thesis
    by (auto simp: message_frames_def sample_world_def)
qed

text \<open>Any sequence of \<^verbatim>\<open>handle\<close> and
  \<^verbatim>\<open>remove\<close> on a server returns, what it returns and the table it leaves
  are those of the same sequence on a partial map, and the socket stays the same.\<close>

lemma Server_registrations:
  "\<exists>srv' bs.
     reg_run (\<lambda>k f s. apsnd Inr (Server_handle k f s)) (\<lambda>k s. apsnd Inr (Server_remove k s)) ops srv =
       (srv', Inr bs) \<and>
     reg_spec ops (srv_handlers srv) = (srv_handlers srv', bs) \<and> srv_sender srv' = srv_sender srv"
proof -
  let ?run = "reg_run (\<lambda>k f s. apsnd Inr (Server_handle k f s)) (\<lambda>k s. apsnd Inr (Server_remove k s))"
  have "\<exists>srv' bs. ?run ops srv = (srv', Inr bs) \<and> srv_sender srv' = srv_sender srv"
  proof (induction ops arbitrary: srv)
    case (Cons a as)
    have "\<exists>s1 b. (case a of Add k f \<Rightarrow> apsnd Inr (Server_handle k f srv)
        | Remove k \<Rightarrow> apsnd Inr (Server_remove k srv)) = (s1, Inr b :: exn + bool) \<and>
        srv_sender s1 = srv_sender srv"
      by (cases a) (auto simp: Server_handle_def Server_remove_def)
    then obtain s1 b where 1: "(case a of Add k f \<Rightarrow> apsnd Inr (Server_handle k f srv)
        | Remove k \<Rightarrow> apsnd Inr (Server_remove k srv)) = (s1, Inr b :: exn + bool)"
      and k: "srv_sender s1 = srv_sender srv" by blast
    from Cons.IH [of s1] obtain s2 bs where
      "?run as s1 = (s2, Inr bs)" "srv_sender s2 = srv_sender s1" by blast
    with 1 k show ?case by simp
  qed simp
  then obtain srv' bs where r: "?run ops srv = (srv', Inr bs)" "srv_sender srv' = srv_sender srv" by blast
  with srv.run_refines [OF TrueI r(1)] show ?thesis by blast
qed

end
