(* ===== verification/Req_Client.thy ===== *)
theory Req_Client
  imports Discovery
begin

text \<open>
  \<^verbatim>\<open>zeroeq/client.cpp\<close>. A client has one DEALER socket for all its servers. A request is an id,
  an empty delimiter, the request identifier and an optional payload; the reply handler waits in
  a table under the id until the reply with that id comes.
\<close>

section \<open>State\<close>

type_synonym 'e reply_func = "uint128 \<Rightarrow> bytes option \<Rightarrow> 'e \<Rightarrow> 'e \<times> (exn + unit)"

record 'e client =
  cl_net :: net_receiver
  cl_servers :: sock
  cl_handlers :: "64 word \<Rightarrow> 'e reply_func option"
  cl_id :: "64 word"

type_synonym 'e client_state = "'e client \<times> 'e zworld"

definition Client_createSocket :: "sock \<Rightarrow> 'e create_socket" where
  "Client_createSocket servers instance w = (w, Inr servers)"

definition on_cl_net ::
  "('e net_state \<Rightarrow> ('e net_state, 'a) outcome) \<Rightarrow> 'e client_state \<Rightarrow>
   ('e client_state, 'a) outcome" where
  "on_cl_net f st =
     (let (cl, w) = st; ((r, w'), x) = f (cl_net cl, w) in ((cl\<lparr>cl_net := r\<rparr>, w'), x))"

definition Client_update ::
  "'e zmq \<Rightarrow> 'e servus \<Rightarrow> 'e client_state \<Rightarrow> ('e client_state, bool) outcome" where
  "Client_update Z S st =
     (let servers = cl_servers (fst st)
      in on_cl_net (net_update Z S (\<lambda>s. s = servers) (Client_createSocket servers)) st)"

definition Client_addConnection ::
  "'e zmq \<Rightarrow> string \<Rightarrow> 'e client_state \<Rightarrow> ('e client_state, bool) outcome" where
  "Client_addConnection Z uri st =
     (let servers = cl_servers (fst st)
      in on_cl_net (net_addConnection Z (\<lambda>s. s = servers) (Client_createSocket servers) uri) st)"

definition Client_addSockets :: "'e client \<Rightarrow> sock list \<Rightarrow> sock list" where
  "Client_addSockets cl entries = net_addSockets (cl_net cl) entries"

text \<open>
  The members go before the base class: the client's reference to its socket is dropped first,
  and the socket is closed then unless a connection still refers to it.
\<close>

definition Client_destroy :: "'e zmq \<Rightarrow> 'e servus \<Rightarrow> 'e client_state \<Rightarrow> 'e zworld" where
  "Client_destroy Z S st =
     (let (cl, w) = st;
          w1 = release Z (\<lambda>_. False) (cl_net cl) (cl_servers cl) w
      in Receiver_destroy Z S (\<lambda>_. False) (cl_net cl, w1))"

section \<open>Construction\<close>

text \<open>The comma-separated list of \<^verbatim>\<open>ZEROEQ_SERVERS\<close>.\<close>

function server_list :: "string \<Rightarrow> string list" where
  "server_list servers =
     (if servers = [] then []
      else
        let pos = find_char CHR '','' servers
        in substr_to servers pos #
           server_list (case pos of None \<Rightarrow> [] | Some i \<Rightarrow> drop (i + 1) servers))"
  by auto
termination
  by (relation "measure length") (auto split: option.splits)

declare server_list.simps [simp del]

definition Client_connect ::
  "'e zmq \<Rightarrow> (servus_uri \<Rightarrow> string) \<Rightarrow> servus_uri \<Rightarrow> 'e client_state \<Rightarrow>
   ('e client_state, unit) outcome" where
  "Client_connect Z print uri st =
     (let zmqURI = buildZmqURI print uri
      in and_then (Client_addConnection Z zmqURI st)
           (\<lambda>ok st1. (st1,
              if ok then Inr ()
              else Inl (Runtime_error
                (''Cannot connect client to '' @ zmqURI @ '': '' @ z_strerror Z (snd st1))))))"

definition Client_connect_server ::
  "'e zmq \<Rightarrow> uri_parser \<Rightarrow> (servus_uri \<Rightarrow> string) \<Rightarrow> string \<Rightarrow> 'e client_state \<Rightarrow>
   ('e client_state, unit) outcome" where
  "Client_connect_server Z parse print server st =
     (case URI_string parse server of
        Inl e \<Rightarrow> (st, Inl e)
      | Inr uri \<Rightarrow> Client_connect Z print uri st)"

definition Client_connect_uri ::
  "'e zmq \<Rightarrow> (servus_uri \<Rightarrow> string) \<Rightarrow> servus_uri \<Rightarrow> 'e client_state \<Rightarrow>
   ('e client_state, unit) outcome" where
  "Client_connect_uri Z print uri st =
     (if \<not> isFullyQualified uri
      then (st, Inl (Runtime_error ''Non-fully qualified URI used for server''))
      else Client_connect Z print uri st)"

definition Client_body ::
  "'e zmq \<Rightarrow> 'e servus \<Rightarrow> ('e client_state \<Rightarrow> ('e client_state, unit) outcome) \<Rightarrow>
   net_receiver \<Rightarrow> 'e zworld \<Rightarrow> ('e zworld, 'e client) outcome" where
  "Client_body Z S body r w =
     (let (w1, s) = z_socket Z ZMQ_DEALER w
      in case body (\<lparr>cl_net = r, cl_servers = s, cl_handlers = Map.empty, cl_id = 0\<rparr>, w1) of
           (st, Inl e) \<Rightarrow> (Client_destroy Z S st, Inl e)
         | ((cl, w2), Inr _) \<Rightarrow> (w2, Inr cl))"

text \<open>Without \<^verbatim>\<open>ZEROEQ_SERVERS\<close> the constructor returns before its first update.\<close>

definition Client_session ::
  "'e zmq \<Rightarrow> 'e servus \<Rightarrow> os \<Rightarrow> uri_parser \<Rightarrow> (servus_uri \<Rightarrow> string) \<Rightarrow> string \<Rightarrow> 'e zworld \<Rightarrow>
   ('e zworld, 'e client) outcome" where
  "Client_session Z S os parse print session w =
     and_then
       (Receiver_browse S SERVER_SERVICE
          (if session = DEFAULT_SESSION then getDefaultRepSession os else session) w)
       (Client_body Z S
          (\<lambda>st. case getenv os ''ZEROEQ_SERVERS'' of
                  None \<Rightarrow> (st, Inr ())
                | Some serversEnv \<Rightarrow>
                    and_then
                      (for_each (Client_connect_server Z parse print)
                         (server_list (c_str serversEnv)) st)
                      (\<lambda>_ st1. and_then (Client_update Z S st1) (\<lambda>_ st2. (st2, Inr ())))))"

definition Client_uris ::
  "'e zmq \<Rightarrow> 'e servus \<Rightarrow> (servus_uri \<Rightarrow> string) \<Rightarrow> servus_uri list \<Rightarrow> 'e zworld \<Rightarrow>
   ('e zworld, 'e client) outcome" where
  "Client_uris Z S print uris w =
     (let (w1, r) = Receiver_plain S SERVER_SERVICE w
      in Client_body Z S (for_each (Client_connect_uri Z print) uris) r w1)"

definition Client_default where
  "Client_default Z S os parse print w = Client_session Z S os parse print DEFAULT_SESSION w"

section \<open>Sending a request\<close>

text \<open>
  \<^verbatim>\<open>_send\<close> retries as long as ZeroMQ reports \<^verbatim>\<open>EAGAIN\<close>, which it does while no server is
  connected; between the attempts it browses for servers, and sleeps for 10 milliseconds when
  that found none. The loop may run forever.
\<close>

definition send_attempt ::
  "'e zmq \<Rightarrow> 'e servus \<Rightarrow> (nat \<Rightarrow> 'e \<Rightarrow> 'e) \<Rightarrow> frame \<Rightarrow> 'e client_state \<Rightarrow>
   'e client_state + ('e client_state, bool) outcome" where
  "send_attempt Z S sleep f st =
     (let (cl, w) = st; (w1, ret) = z_send Z (cl_servers cl) f True w
      in if ret = Again
         then (case Client_update Z S (cl, w1) of
                 (st2, Inl e) \<Rightarrow> Inr (st2, Inl e)
               | (st2, Inr updated) \<Rightarrow> Inl (if updated then st2 else apsnd (on_env (sleep 10)) st2))
         else Inr ((cl, w1), Inr (ret = Sent)))"

definition Client_send ::
  "'e zmq \<Rightarrow> 'e servus \<Rightarrow> (nat \<Rightarrow> 'e \<Rightarrow> 'e) \<Rightarrow> frame \<Rightarrow> 'e client_state \<Rightarrow>
   ('e client_state, bool) outcome option" where
  "Client_send Z S sleep f st = loop (send_attempt Z S sleep f) st"

text \<open>A conjunction of sends, cut off by the first that fails.\<close>

fun Client_send_all ::
  "'e zmq \<Rightarrow> 'e servus \<Rightarrow> (nat \<Rightarrow> 'e \<Rightarrow> 'e) \<Rightarrow> frame list \<Rightarrow> 'e client_state \<Rightarrow>
   ('e client_state, bool) outcome option" where
  "Client_send_all Z S sleep [] st = Some (st, Inr True)"
| "Client_send_all Z S sleep (f # fs) st =
     (case Client_send Z S sleep f st of
        None \<Rightarrow> None
      | Some (st1, Inr True) \<Rightarrow> Client_send_all Z S sleep fs st1
      | Some r \<Rightarrow> Some r)"

definition request ::
  "'e zmq \<Rightarrow> 'e servus \<Rightarrow> host \<Rightarrow> (nat \<Rightarrow> 'e \<Rightarrow> 'e) \<Rightarrow> uint128 \<Rightarrow> bytes option \<Rightarrow> 'e reply_func \<Rightarrow>
   'e client_state \<Rightarrow> ('e client_state, bool) outcome option" where
  "request Z S h sleep requestID payload func st =
     (let hasPayload = has_payload payload;
          (cl, w) = st;
          newid = cl_id cl + 1;
          st1 = (cl\<lparr>cl_id := newid\<rparr>, w)
      in case Client_send_all Z S sleep
                [(mem64 h newid, True), ([], True), (to_wire h requestID, hasPayload)] st1 of
           None \<Rightarrow> None
         | Some (st2, Inl e) \<Rightarrow> Some (st2, Inl e)
         | Some (st2, Inr False) \<Rightarrow> Some (st2, Inr False)
         | Some (st2, Inr True) \<Rightarrow>
             (case (if hasPayload then Client_send Z S sleep (the payload, False) st2
                    else Some (st2, Inr True)) of
                None \<Rightarrow> None
              | Some (st3, Inl e) \<Rightarrow> Some (st3, Inl e)
              | Some (st3, Inr False) \<Rightarrow> Some (st3, Inr False)
              | Some ((cl3, w3), Inr True) \<Rightarrow>
                  Some ((cl3\<lparr>cl_handlers := (cl_handlers cl3)(cl_id cl3 \<mapsto> func)\<rparr>, w3), Inr True)))"

definition request_object where
  "request_object Z S h sleep obj func st =
     (case obj of (typeId, data) \<Rightarrow> request Z S h sleep typeId data func st)"

section \<open>Receiving a reply\<close>

text \<open>
  \<^verbatim>\<open>_recv\<close> returns whether more frames follow; a failed receive counts as no. The data is
  copied out only when the size is the expected one, and the caller's variable keeps its value
  otherwise: \<open>None\<close>.
\<close>

definition Client_recv ::
  "'e zmq \<Rightarrow> sock \<Rightarrow> nat \<Rightarrow> bool \<Rightarrow> 'e zworld \<Rightarrow> 'e zworld \<times> bytes option \<times> bool" where
  "Client_recv Z servers expected dontwait w =
     (case z_recv Z servers dontwait w of
        (w1, None) \<Rightarrow> (w1, None, False)
      | (w1, Some (data, follows)) \<Rightarrow>
          (w1, if length data = expected then Some data else None, follows))"

text \<open>
  The id is an uninitialised variable until it is received, so a frame of another size leaves it
  indeterminate; the reply identifier starts as 0.
\<close>

definition Client_process ::
  "'e zmq \<Rightarrow> host \<Rightarrow> sock \<Rightarrow> 'e client_state \<Rightarrow> ('e client_state, bool) outcome" where
  "Client_process Z h socket st =
     (let (cl, w) = st; (w1, iddata, more1) = Client_recv Z (cl_servers cl) 8 True w
      in if \<not> more1 then ((cl, w1), Inr False)
         else
           let (w2, _, more2) = Client_recv Z (cl_servers cl) 0 False w1
           in if \<not> more2 then ((cl, w2), Inr False)
              else
                let (w3, replydata, payload) = Client_recv Z (cl_servers cl) 16 False w2;
                    replyID = (case replydata of None \<Rightarrow> u128_zero | Some d \<Rightarrow> from_wire h d);
                    (w4, body) =
                      (if payload
                       then let (w4, msg) = z_recv Z socket False w3
                            in (w4, Some (case msg of None \<Rightarrow> [] | Some f \<Rightarrow> fst f))
                       else (w3, None))
                in (case iddata of
                     None \<Rightarrow> ((cl, w4), Inl (Undefined ''uninitialised id''))
                   | Some d \<Rightarrow>
                       (let i = load64 h d
                        in case cl_handlers cl i of
                            None \<Rightarrow> ((cl, w4), Inl (Runtime_error
                              (''Got unrequested reply '' @ decimal (unat i))))
                          | Some f \<Rightarrow>
                              (case run_callback (On_reply i replyID) (f replyID) body w4 of
                                 (w5, Inl e) \<Rightarrow> ((cl, w5), Inl e)
                               | (w5, Inr _) \<Rightarrow>
                                   ((cl\<lparr>cl_handlers := (cl_handlers cl)(i := None)\<rparr>, w5), Inr True)))))"

section \<open>One socket for all servers\<close>

text \<open>
  Every connection of a client is on its DEALER socket, no operation on the connections closes
  that socket, and none of them sends anything.
\<close>

interpretation cl: socket_factory
  "Client_createSocket servers" "\<lambda>s. s = servers" "\<lambda>_ s. s = servers"
  for servers
  by unfold_locales (auto simp: Client_createSocket_def)

interpretation cl_open: trace_relation
  "Client_createSocket servers" "\<lambda>s. s = servers"
  "\<lambda>t u. (servers \<in> open_socks t \<longrightarrow> servers \<in> open_socks u) \<and> sent_on s u = sent_on s t"
  for servers s
  by unfold_locales (auto simp: Client_createSocket_def)

definition cl_inv :: "'e client_state \<Rightarrow> bool" where
  "cl_inv st \<longleftrightarrow> all_good (\<lambda>_ s. s = cl_servers (fst st)) (cl_net (fst st), snd st)"

lemma cl_inv_update:
  assumes "cl_inv st" and "Client_update Z S st = (st', Inr b)"
  shows "cl_inv st'"
  using assms cl.all_good_update
  by (fastforce simp: cl_inv_def Client_update_def on_cl_net_def Let_def split: prod.splits)

lemma cl_inv_addConnection:
  assumes "cl_inv st" and "Client_addConnection Z uri st = (st', Inr b)"
  shows "cl_inv st'"
  using assms cl.all_good_addConnection
  by (fastforce simp: cl_inv_def Client_addConnection_def on_cl_net_def Let_def split: prod.splits)

lemma Client_update_quiet:
  assumes "Client_update Z S (cl, w) = ((cl', w'), x)"
  shows "(cl_servers cl \<in> open_socks (trace w) \<longrightarrow> cl_servers cl \<in> open_socks (trace w')) \<and>
    sent_on s (trace w') = sent_on s (trace w) \<and>
    cl_servers cl' = cl_servers cl \<and> cl_id cl' = cl_id cl \<and> cl_handlers cl' = cl_handlers cl"
proof -
  let ?s = "cl_servers cl"
  obtain r1 w1 where u: "net_update Z S (\<lambda>s. s = ?s) (Client_createSocket ?s) (cl_net cl, w)
      = ((r1, w1), x)" and "cl' = cl\<lparr>cl_net := r1\<rparr>" "w' = w1"
    using assms by (auto simp: Client_update_def on_cl_net_def Let_def split: prod.splits)
  with cl_open.R_update [OF u, of s] show ?thesis by simp
qed

lemma Client_addConnection_open:
  assumes "Client_addConnection Z uri (cl, w) = ((cl', w'), x)"
    and "cl_servers cl \<in> open_socks (trace w)"
  shows "cl_servers cl' = cl_servers cl \<and> cl_servers cl \<in> open_socks (trace w')"
  using assms cl_open.R_addConnection
  by (fastforce simp: Client_addConnection_def on_cl_net_def Let_def split: prod.splits)

section \<open>What a request sends\<close>

lemma send_attempt_again:
  assumes "send_attempt Z S sleep f (cl, w) = Inl (cl', w')"
  shows "sent_on s (trace w') = sent_on s (trace w) \<and> cl_servers cl' = cl_servers cl \<and>
    cl_id cl' = cl_id cl \<and> cl_handlers cl' = cl_handlers cl"
proof -
  obtain w1 ret where 1: "z_send Z (cl_servers cl) f True w = (w1, ret)" by (metis prod.exhaust)
  with assms have ret: "ret = Again" by (auto simp: send_attempt_def split: if_splits)
  obtain cl2 w2 x where 2: "Client_update Z S (cl, w1) = ((cl2, w2), x)" by (metis prod.exhaust)
  have "cl' = cl2 \<and> trace w' = trace w2"
    using assms 1 2 ret by (auto simp: send_attempt_def split: sum.splits if_splits)
  with Client_update_quiet [OF 2, of s] trace_callsD(6) [OF 1] ret show ?thesis by simp
qed

lemma send_attempt_done:
  assumes "send_attempt Z S sleep f (cl, w) = Inr ((cl', w'), x)"
  shows "sent_on s (trace w') =
      sent_on s (trace w) @ (if x = Inr True \<and> s = cl_servers cl then [f] else []) \<and>
    cl_servers cl' = cl_servers cl \<and> cl_id cl' = cl_id cl \<and> cl_handlers cl' = cl_handlers cl"
proof -
  obtain w1 ret where 1: "z_send Z (cl_servers cl) f True w = (w1, ret)" by (metis prod.exhaust)
  obtain cl2 w2 y where 2: "Client_update Z S (cl, w1) = ((cl2, w2), y)" by (metis prod.exhaust)
  note t = trace_callsD(6) [OF 1] Client_update_quiet [OF 2, of s]
  show ?thesis
  proof (cases ret)
    case Again
    with assms 1 2 have "cl' = cl2 \<and> w' = w2 \<and> (\<exists>e. x = Inl e)"
      by (auto simp: send_attempt_def split: sum.splits)
    with t Again show ?thesis by auto
  qed (use assms 1 t in \<open>auto simp: send_attempt_def\<close>)
qed

lemma Client_send_sent:
  assumes "Client_send Z S sleep f (cl, w) = Some ((cl', w'), x)"
  shows "sent_on s (trace w') =
      sent_on s (trace w) @ (if x = Inr True \<and> s = cl_servers cl then [f] else []) \<and>
    cl_servers cl' = cl_servers cl \<and> cl_id cl' = cl_id cl \<and> cl_handlers cl' = cl_handlers cl"
proof -
  let ?same = "\<lambda>st. sent_on s (trace (snd st)) = sent_on s (trace w) \<and>
    cl_servers (fst st) = cl_servers cl \<and> cl_id (fst st) = cl_id cl \<and>
    cl_handlers (fst st) = cl_handlers cl"
  from assms have "loop (send_attempt Z S sleep f) (cl, w) = Some ((cl', w'), x)"
    by (simp add: Client_send_def)
  then have "case ((cl', w'), x) of ((cl', w'), x) \<Rightarrow> sent_on s (trace w') =
      sent_on s (trace w) @ (if x = Inr True \<and> s = cl_servers cl then [f] else []) \<and>
    cl_servers cl' = cl_servers cl \<and> cl_id cl' = cl_id cl \<and> cl_handlers cl' = cl_handlers cl"
  proof (rule loop_invariant [where I = ?same])
    fix st st' assume "?same st" and "send_attempt Z S sleep f st = Inl st'"
    then show "?same st'"
      using send_attempt_again [of Z S sleep f "fst st" "snd st" "fst st'" "snd st'" s] by simp
  next
    fix st r assume I: "?same st" and 1: "send_attempt Z S sleep f st = Inr r"
    then show "case r of ((cl', w'), x) \<Rightarrow> sent_on s (trace w') =
      sent_on s (trace w) @ (if x = Inr True \<and> s = cl_servers cl then [f] else []) \<and>
      cl_servers cl' = cl_servers cl \<and> cl_id cl' = cl_id cl \<and> cl_handlers cl' = cl_handlers cl"
      using send_attempt_done [of Z S sleep f "fst st" "snd st" "fst (fst r)" "snd (fst r)" "snd r" s]
      by (auto split: prod.splits)
  qed simp
  then show ?thesis by simp
qed

lemma Client_send_all_sent:
  assumes "Client_send_all Z S sleep fs (cl, w) = Some ((cl', w'), x)"
  shows "\<exists>gs. sent_on (cl_servers cl) (trace w') = sent_on (cl_servers cl) (trace w) @ gs \<and>
    prefix gs fs \<and> (x = Inr True \<longleftrightarrow> gs = fs) \<and>
    cl_servers cl' = cl_servers cl \<and> cl_id cl' = cl_id cl \<and> cl_handlers cl' = cl_handlers cl"
  using assms
proof (induction fs arbitrary: cl w)
  case (Cons f fs)
  from Cons.prems obtain cl1 w1 y
    where 1: "Client_send Z S sleep f (cl, w) = Some ((cl1, w1), y)"
    by (auto split: option.splits prod.splits)
  note s1 = Client_send_sent [OF 1, of "cl_servers cl"]
  show ?case
  proof (cases "y = Inr True")
    case True
    with Cons.prems 1 have "Client_send_all Z S sleep fs (cl1, w1) = Some ((cl', w'), x)" by simp
    from Cons.IH [OF this] s1 True show ?thesis by auto
  next
    case False
    with Cons.prems 1 have "cl' = cl1 \<and> w' = w1 \<and> x = y"
      by (auto split: sum.splits bool.splits)
    with s1 False show ?thesis by auto
  qed
qed auto

text \<open>
  A request takes the next id. It sends all of its message and files the handler under the id,
  or it sends a part of it and files nothing.
\<close>

definition request_frames :: "host \<Rightarrow> 64 word \<Rightarrow> uint128 \<Rightarrow> bytes option \<Rightarrow> frame list" where
  "request_frames h i requestID payload =
     [(mem64 h i, True), ([], True)] @ message_frames h requestID payload"

lemma request_sent:
  assumes "request Z S h sleep requestID payload func (cl, w) = Some ((cl', w'), x)"
  shows "\<exists>gs. sent_on (cl_servers cl) (trace w') = sent_on (cl_servers cl) (trace w) @ gs \<and>
    prefix gs (request_frames h (cl_id cl + 1) requestID payload) \<and>
    (x = Inr True \<longleftrightarrow> gs = request_frames h (cl_id cl + 1) requestID payload) \<and>
    cl_servers cl' = cl_servers cl \<and> cl_id cl' = cl_id cl + 1 \<and>
    cl_handlers cl' =
      (if x = Inr True then (cl_handlers cl)(cl_id cl + 1 \<mapsto> func) else cl_handlers cl)"
proof -
  let ?p = "has_payload payload" and ?i = "cl_id cl + 1"
  let ?fs = "[(mem64 h ?i, True), ([], True), (to_wire h requestID, ?p)]"
  obtain cl2 w2 y where 2: "Client_send_all Z S sleep ?fs (cl\<lparr>cl_id := ?i\<rparr>, w) = Some ((cl2, w2), y)"
    using assms by (auto simp: request_def Let_def split: option.splits prod.splits)
  from Client_send_all_sent [OF 2] obtain gs where
    gs: "sent_on (cl_servers cl) (trace w2) = sent_on (cl_servers cl) (trace w) @ gs"
    "prefix gs ?fs" "y = Inr True \<longleftrightarrow> gs = ?fs"
    and k: "cl_servers cl2 = cl_servers cl" "cl_id cl2 = ?i" "cl_handlers cl2 = cl_handlers cl"
    by auto
  have req: "request_frames h ?i requestID payload =
      (if ?p then ?fs @ [(the payload, False)] else ?fs)"
    by (simp add: request_frames_def message_frames_def)
  have pre: "prefix gs (request_frames h ?i requestID payload)"
    unfolding req using gs(2) prefix_prefix [OF gs(2)] by (simp only: split: if_split) blast
  have part: "y \<noteq> Inr True \<Longrightarrow> gs \<noteq> request_frames h ?i requestID payload"
    using gs(2,3) prefix_length_le [OF gs(2)] by (auto simp: req)
  show ?thesis
  proof (cases "y = Inr True \<and> ?p")
    case True
    then obtain cl3 w3 z where
      3: "Client_send Z S sleep (the payload, False) (cl2, w2) = Some ((cl3, w3), z)"
      using assms 2 by (auto simp: request_def Let_def split: option.splits prod.splits)
    from Client_send_sent [OF 3, of "cl_servers cl"] k
    have s3: "sent_on (cl_servers cl) (trace w3) =
        sent_on (cl_servers cl) (trace w2) @ (if z = Inr True then [(the payload, False)] else [])"
      "cl_servers cl3 = cl_servers cl" "cl_id cl3 = ?i" "cl_handlers cl3 = cl_handlers cl" by auto
    have res: "x = z \<and> w' = w3 \<and> cl' = (if z = Inr True
        then cl3\<lparr>cl_handlers := (cl_handlers cl3)(cl_id cl3 \<mapsto> func)\<rparr> else cl3)"
      using assms 2 3 True by (auto simp: request_def Let_def split: sum.splits bool.splits)
    show ?thesis
      using gs s3 res True by (cases "z = Inr True") (auto simp: req)
  next
    case False
    then have res: "x = y \<and> w' = w2 \<and> cl' = (if y = Inr True
        then cl2\<lparr>cl_handlers := (cl_handlers cl2)(cl_id cl2 \<mapsto> func)\<rparr> else cl2)"
      using assms 2 by (auto simp: request_def Let_def split: sum.splits bool.splits)
    show ?thesis
    proof (cases "y = Inr True")
      case True
      with gs k res False show ?thesis by (auto simp: req)
    next
      case False
      with gs(1) pre part k res show ?thesis by simp
    qed
  qed
qed

section \<open>When a request returns\<close>

text \<open>
  A send blocks exactly as long as ZeroMQ asks for another attempt: it returns if and only if
  after some number of rounds the attempt succeeds, fails for another reason, or browsing throws.
\<close>

lemma Client_send_returns_iff:
  "(\<exists>r. Client_send Z S sleep f st = Some r) \<longleftrightarrow>
   (\<exists>n st' r. rounds (send_attempt Z S sleep f) n st = Some st' \<and>
      send_attempt Z S sleep f st' = Inr r)"
  unfolding Client_send_def loop_returns_iff by blast

lemma Client_send_accepted:
  assumes "rounds (send_attempt Z S sleep f) n st = Some (cl, w)"
    and "z_send Z (cl_servers cl) f True w = (w1, Sent)"
  shows "Client_send Z S sleep f st = Some ((cl, w1), Inr True)"
proof -
  have "send_attempt Z S sleep f (cl, w) = Inr ((cl, w1), Inr True)"
    using assms(2) by (simp add: send_attempt_def)
  with assms(1) show ?thesis unfolding Client_send_def by (rule loop_returns)
qed

section \<open>Replies\<close>

text \<open>
  A reply with the id of a pending request, as the DEALER socket delivers it: the handler of
  that request runs once, on the identifier and payload of the reply, and is removed.
\<close>

lemma Client_process_reply:
  assumes "delivers Z (cl_servers cl) ((mem64 h i, True) # ([], True) # message_frames h r d) w w1"
    and "cl_handlers cl i = Some f"
  shows "Client_process Z h (cl_servers cl) (cl, w) =
    (case run_callback (On_reply i r) (f r) (payload_of d) w1 of
       (w2, Inl e) \<Rightarrow> ((cl, w2), Inl e)
     | (w2, Inr _) \<Rightarrow> ((cl\<lparr>cl_handlers := (cl_handlers cl)(i := None)\<rparr>, w2), Inr True))"
  using assms
  by (auto simp: message_frames_def Client_process_def Client_recv_def Let_def payload_of_def
      has_payload_iff split: if_splits)

text \<open>A reply nobody asked for is an error and runs nothing.\<close>

lemma Client_process_unrequested:
  assumes "delivers Z (cl_servers cl) ((mem64 h i, True) # ([], True) # message_frames h r d) w w1"
    and "cl_handlers cl i = None"
  shows "Client_process Z h (cl_servers cl) (cl, w) =
    ((cl, w1), Inl (Runtime_error (''Got unrequested reply '' @ decimal (unat i))))"
  using assms
  by (auto simp: message_frames_def Client_process_def Client_recv_def Let_def payload_of_def
      has_payload_iff split: if_splits)

text \<open>A reply whose id frame does not have the size of an id makes the client use an id
  it has never assigned: undefined behaviour.\<close>

lemma Client_process_bad_id:
  assumes "delivers Z (cl_servers cl) ((bad, True) # ([], True) # message_frames h r d) w w1"
    and "length bad \<noteq> 8"
  shows "Client_process Z h (cl_servers cl) (cl, w) = ((cl, w1), Inl (Undefined ''uninitialised id''))"
  using assms
  by (auto simp: message_frames_def Client_process_def Client_recv_def Let_def payload_of_def
      has_payload_iff split: if_splits)

text \<open>The list of servers is what stands between the commas.\<close>

lemma server_list_comma:
  "s \<noteq> [] \<Longrightarrow> CHR '','' \<notin> set s \<Longrightarrow> server_list (s @ CHR '','' # t) = s # server_list t"
  by (subst server_list.simps) (simp add: find_char_append_notin substr_to_def)

lemma server_list_single:
  "s \<noteq> [] \<Longrightarrow> CHR '','' \<notin> set s \<Longrightarrow> server_list s = [s]"
  by (subst server_list.simps)
    (simp add: find_char_None_iff [THEN iffD2] substr_to_def server_list.simps)

section \<open>Ids\<close>

text \<open>The life of a client: it is constructed, and its operations return.\<close>

inductive client_run ::
  "'e zmq \<Rightarrow> 'e servus \<Rightarrow> host \<Rightarrow> (nat \<Rightarrow> 'e \<Rightarrow> 'e) \<Rightarrow> nat \<Rightarrow> 'e client_state \<Rightarrow> bool"
  for Z S h sleep where
  session: "Client_session Z S os parse print session w = (w', Inr cl) \<Longrightarrow>
    client_run Z S h sleep 0 (cl, w')"
| uris: "Client_uris Z S print us w = (w', Inr cl) \<Longrightarrow> client_run Z S h sleep 0 (cl, w')"
| request: "client_run Z S h sleep n st \<Longrightarrow>
    request Z S h sleep requestID payload func st = Some (st', x) \<Longrightarrow>
    client_run Z S h sleep (n + 1) st'"
| update: "client_run Z S h sleep n st \<Longrightarrow> Client_update Z S st = (st', Inr b) \<Longrightarrow>
    client_run Z S h sleep n st'"
| addConnection: "client_run Z S h sleep n st \<Longrightarrow> Client_addConnection Z uri st = (st', Inr b) \<Longrightarrow>
    client_run Z S h sleep n st'"
| process: "client_run Z S h sleep n st \<Longrightarrow> Client_process Z h s st = (st', x) \<Longrightarrow>
    client_run Z S h sleep n st'"
| others: "client_run Z S h sleep n (cl, w) \<Longrightarrow> client_run Z S h sleep n (cl, w')"

lemma Client_update_fields:
  "Client_update Z S (cl, w) = ((cl', w'), x) \<Longrightarrow>
   cl_id cl' = cl_id cl \<and> cl_handlers cl' = cl_handlers cl"
  "Client_addConnection Z uri (cl, w) = ((cl', w'), y) \<Longrightarrow>
   cl_id cl' = cl_id cl \<and> cl_handlers cl' = cl_handlers cl"
  by (auto simp: Client_update_def Client_addConnection_def on_cl_net_def Let_def split: prod.splits)

lemma Client_process_fields:
  "Client_process Z h s (cl, w) = ((cl', w'), x) \<Longrightarrow>
   cl_id cl' = cl_id cl \<and> dom (cl_handlers cl') \<subseteq> dom (cl_handlers cl)"
  by (auto simp: Client_process_def Let_def split: prod.splits if_splits option.splits sum.splits)

lemma Client_connect_fields:
  "Client_connect Z print uri (cl, w) = ((cl', w'), x) \<Longrightarrow>
   cl_id cl' = cl_id cl \<and> cl_handlers cl' = cl_handlers cl"
  by (auto simp: Client_connect_def Let_def and_then_def split: prod.splits sum.splits
      dest: Client_update_fields(2))

lemma for_each_connect_fields:
  assumes "for_each f xs (cl, w) = ((cl', w'), x)"
    and "\<And>y cl w cl' w' x. f y (cl, w) = ((cl', w'), x) \<Longrightarrow>
      cl_id cl' = cl_id cl \<and> cl_handlers cl' = cl_handlers cl"
  shows "cl_id cl' = cl_id cl \<and> cl_handlers cl' = cl_handlers cl"
proof -
  have "(\<lambda>st. cl_id (fst st) = cl_id cl \<and> cl_handlers (fst st) = cl_handlers cl)
      (fst (for_each f xs (cl, w)))"
    by (rule for_each_invariant) (use assms(2) in force)+
  with assms(1) show ?thesis by simp
qed

lemma Client_body_fields:
  assumes "Client_body Z S body r w = (w', Inr cl)"
    and "\<And>cl w cl' w' x. body (cl, w) = ((cl', w'), x) \<Longrightarrow>
      cl_id cl' = cl_id cl \<and> cl_handlers cl' = cl_handlers cl"
  shows "cl_id cl = 0 \<and> cl_handlers cl = Map.empty"
  using assms by (fastforce simp: Client_body_def split: prod.splits sum.splits)

lemma Client_new_fields:
  "Client_session Z S os parse print session w = (w', Inr cl) \<Longrightarrow>
   cl_id cl = 0 \<and> cl_handlers cl = Map.empty"
  "Client_uris Z S print us w = (w', Inr cl) \<Longrightarrow> cl_id cl = 0 \<and> cl_handlers cl = Map.empty"
proof -
  have connect: "cl_id cl' = cl_id cl \<and> cl_handlers cl' = cl_handlers cl"
    if "Client_connect_server Z parse print y (cl, w) = ((cl', w'), x) \<or>
        Client_connect_uri Z print u (cl, w) = ((cl', w'), x)" for y u cl w cl' w' x
    using that by (auto simp: Client_connect_server_def Client_connect_uri_def
        dest: Client_connect_fields split: sum.splits if_splits)
  let ?body = "\<lambda>st. case getenv os ''ZEROEQ_SERVERS'' of None \<Rightarrow> (st, Inr ())
      | Some e \<Rightarrow> and_then (for_each (Client_connect_server Z parse print) (server_list (c_str e)) st)
          (\<lambda>_ st1. and_then (Client_update Z S st1) (\<lambda>_ st2. (st2, Inr ())))"
  have body: "cl_id cl' = cl_id cl \<and> cl_handlers cl' = cl_handlers cl"
    if "?body (cl, w) = ((cl', w'), x)" for cl w cl' w' x
  proof (cases "getenv os ''ZEROEQ_SERVERS''")
    case (Some e)
    obtain cl1 w1 y where 1: "for_each (Client_connect_server Z parse print) (server_list (c_str e))
        (cl, w) = ((cl1, w1), y)" by (metis prod.exhaust)
    have k: "cl_id cl1 = cl_id cl \<and> cl_handlers cl1 = cl_handlers cl"
      by (rule for_each_connect_fields [OF 1]) (use connect in blast)
    obtain cl2 w2 z where 2: "Client_update Z S (cl1, w1) = ((cl2, w2), z)" by (metis prod.exhaust)
    show ?thesis
      using that Some 1 2 k Client_update_fields(1) [OF 2] by (cases y; cases z) auto
  qed (use that in simp)
  show "Client_session Z S os parse print session w = (w', Inr cl) \<Longrightarrow>
      cl_id cl = 0 \<and> cl_handlers cl = Map.empty"
    by (auto simp: Client_session_def and_then_Inr_iff dest!: Client_body_fields [OF _ body])
  have uris: "cl_id cl' = cl_id cl \<and> cl_handlers cl' = cl_handlers cl"
    if "for_each (Client_connect_uri Z print) us (cl, w) = ((cl', w'), x)" for cl w cl' w' x
    by (rule for_each_connect_fields [OF that]) (use connect in blast)
  show "Client_uris Z S print us w = (w', Inr cl) \<Longrightarrow>
      cl_id cl = 0 \<and> cl_handlers cl = Map.empty"
    by (auto simp: Client_uris_def split: prod.splits dest!: Client_body_fields [OF _ uris])
qed

lemma client_run_ids:
  assumes "client_run Z S h sleep n st" and "n < 2 ^ 64"
  shows "unat (cl_id (fst st)) = n \<and> (\<forall>i \<in> dom (cl_handlers (fst st)). 0 < unat i \<and> unat i \<le> n)"
  using assms
proof (induction rule: client_run.induct)
  case (request n st requestID payload func st' x)
  then have I: "unat (cl_id (fst st)) = n" "\<forall>i \<in> dom (cl_handlers (fst st)). 0 < unat i \<and> unat i \<le> n"
    by simp_all
  have "request Z S h sleep requestID payload func (fst st, snd st) = Some ((fst st', snd st'), x)"
    using request(2) by simp
  from request_sent [OF this] have r: "cl_id (fst st') = cl_id (fst st) + 1"
    "dom (cl_handlers (fst st')) \<subseteq> insert (cl_id (fst st) + 1) (dom (cl_handlers (fst st)))"
    by auto
  have "unat (cl_id (fst st) + 1) = n + 1"
    using I(1) request.prems by (simp add: unat_word_ariths)
  moreover have "0 < unat i \<and> unat i \<le> n + 1" if i: "i \<in> dom (cl_handlers (fst st'))" for i
  proof (cases "i = cl_id (fst st) + 1")
    case False
    with i r(2) have "i \<in> dom (cl_handlers (fst st))" by blast
    with I(2) show ?thesis by (metis le_add1 order_trans)
  qed (use calculation in simp)
  ultimately show ?case using r(1) by simp
next
  case (update n st st' b)
  then show ?case
    using Client_update_fields(1) [of Z S "fst st" "snd st" "fst st'" "snd st'" "Inr b"] by simp
next
  case (addConnection n st uri st' b)
  then show ?case
    using Client_update_fields(2) [of Z uri "fst st" "snd st" "fst st'" "snd st'" "Inr b"] by simp
next
  case (process n st s st' x)
  then have "Client_process Z h s (fst st, snd st) = ((fst st', snd st'), x)" by simp
  note f = Client_process_fields [OF this]
  from process have "\<forall>i \<in> dom (cl_handlers (fst st)). 0 < unat i \<and> unat i \<le> n"
    "unat (cl_id (fst st)) = n" by simp_all
  with f show ?case by (simp only:) blast
qed (auto dest: Client_new_fields)

text \<open>C8: after \<open>n\<close> requests, successful or not, the id counter of a client is
  \<open>n\<close>, only ids handed out are pending, and the next id is free, as long as the
  64-bit counter has not wrapped: no request takes the place of a pending one.\<close>

theorem client_ids:
  assumes "client_run Z S h sleep n (cl, w)" and "n + 1 < 2 ^ 64"
  shows "unat (cl_id cl) = n \<and> (\<forall>i. cl_handlers cl i \<noteq> None \<longrightarrow> 0 < unat i \<and> unat i \<le> n) \<and>
    cl_handlers cl (cl_id cl + 1) = None"
proof -
  from client_run_ids [OF assms(1)] assms(2) have I: "unat (cl_id cl) = n"
    "\<forall>i \<in> dom (cl_handlers cl). 0 < unat i \<and> unat i \<le> n" by simp_all
  have "unat (cl_id cl + 1) = n + 1" using I(1) assms(2) by (simp add: unat_word_ariths)
  then have "cl_id cl + 1 \<notin> dom (cl_handlers cl)" using I(2) by (metis Suc_eq_plus1 not_less_eq_eq order_refl)
  with I show ?thesis by (auto simp: domIff)
qed

theorem client_ids_witness:
  "\<exists>cl w. client_run sample_zmq sample_servus sample_host (\<lambda>n e. e) 1 (cl, w) \<and>
     unat (cl_id cl) = 1 \<and> cl_handlers cl 1 \<noteq> None \<and> cl_handlers cl 2 = None"
proof -
  obtain w cl where c: "Client_uris sample_zmq sample_servus sample_print [] (sample_world []) = (w, Inr cl)"
    and n: "cl_id cl = 0" "cl_handlers cl = Map.empty"
    by (fastforce simp: Client_uris_def Client_body_def Receiver_plain_def sample_servus_def Let_def)
  let ?r = "request sample_zmq sample_servus sample_host (\<lambda>n e. e) (U128 1 2) None (\<lambda>i d e. (e, Inr ())) (cl, w)"
  have "\<exists>cl' w'. ?r = Some ((cl', w'), Inr True)"
    by (simp add: request_def Let_def Client_send_def loop_unfold send_attempt_def)
  then obtain cl' w' where r: "?r = Some ((cl', w'), Inr True)" by blast
  note run = client_run.request [OF client_run.uris [OF c] r]
  have h: "cl_handlers cl' 1 \<noteq> None"
    using request_sent [OF r] n by simp
  from client_ids [of sample_zmq sample_servus sample_host _ 1 cl' w'] run
  have "unat (cl_id cl') = 1 \<and> cl_handlers cl' (cl_id cl' + 1) = None" by simp
  moreover from this have "cl_id cl' = 1" by (simp add: word_unat_eq_iff)
  ultimately show ?thesis using run h by auto
qed

text \<open>C36: while ZeroMQ keeps asking for another attempt, as it does without any server, a
  request never returns, whatever its arguments.\<close>

theorem request_blocks:
  fixes cl :: "'e client" and w :: "'e zworld"
  assumes "\<And>f (w :: 'e zworld). snd (z_send Z (cl_servers cl) f True w) = Again"
    and "\<And>st. \<not> isl (snd (Client_update Z S st))"
  shows "request Z S h sleep requestID payload func (cl, w) = None"
proof -
  have "loop (send_attempt Z S sleep f) st = None" if st: "cl_servers (fst st) = cl_servers cl" for f and st :: "'e client_state"
  proof (rule ccontr)
    assume "loop (send_attempt Z S sleep f) st \<noteq> None"
    then obtain r where "loop (send_attempt Z S sleep f) st = Some r" by blast
    then have False
    proof (rule loop_invariant [where I = "\<lambda>st. cl_servers (fst st) = cl_servers cl"])
      fix a b assume "cl_servers (fst a) = cl_servers cl" and "send_attempt Z S sleep f a = Inl b"
      then show "cl_servers (fst b) = cl_servers cl"
        using send_attempt_again [of Z S sleep f "fst a" "snd a" "fst b" "snd b"] by simp
    next
      fix a r assume I: "cl_servers (fst a) = cl_servers cl" and "send_attempt Z S sleep f a = Inr r"
      moreover obtain w1 where "z_send Z (cl_servers (fst a)) f True (snd a) = (w1, Again)"
        using I assms(1) [of f "snd a"] by (metis prod.collapse)
      ultimately show False
        using assms(2) [of "(fst a, w1)"]
        by (cases a) (auto simp: send_attempt_def split: sum.splits prod.splits)
    qed (rule st)
    then show False .
  qed
  then show ?thesis by (simp add: request_def Client_send_def Let_def)
qed

theorem request_blocks_witness:
  "request (sample_zmq\<lparr>zmq_msg_send := \<lambda>s f d e. (e, Again)\<rparr>) (sample_servus\<lparr>sv_is_browsing := \<lambda>v e. False\<rparr>)
     sample_host (\<lambda>n e. e) (U128 1 2) None (\<lambda>i d e. (e, Inr ()))
     (\<lparr>cl_net = \<lparr>nr_servus = 1, nr_session = [], nr_sockets = [], nr_entries = [],
       nr_updated = False\<rparr>, cl_servers = 1, cl_handlers = Map.empty, cl_id = 0\<rparr>, sample_world []) = None"
  by (rule request_blocks)
    (auto simp: z_send_def Client_update_def on_cl_net_def net_update_def Let_def split: prod.splits)

end
