(* ===== verification/Receive_Group.thy ===== *)
theory Receive_Group
  imports Zeq_Prelude "HOL-Library.Signed_Division"
begin

text \<open>
  \<^verbatim>\<open>zeroeq/receiver.cpp\<close>: groups of receivers and the loop that polls all their sockets and hands
  each signalled socket to the receiver that supplied it. What a receiver does is a record of
  functions over the state \<open>'s\<close> of the program, and so are \<^verbatim>\<open>zmq_poll\<close> and the clock.
\<close>

section \<open>Groups\<close>

text \<open>
  A receiver points to the group it shares (\<^verbatim>\<open>_impl\<close>, null once it has been moved from), and a
  group lists its receivers.
\<close>

record groups =
  gr_impl :: "nat \<Rightarrow> nat option"
  gr_shared :: "nat \<Rightarrow> nat list"

definition group_add :: "nat \<Rightarrow> nat \<Rightarrow> groups \<Rightarrow> groups" where
  "group_add i r g = g\<lparr>gr_shared := (gr_shared g)(i := gr_shared g i @ [r])\<rparr>"

definition group_remove :: "nat \<Rightarrow> nat \<Rightarrow> groups \<Rightarrow> groups" where
  "group_remove i r g = g\<lparr>gr_shared := (gr_shared g)(i := removeAll r (gr_shared g i))\<rparr>"

text \<open>\<open>i\<close> is the address of the new group of a standalone receiver.\<close>

definition Receiver_new :: "nat \<Rightarrow> nat \<Rightarrow> groups \<Rightarrow> groups" where
  "Receiver_new i r g =
     group_add i r (g\<lparr>gr_impl := (gr_impl g)(r := Some i), gr_shared := (gr_shared g)(i := [])\<rparr>)"

definition Receiver_shared :: "nat \<Rightarrow> nat \<Rightarrow> groups \<Rightarrow> (groups, unit) outcome" where
  "Receiver_shared shared r g =
     (let g1 = g\<lparr>gr_impl := (gr_impl g)(r := gr_impl g shared)\<rparr>
      in case gr_impl g shared of
           None \<Rightarrow> (g1, Inl (Undefined ''null _impl''))
         | Some i \<Rightarrow> (group_add i r g1, Inr ()))"

definition Receiver_delete :: "nat \<Rightarrow> groups \<Rightarrow> (groups, unit) outcome" where
  "Receiver_delete r g =
     (case gr_impl g r of
        None \<Rightarrow> (g, Inl (Undefined ''null _impl''))
      | Some i \<Rightarrow> (let g1 = group_remove i r g in (g1\<lparr>gr_impl := (gr_impl g1)(r := None)\<rparr>, Inr ())))"

text \<open>The defaulted moves move the pointer, and nothing else.\<close>

definition Receiver_move :: "nat \<Rightarrow> nat \<Rightarrow> groups \<Rightarrow> groups" where
  "Receiver_move from r g =
     g\<lparr>gr_impl := ((gr_impl g)(from := None))(r := gr_impl g from)\<rparr>"

section \<open>Receivers, polling and the clock\<close>

record 's members =
  mb_update :: "nat \<Rightarrow> 's \<Rightarrow> ('s, unit) outcome"
  mb_addSockets :: "nat \<Rightarrow> 's \<Rightarrow> sock list \<Rightarrow> sock list"
  mb_process :: "nat \<Rightarrow> sock \<Rightarrow> 's \<Rightarrow> ('s, bool) outcome"

text \<open>
  \<open>po_poll\<close> is given the sockets and a time in milliseconds; it returns the status and, for each
  socket, whether \<^verbatim>\<open>revents & ZMQ_POLLIN\<close>. The clock counts nanoseconds.
\<close>

record 's poller =
  po_poll :: "sock list \<Rightarrow> int \<Rightarrow> 's \<Rightarrow> 's \<times> int \<times> bool list"
  po_now :: "'s \<Rightarrow> 's \<times> int"
  po_error :: "'s \<Rightarrow> string"

definition ms_of :: "int \<Rightarrow> int" where
  "ms_of ns = ns sdiv 1000000"

section \<open>Demultiplexing\<close>

fun gather :: "'s members \<Rightarrow> nat list \<Rightarrow> 's \<Rightarrow> sock list \<Rightarrow> nat list \<Rightarrow> sock list \<times> nat list" where
  "gather M [] s sockets intervals = (sockets, intervals)"
| "gather M (r # rs) s sockets intervals =
     (let before = length sockets;
          sockets' = mb_addSockets M r s sockets
      in gather M rs s sockets' (intervals @ [length sockets' - before]))"

text \<open>
  \<^verbatim>\<open>while (interval == 0 || interval-- == 0)\<close>: moves on to the next receiver while the current one
  has no sockets left, and takes one socket off the current interval otherwise. Running out of
  intervals reads the front of an empty deque.
\<close>

fun skip_empty :: "nat \<Rightarrow> nat \<Rightarrow> nat list \<Rightarrow> (nat \<times> nat \<times> nat list) option" where
  "skip_empty i (Suc n) intervals = Some (i, n, intervals)"
| "skip_empty i 0 [] = None"
| "skip_empty i 0 (n # intervals) = skip_empty (i + 1) n intervals"

fun dispatch ::
  "'s members \<Rightarrow> nat list \<Rightarrow> nat \<Rightarrow> nat \<Rightarrow> nat list \<Rightarrow> (sock \<times> bool) list \<Rightarrow> bool \<Rightarrow> 's \<Rightarrow>
   ('s, bool) outcome" where
  "dispatch M shared i interval intervals [] haveData s = (s, Inr haveData)"
| "dispatch M shared i interval intervals ((socket, pollin) # sockets) haveData s =
     (case skip_empty i interval intervals of
        None \<Rightarrow> (s, Inl (Undefined ''front of an empty deque''))
      | Some (i', interval', intervals') \<Rightarrow>
          if \<not> pollin then dispatch M shared i' interval' intervals' sockets haveData s
          else if length shared \<le> i' then (s, Inl (Undefined ''past the last receiver''))
          else
            and_then (mb_process M (shared ! i') socket s)
              (\<lambda>data s1. dispatch M shared i' interval' intervals' sockets (haveData \<or> data) s1))"

section \<open>Receiving\<close>

text \<open>
  One round of \<^verbatim>\<open>_receive\<close>; its state is the program's, the timeout and \<^verbatim>\<open>hadData\<close>. What is passed
  to \<^verbatim>\<open>zmq_poll\<close> as the remaining time is the time that has passed.
\<close>

definition receive_round ::
  "'s members \<Rightarrow> 's poller \<Rightarrow> nat list \<Rightarrow> int \<Rightarrow> 's \<times> 32 word \<times> bool \<Rightarrow>
   's \<times> 32 word \<times> bool + ('s, bool) outcome" where
  "receive_round M P shared startTime st =
     (let (s, timeout, hadData) = st;
          (sockets, intervals) = gather M shared s [] [];
          (s1, now1) = po_now P s;
          remaining = ms_of (now1 - startTime);
          (s2, status, revents) = po_poll P sockets remaining s1
      in if status = -1 then Inr (s2, Inl (Runtime_error (''Poll error: '' @ po_error P s2)))
         else if status = 0 then Inr (s2, Inr hadData)
         else
           (case intervals of
              [] \<Rightarrow> Inr (s2, Inl (Undefined ''front of an empty deque''))
            | interval # intervals' \<Rightarrow>
                (case dispatch M shared 0 interval intervals' (zip sockets revents) False s2 of
                   (s3, Inl e) \<Rightarrow> Inr (s3, Inl e)
                 | (s3, Inr haveData) \<Rightarrow>
                     let hadData' = (hadData \<or> haveData); timeout' = 0; (s4, now2) = po_now P s3
                     in if \<not> haveData then Inr (s3, Inr hadData')
                        else if ms_of (now2 - startTime) < uint timeout'
                        then Inl (s4, timeout', hadData')
                        else Inr (s4, Inr hadData'))))"

definition receive_once ::
  "'s members \<Rightarrow> 's poller \<Rightarrow> nat list \<Rightarrow> 32 word \<Rightarrow> 's \<Rightarrow> ('s, bool) outcome option" where
  "receive_once M P shared timeout s =
     (let (s1, startTime) = po_now P s
      in loop (receive_round M P shared startTime) (s1, timeout, False))"

definition update_all :: "'s members \<Rightarrow> nat list \<Rightarrow> 's \<Rightarrow> ('s, unit) outcome" where
  "update_all M shared s = for_each (mb_update M) shared s"

definition blocking_round ::
  "'s members \<Rightarrow> 's poller \<Rightarrow> nat list \<Rightarrow> 's \<Rightarrow> 's + ('s, bool) outcome option" where
  "blocking_round M P shared s =
     (case update_all M shared s of
        (s1, Inl e) \<Rightarrow> Inr (Some (s1, Inl e))
      | (s1, Inr _) \<Rightarrow>
          (case receive_once M P shared 1000 s1 of
             None \<Rightarrow> Inr None
           | Some (s2, Inr False) \<Rightarrow> Inl s2
           | Some r \<Rightarrow> Inr (Some r)))"

definition blockingReceive ::
  "'s members \<Rightarrow> 's poller \<Rightarrow> nat list \<Rightarrow> 's \<Rightarrow> ('s, bool) outcome option" where
  "blockingReceive M P shared s = Option.bind (loop (blocking_round M P shared) s) id"

definition TIMEOUT_INDEFINITE :: "32 word" where
  "TIMEOUT_INDEFINITE = - 1"

definition timed_round ::
  "'s members \<Rightarrow> 's poller \<Rightarrow> nat list \<Rightarrow> 32 word \<Rightarrow> int \<Rightarrow> 's \<Rightarrow> 's + ('s, bool) outcome option" where
  "timed_round M P shared timeout startTime s =
     (let block = min 1000 (timeout div 10) in
      case update_all M shared s of
        (s1, Inl e) \<Rightarrow> Inr (Some (s1, Inl e))
      | (s1, Inr _) \<Rightarrow>
          let (s2, endTime) = po_now P s1;
              elapsed = word_of_int ((endTime - startTime) sdiv 1000000);
              wait = (if elapsed < timeout then min (timeout - elapsed) block else 0)
          in (case receive_once M P shared wait s2 of
                None \<Rightarrow> Inr None
              | Some (s3, Inl e) \<Rightarrow> Inr (Some (s3, Inl e))
              | Some (s3, Inr True) \<Rightarrow> Inr (Some (s3, Inr True))
              | Some (s3, Inr False) \<Rightarrow>
                  (if timeout \<le> elapsed then Inr (Some (s3, Inr False)) else Inl s3)))"

definition receive ::
  "'s members \<Rightarrow> 's poller \<Rightarrow> nat list \<Rightarrow> 32 word \<Rightarrow> 's \<Rightarrow> ('s, bool) outcome option" where
  "receive M P shared timeout s =
     (if timeout = TIMEOUT_INDEFINITE then blockingReceive M P shared s
      else
        let (s1, startTime) = po_now P s
        in Option.bind (loop (timed_round M P shared timeout startTime) s1) id)"

text \<open>\<open>receive\<close> of a receiver is that of its group.\<close>

definition Receiver_receive ::
  "'s members \<Rightarrow> 's poller \<Rightarrow> groups \<Rightarrow> nat \<Rightarrow> 32 word \<Rightarrow> 's \<Rightarrow> ('s, bool) outcome option" where
  "Receiver_receive M P g r timeout s =
     (case gr_impl g r of
        None \<Rightarrow> Some (s, Inl (Undefined ''null _impl''))
      | Some i \<Rightarrow> receive M P (gr_shared g i) timeout s)"

section \<open>Groups are consistent\<close>

text \<open>Every receiver is listed exactly once, in the group it points to.\<close>

definition groups_ok :: "groups \<Rightarrow> bool" where
  "groups_ok g \<longleftrightarrow>
     (\<forall>r i. r \<in> set (gr_shared g i) \<longleftrightarrow> gr_impl g r = Some i) \<and> (\<forall>i. distinct (gr_shared g i))"

lemma groups_ok_new:
  "groups_ok g \<Longrightarrow> gr_impl g r = None \<Longrightarrow> gr_shared g i = [] \<Longrightarrow> groups_ok (Receiver_new i r g)"
  by (auto simp: groups_ok_def Receiver_new_def group_add_def split: if_splits)
    (metis list.set_cases list.distinct(1) empty_iff list.set(1))

lemma groups_ok_shared:
  "groups_ok g \<Longrightarrow> gr_impl g r = None \<Longrightarrow> Receiver_shared shared r g = (g', Inr ()) \<Longrightarrow>
   groups_ok g' \<and> gr_impl g' r = gr_impl g shared"
  by (auto simp: groups_ok_def Receiver_shared_def group_add_def Let_def
      split: option.splits if_splits)

lemma groups_ok_delete:
  assumes "groups_ok g" and "Receiver_delete r g = (g', Inr ())"
  shows "groups_ok g' \<and> gr_impl g' r = None \<and> (\<forall>i. r \<notin> set (gr_shared g' i))"
  using assms
  by (auto simp: groups_ok_def Receiver_delete_def group_remove_def Let_def distinct_removeAll
      split: option.splits if_splits)

text \<open>C38: moving a receiver leaves the object moved from in the list of its group, does not
  list the object moved to, and makes the destructor of the object moved from dereference a null
  pointer.\<close>

theorem move_breaks:
  assumes "groups_ok g" and "gr_impl g from = Some i" and "gr_impl g r = None" and "from \<noteq> r"
  shows "from \<in> set (gr_shared (Receiver_move from r g) i) \<and>
    r \<notin> set (gr_shared (Receiver_move from r g) i) \<and>
    snd (Receiver_delete from (Receiver_move from r g)) = Inl (Undefined ''null _impl'')"
  using assms by (auto simp: groups_ok_def Receiver_move_def Receiver_delete_def)

theorem move_breaks_witness:
  "\<exists>g. gr_shared (Receiver_move 1 2 g) 5 = [1] \<and>
     snd (Receiver_delete 1 (Receiver_move 1 2 g)) = Inl (Undefined ''null _impl'')"
proof -
  let ?g = "Receiver_new 5 1 (\<lparr>gr_impl = \<lambda>_. None, gr_shared = \<lambda>_. []\<rparr> :: groups)"
  have "gr_impl ?g 1 = Some 5" "gr_impl ?g 2 = None" "gr_shared ?g 5 = [1]" "groups_ok ?g"
    by (auto simp: Receiver_new_def group_add_def groups_ok_def)
  with move_breaks [of ?g 1 5 2] show ?thesis
    by (intro exI [of _ ?g]) (simp add: Receiver_move_def)
qed

text \<open>Groups as construction and destruction make them.\<close>

inductive groups_reach :: "groups \<Rightarrow> bool" where
  empty: "groups_reach \<lparr>gr_impl = \<lambda>_. None, gr_shared = \<lambda>_. []\<rparr>"
| new: "groups_reach g \<Longrightarrow> gr_impl g r = None \<Longrightarrow> gr_shared g i = [] \<Longrightarrow> groups_reach (Receiver_new i r g)"
| shared: "groups_reach g \<Longrightarrow> gr_impl g r = None \<Longrightarrow> Receiver_shared s r g = (g', Inr ()) \<Longrightarrow>
    groups_reach g'"
| delete: "groups_reach g \<Longrightarrow> Receiver_delete r g = (g', Inr ()) \<Longrightarrow> groups_reach g'"

lemma groups_reach_ok: "groups_reach g \<Longrightarrow> groups_ok g"
  by (induction rule: groups_reach.induct)
    (auto intro: groups_ok_new dest: groups_ok_shared groups_ok_delete
      simp: groups_ok_def [of "\<lparr>gr_impl = _, gr_shared = _\<rparr>"])

section \<open>Every socket goes to the receiver that supplied it\<close>

text \<open>
  The contract of \<^verbatim>\<open>addSockets\<close>: it appends the sockets of its object and touches nothing else.
\<close>

locale socket_supplier =
  fixes addSockets :: "'o \<Rightarrow> sock list \<Rightarrow> sock list"
    and supplied :: "'o \<Rightarrow> sock list"
  assumes appends: "addSockets r entries = entries @ supplied r"
begin

lemma interval: "length (addSockets r entries) - length entries = length (supplied r)"
  by (simp add: appends)

lemma fold_appends:
  "fold addSockets rs entries = entries @ concat (map supplied rs)"
  by (induction rs arbitrary: entries) (simp_all add: appends)

end

definition supplies :: "'s members \<Rightarrow> nat list \<Rightarrow> 's \<Rightarrow> (nat \<Rightarrow> sock list) \<Rightarrow> bool" where
  "supplies M shared s own \<longleftrightarrow>
     (\<forall>r \<in> set shared. \<forall>entries. mb_addSockets M r s entries = entries @ own r)"

lemma gather_supplied:
  "supplies M shared s own \<Longrightarrow>
   gather M shared s sockets intervals =
     (sockets @ concat (map own shared), intervals @ map (\<lambda>r. length (own r)) shared)"
  by (induction shared arbitrary: sockets intervals) (simp_all add: supplies_def Let_def)

text \<open>The receivers the remaining sockets belong to.\<close>

definition owners :: "nat list \<Rightarrow> nat \<Rightarrow> nat \<Rightarrow> nat list \<Rightarrow> nat list" where
  "owners shared i interval intervals =
     replicate interval (shared ! i) @
     concat (map (\<lambda>(n, r). replicate n r) (zip intervals (drop (i + 1) shared)))"

lemma owners_next:
  assumes "i + Suc (length intervals) < length shared"
  shows "owners shared i 0 (n # intervals) = owners shared (i + 1) n intervals"
proof -
  have "drop (i + 1) shared = shared ! (i + 1) # drop (i + 2) shared"
    using assms by (simp add: Cons_nth_drop_Suc)
  then show ?thesis by (simp add: owners_def)
qed

lemma skip_empty_owner:
  assumes "i + length intervals < length shared" and "0 < interval + sum_list intervals"
  shows "\<exists>i' n ivs. skip_empty i interval intervals = Some (i', n, ivs) \<and>
    i' + length ivs < length shared \<and> Suc (n + sum_list ivs) = interval + sum_list intervals \<and>
    owners shared i interval intervals = shared ! i' # owners shared i' n ivs"
  using assms
proof (induction i interval intervals rule: skip_empty.induct)
  case (1 i n intervals)
  then show ?case by (simp add: owners_def)
next
  case (3 i n intervals)
  then have "i + 1 + length intervals < length shared" "0 < n + sum_list intervals" by simp_all
  from "3.IH" [OF this] owners_next [of i intervals shared n] "3.prems" show ?case by simp
qed simp

fun serve :: "'s members \<Rightarrow> (nat \<times> sock \<times> bool) list \<Rightarrow> bool \<Rightarrow> 's \<Rightarrow> ('s, bool) outcome" where
  "serve M [] haveData s = (s, Inr haveData)"
| "serve M ((r, socket, pollin) # rest) haveData s =
     (if \<not> pollin then serve M rest haveData s
      else and_then (mb_process M r socket s) (\<lambda>data s1. serve M rest (haveData \<or> data) s1))"

lemma dispatch_serve_from:
  assumes "i + length intervals < length shared"
    and "length sockets = interval + sum_list intervals"
  shows "dispatch M shared i interval intervals sockets haveData s =
    serve M (zip (owners shared i interval intervals) sockets) haveData s"
  using assms
proof (induction sockets arbitrary: i interval intervals haveData s)
  case Nil
  then show ?case by (simp add: owners_def)
next
  case (Cons x sockets)
  obtain socket pollin where x: "x = (socket, pollin)" by (cases x)
  have "0 < interval + sum_list intervals"
    by (metis Cons.prems(2) length_greater_0_conv list.distinct(1))
  from skip_empty_owner [OF Cons.prems(1) this] obtain i' n ivs where
    k: "skip_empty i interval intervals = Some (i', n, ivs)" "i' + length ivs < length shared"
      "Suc (n + sum_list ivs) = interval + sum_list intervals"
      "owners shared i interval intervals = shared ! i' # owners shared i' n ivs" by auto
  then have len: "length sockets = n + sum_list ivs" using Cons.prems(2) by simp
  have "dispatch M shared i' n ivs sockets =
      (\<lambda>haveData. serve M (zip (owners shared i' n ivs) sockets) haveData)"
    by (intro ext Cons.IH [OF k(2) len])
  with k x show ?case by simp
qed

lemma owners_start:
  assumes "shared \<noteq> []"
  shows "owners shared 0 (hd (map f shared)) (tl (map f shared)) =
    concat (map (\<lambda>r. replicate (f r) r) shared)"
proof -
  obtain r rs where "shared = r # rs" using assms by (cases shared) auto
  moreover have "map (\<lambda>(n, r). replicate n r) (zip (map f rs) rs) = map (\<lambda>r. replicate (f r) r) rs"
    by (induction rs) simp_all
  ultimately show ?thesis by (simp add: owners_def)
qed

lemma zip_owners:
  fixes own :: "nat \<Rightarrow> sock list" and revents :: "bool list"
  shows "zip (concat (map (\<lambda>r. replicate (length (own r)) r) shared)) (zip (concat (map own shared)) revents)
   = map (\<lambda>((r, socket), pollin). (r, socket, pollin))
       (zip (concat (map (\<lambda>r. map (Pair r) (own r)) shared)) revents)"
proof -
  have "concat (map (\<lambda>r. map (Pair r) (own r)) shared) =
      zip (concat (map (\<lambda>r. replicate (length (own r)) r) shared)) (concat (map own shared))"
    by (induction shared) (simp_all add: zip_replicate1 zip_append)
  moreover have "zip xs (zip ys zs) = map (\<lambda>((x, y), z). (x, y, z)) (zip (zip xs ys) zs)"
    for xs :: "nat list" and ys :: "sock list" and zs :: "bool list"
  proof (induction xs ys arbitrary: zs rule: list_induct2')
    case (4 x xs y ys)
    then show ?case by (cases zs) simp_all
  qed simp_all
  ultimately show ?thesis by simp
qed

text \<open>
  The whole dispatch: each signalled socket is processed by its supplier, in the order of the
  group, and the run neither reads past the intervals nor past the receivers.
\<close>

lemma dispatch_serve:
  assumes "shared \<noteq> []" and "supplies M shared s own"
    and "gather M shared s [] [] = (sockets, intervals)"
    and "length revents = length sockets"
  shows "dispatch M shared 0 (hd intervals) (tl intervals) (zip sockets revents) haveData s2 =
    serve M (map (\<lambda>((r, socket), pollin). (r, socket, pollin))
      (zip (concat (map (\<lambda>r. map (Pair r) (own r)) shared)) revents)) haveData s2"
proof -
  let ?n = "\<lambda>r. length (own r)"
  from assms(2,3) have so: "sockets = concat (map own shared)" and iv: "intervals = map ?n shared"
    by (simp_all add: gather_supplied)
  have "length (zip sockets revents) = hd intervals + sum_list (tl intervals)"
    using assms(1,4) so iv by (cases shared) (simp_all add: length_concat comp_def)
  moreover have "0 + length (tl intervals) < length shared"
    using assms(1) iv by (cases shared) simp_all
  ultimately show ?thesis
    using dispatch_serve_from owners_start [OF assms(1), of ?n] zip_owners [of own shared revents]
    by (metis so iv)
qed

section \<open>One poll per call\<close>

text \<open>
  The timeout given to \<^verbatim>\<open>_receive\<close> is never used: \<^verbatim>\<open>zmq_poll\<close> gets the time that has passed,
  and by the time the loop condition is evaluated the timeout has been set to 0.
\<close>

lemma receive_round_timeout:
  "receive_round M P shared startTime (s, timeout, hadData) =
   receive_round M P shared startTime (s, timeout', hadData)"
  by (simp add: receive_round_def Let_def)

text \<open>The timeout that \<^verbatim>\<open>_receive\<close> is given does not matter:
  what it polls with, what it returns and the state it leaves are the same for all
  timeouts.\<close>

lemma receive_once_timeout:
  "receive_once M P shared timeout s = receive_once M P shared timeout' s"
proof -
  have "loop (receive_round M P shared startTime) (s1, timeout, False) =
      loop (receive_round M P shared startTime) (s1, timeout', False)" for startTime s1
    by (simp add: loop.simps [of _ "(s1, timeout, False)"] loop.simps [of _ "(s1, timeout', False)"]
        receive_round_timeout [of M P shared startTime s1 timeout False timeout'])
  then show ?thesis by (simp add: receive_once_def split: prod.splits)
qed

text \<open>
  A clock that does not run backwards: \<open>clk\<close> reads it off the state, and no operation of a
  receiver or of ZeroMQ turns it back.
\<close>

definition steady :: "'s members \<Rightarrow> 's poller \<Rightarrow> ('s \<Rightarrow> int) \<Rightarrow> bool" where
  "steady M P clk \<longleftrightarrow>
     (\<forall>s. snd (po_now P s) = clk (fst (po_now P s)) \<and> clk s \<le> clk (fst (po_now P s))) \<and>
     (\<forall>sockets t s. clk s \<le> clk (fst (po_poll P sockets t s))) \<and>
     (\<forall>r socket s. clk s \<le> clk (fst (mb_process M r socket s))) \<and>
     (\<forall>r s. clk s \<le> clk (fst (mb_update M r s)))"

lemma steadyD:
  assumes "steady M P clk"
  shows "po_now P s = (s', t) \<Longrightarrow> t = clk s' \<and> clk s \<le> clk s'"
    and "po_poll P sockets ms s = (s', x) \<Longrightarrow> clk s \<le> clk s'"
    and "mb_process M r socket s = (s', y) \<Longrightarrow> clk s \<le> clk s'"
    and "mb_update M r s = (s', z) \<Longrightarrow> clk s \<le> clk s'"
  using assms by (metis fst_conv snd_conv steady_def)+

lemma dispatch_steady:
  assumes "steady M P clk"
  shows "dispatch M shared i n ivs sockets haveData s = (s', x) \<Longrightarrow> clk s \<le> clk s'"
proof (induction sockets arbitrary: i n ivs haveData s)
  case (Cons y sockets)
  obtain socket pollin where y: "y = (socket, pollin)" by (cases y)
  show ?case
  proof (cases "skip_empty i n ivs")
    case None
    with Cons.prems y show ?thesis by simp
  next
    case (Some k)
    obtain i' n' ivs' where k: "k = (i', n', ivs')" by (cases k)
    obtain s1 z where p: "mb_process M (shared ! i') socket s = (s1, z)" by (metis prod.exhaust)
    note s1 = steadyD(3) [OF assms p]
    show ?thesis
      using Cons.prems Cons.IH [of i' n' ivs'] s1 p Some k y
      by (cases z) (fastforce split: if_splits)+
  qed
qed simp

lemma sdiv_nonneg: "0 \<le> x \<Longrightarrow> 0 \<le> ms_of x \<and> ms_of x = x div 1000000"
  by (cases "x = 0") (simp_all add: ms_of_def signed_divide_int_def pos_imp_zdiv_nonneg_iff)

text \<open>With such a clock \<^verbatim>\<open>_receive\<close> returns, after exactly one poll.\<close>

lemma receive_round_once:
  assumes "steady M P clk" and "startTime \<le> clk s"
  shows "\<exists>r. receive_round M P shared startTime (s, timeout, hadData) = Inr r"
proof -
  obtain sockets intervals where g: "gather M shared s [] [] = (sockets, intervals)"
    by (metis prod.exhaust)
  obtain s1 now1 where 1: "po_now P s = (s1, now1)" by (metis prod.exhaust)
  obtain s2 status revents where 2: "po_poll P sockets (ms_of (now1 - startTime)) s1 =
      (s2, status, revents)" by (metis prod.exhaust)
  show ?thesis
  proof (cases intervals)
    case Nil
    with g 1 2 show ?thesis by (simp add: receive_round_def)
  next
    case (Cons interval ivs)
    obtain s3 x where 3: "dispatch M shared 0 interval ivs (zip sockets revents) False s2 = (s3, x)"
      by (metis prod.exhaust)
    obtain s4 now2 where 4: "po_now P s3 = (s4, now2)" by (metis prod.exhaust)
    have "startTime \<le> now2"
      using steadyD(1) [OF assms(1) 1] steadyD(2) [OF assms(1) 2] dispatch_steady [OF assms(1) 3]
        steadyD(1) [OF assms(1) 4] assms(2) by linarith
    then have "\<not> ms_of (now2 - startTime) < 0" using sdiv_nonneg [of "now2 - startTime"] by simp
    with g 1 2 3 4 Cons show ?thesis
      by (cases x) (auto simp: receive_round_def Let_def)
  qed
qed

lemma receive_once_returns:
  assumes "steady M P clk" and "po_now P s = (s1, startTime)"
  shows "\<exists>r. receive_round M P shared startTime (s1, timeout, False) = Inr r \<and>
    receive_once M P shared timeout s = Some r"
proof -
  have "startTime \<le> clk s1" using steadyD(1) [OF assms] by simp
  from receive_round_once [OF assms(1) this] obtain r
    where "receive_round M P shared startTime (s1, timeout, False) = Inr r" by blast
  with assms(2) show ?thesis
    by (auto simp: receive_once_def loop_unfold(1))
qed

section \<open>Receiving with a timeout returns\<close>

text \<open>
  \<open>prompt\<close> bounds the time, in nanoseconds, that the parts of one round take, and lets every
  reading of the clock be later than the one before.
\<close>

definition prompt :: "'s members \<Rightarrow> 's poller \<Rightarrow> nat list \<Rightarrow> ('s \<Rightarrow> int) \<Rightarrow> int \<Rightarrow> bool" where
  "prompt M P shared clk D \<longleftrightarrow>
     (\<forall>s. clk s < clk (fst (po_now P (fst (update_all M shared s)))) \<and>
          clk (fst (po_now P (fst (update_all M shared s)))) \<le> clk s + D) \<and>
     (\<forall>t s s' x. receive_once M P shared t s = Some (s', x) \<longrightarrow> clk s \<le> clk s' \<and> clk s' \<le> clk s + D)"

lemma div_less_million: "(d :: int) div 1000000 < k \<longleftrightarrow> d < k * 1000000"
  using mult_div_mod_eq [of 1000000 d] pos_mod_bound [of 1000000 d] pos_mod_sign [of 1000000 d]
  by linarith

lemma prompt_receive:
  "prompt M P shared clk D \<Longrightarrow> receive_once M P shared t s = Some (s', x) \<Longrightarrow>
   clk s \<le> clk s' \<and> clk s' \<le> clk s + D"
  unfolding prompt_def by blast

lemma elapsed_exact:
  assumes "0 \<le> d" and "d < 2 ^ 32 * 1000000"
  shows "uint (word_of_int (d sdiv 1000000) :: 32 word) = d div 1000000"
proof -
  have "d sdiv 1000000 = d div 1000000" "0 \<le> d div 1000000"
    using sdiv_nonneg [OF assms(1)] by (simp_all add: ms_of_def)
  moreover have "d div 1000000 < 2 ^ 32" using assms(2) by (simp add: div_less_million)
  ultimately show ?thesis by (simp add: uint_word_of_int)
qed

lemma timed_round_again:
  assumes round: "timed_round M P shared timeout start s = Inl s'"
    and st: "steady M P clk" and pr: "prompt M P shared clk D"
    and s: "start \<le> clk s" "clk s < start + uint timeout * 1000000 + D"
    and big: "uint timeout * 1000000 + 2 * D < 2 ^ 32 * 1000000"
  shows "clk s < clk s'" and "clk s < start + uint timeout * 1000000"
    and "clk s' < start + uint timeout * 1000000 + D"
proof -
  obtain s1 x where 1: "update_all M shared s = (s1, x)" by (metis prod.exhaust)
  obtain s2 now where 2: "po_now P s1 = (s2, now)" by (metis prod.exhaust)
  let ?e = "word_of_int ((now - start) sdiv 1000000) :: 32 word"
  let ?w = "if ?e < timeout then min (timeout - ?e) (min 1000 (timeout div 10)) else 0"
  have s2: "clk s < clk s2" "clk s2 \<le> clk s + D" and now: "now = clk s2"
    using pr 1 2 steadyD(1) [OF st 2] by (auto simp: prompt_def dest: spec [of _ s])
  from round 1 2 have rec: "receive_once M P shared ?w s2 = Some (s', Inr False)" and "?e < timeout"
    by (auto simp: timed_round_def Let_def not_le
        split: sum.splits option.splits prod.splits if_splits bool.splits)
  then have "uint ?e < uint timeout" by (simp add: word_less_def)
  moreover have "uint ?e = (now - start) div 1000000"
    using s s2 now big by (intro elapsed_exact) auto
  ultimately have "(now - start) div 1000000 < uint timeout" by simp
  then have n: "now < start + uint timeout * 1000000" by (simp add: div_less_million)
  moreover have "clk s2 \<le> clk s'" "clk s' \<le> clk s2 + D"
    using prompt_receive [OF pr rec] by simp_all
  ultimately show "clk s < clk s'" "clk s < start + uint timeout * 1000000"
    "clk s' < start + uint timeout * 1000000 + D"
    using s2 now by linarith+
qed

text \<open>C10: \<^verbatim>\<open>receive\<close> with a timeout returns, for every group and
  whatever arrives, provided the clock is steady, every part of a round takes at most
  \<open>D\<close>, and the timeout and two such parts fit the 32-bit milliseconds.\<close>

theorem receive_returns:
  assumes st: "steady M P clk" and pr: "prompt M P shared clk D" and "0 < D"
    and big: "uint timeout * 1000000 + 2 * D < 2 ^ 32 * 1000000"
    and finite: "timeout \<noteq> TIMEOUT_INDEFINITE"
  shows "\<exists>r. receive M P shared timeout s = Some r"
proof -
  obtain s1 start where 1: "po_now P s = (s1, start)" by (metis prod.exhaust)
  let ?body = "timed_round M P shared timeout start"
  let ?stop = "start + uint timeout * 1000000"
  let ?I = "\<lambda>s. start \<le> clk s \<and> clk s < ?stop + D"
  have "\<exists>r. loop ?body s1 = Some r"
  proof (rule loop_terminates [where R = "measure (\<lambda>s. nat (?stop - clk s))" and I = ?I])
    show "?I s1" using steadyD(1) [OF st 1] \<open>0 < D\<close> by (simp add: add_nonneg_pos)
  next
    fix a b assume I: "?I a" and step: "?body a = Inl b"
    then show "?I b \<and> (b, a) \<in> measure (\<lambda>s. nat (?stop - clk s))"
      using timed_round_again [OF step st pr _ _ big] by auto
  qed simp
  then obtain r where r: "loop ?body s1 = Some r" by blast
  have "r \<noteq> None"
  proof (rule loop_invariant [OF r, where I = "\<lambda>_. True"])
    fix a q assume q: "?body a = Inr q"
    obtain u x where 2: "update_all M shared a = (u, x)" by (metis prod.exhaust)
    obtain v t where 3: "po_now P u = (v, t)" by (metis prod.exhaust)
    let ?e = "word_of_int ((t - start) sdiv 1000000) :: 32 word"
    let ?w = "if ?e < timeout then min (timeout - ?e) (min 1000 (timeout div 10)) else 0"
    obtain s3 y where 4: "receive_once M P shared ?w v = Some (s3, y)"
      using receive_once_returns [OF st] by (metis prod.exhaust)
    show "q \<noteq> None"
      using q 2 3 4 by (cases x; cases y)
        (auto simp: timed_round_def Let_def split: if_splits bool.splits, metis+)
  qed simp_all
  with r 1 finite show ?thesis by (auto simp: receive_def)
qed

theorem receive_returns_witness:
  "\<exists>r. receive \<lparr>mb_update = \<lambda>_ s. (s, Inr ()), mb_addSockets = \<lambda>_ _ e. e,
       mb_process = \<lambda>_ _ s. (s, Inr False)\<rparr>
     \<lparr>po_poll = \<lambda>_ _ s. (s + 1, 0, []), po_now = \<lambda>s. (s + 1, s + 1), po_error = \<lambda>_. []\<rparr>
     [] 50 (0 :: int) = Some r"
proof -
  let ?M = "\<lparr>mb_update = \<lambda>_ s. (s, Inr ()), mb_addSockets = \<lambda>_ _ e. e,
       mb_process = \<lambda>_ _ s. (s, Inr False)\<rparr> :: int members"
  let ?P = "\<lparr>po_poll = \<lambda>_ _ s. (s + 1, 0, []), po_now = \<lambda>s. (s + 1, s + 1), po_error = \<lambda>_. []\<rparr> :: int poller"
  have st: "steady ?M ?P id" by (simp add: steady_def)
  have "receive_once ?M ?P [] t s = Some (s + 3, Inr False)" for t s
    by (simp add: receive_once_def loop_unfold receive_round_def)
  then have pr: "prompt ?M ?P [] id 3"
    by (simp add: prompt_def update_all_def)
  show ?thesis
    by (rule receive_returns [OF st pr]) (simp_all add: TIMEOUT_INDEFINITE_def)
qed

end
