(* ===== verification/Monitor.thy ===== *)
theory Monitor
  imports Sender Subscriber
begin

text \<open>
  \<^verbatim>\<open>zeroeq/monitor.cpp\<close>: notification of new connections on a sender. On a publisher the monitor
  reads the subscriptions that arrive on the XPUB socket and waits for the Meerkat topic; on any
  other sender it reads ZeroMQ's socket events over an inproc PAIR socket.
\<close>

record monitor =
  mon_xpub :: bool
  mon_socket :: sock

type_synonym 'e monitor_state = "monitor \<times> 'e zworld"
type_synonym 'e notify = "'e \<Rightarrow> 'e \<times> (exn + unit)"

definition XPub_create :: "'e zmq \<Rightarrow> sender \<Rightarrow> 'e zworld \<Rightarrow> ('e zworld, monitor) outcome" where
  "XPub_create Z sn w =
     (let (w1, ok) = z_setsockopt Z (sn_socket sn) (ZMQ_XPUB_VERBOSE True) w
      in if \<not> ok
         then (w1, Inl (Runtime_error (''Enabling ZMQ_XPUB_VERBOSE failed: '' @ z_strerror Z w1)))
         else (w1, Inr \<lparr>mon_xpub = True, mon_socket = sn_socket sn\<rparr>))"

text \<open>\<open>uuid\<close> is the fresh identifier of \<^verbatim>\<open>servus::make_UUID()\<close>.\<close>

definition Socket_create ::
  "'e zmq \<Rightarrow> 'e servus \<Rightarrow> uint128 \<Rightarrow> sender \<Rightarrow> 'e zworld \<Rightarrow> ('e zworld, monitor) outcome" where
  "Socket_create Z S uuid sn w =
     (let inproc = ''inproc://zeroeq.monitor.'' @ sv_show_uint128 S uuid;
          (w1, ok) = z_monitor Z (sn_socket sn) inproc w
      in if \<not> ok
         then (w1, Inl (Runtime_error (''Cannot monitor socket: '' @ z_strerror Z w1)))
         else
           let (w2, s) = z_socket Z ZMQ_PAIR w1
           in if s = 0
              then (z_close Z s w2,
                    Inl (Runtime_error (''Cannot create inproc socket: '' @ z_strerror Z w2)))
              else
                let (w3, connected) = z_connect Z s inproc w2
                in if \<not> connected
                   then (z_close Z s w3,
                         Inl (Runtime_error (''Cannot connect inproc socket: '' @ z_strerror Z w3)))
                   else (w3, Inr \<lparr>mon_xpub = False, mon_socket = s\<rparr>))"

text \<open>\<^verbatim>\<open>newImpl\<close>: \<open>is_publisher\<close> is the outcome of the \<^verbatim>\<open>dynamic_cast\<close>.\<close>

definition Monitor_create ::
  "'e zmq \<Rightarrow> 'e servus \<Rightarrow> uint128 \<Rightarrow> bool \<Rightarrow> sender \<Rightarrow> 'e zworld \<Rightarrow> ('e zworld, monitor) outcome" where
  "Monitor_create Z S uuid is_publisher sn w =
     (if is_publisher then XPub_create Z sn w else Socket_create Z S uuid sn w)"

definition Monitor_destroy :: "'e zmq \<Rightarrow> bool \<Rightarrow> 'e monitor_state \<Rightarrow> 'e zworld" where
  "Monitor_destroy Z shared st =
     (let (mon, w) = st;
          w1 = (if mon_xpub mon
                then fst (z_setsockopt Z (mon_socket mon) (ZMQ_XPUB_VERBOSE False) w) else w)
      in if shared then w1 else z_close Z (mon_socket mon) w1)"

definition Monitor_addSockets :: "monitor \<Rightarrow> sock list \<Rightarrow> sock list" where
  "Monitor_addSockets mon entries = entries @ [mon_socket mon]"

definition notify_connection ::
  "'e notify \<Rightarrow> 'e zworld \<Rightarrow> ('e zworld, bool) outcome" where
  "notify_connection notify w =
     (case run_callback On_connection (\<lambda>_. notify) None w of
        (w1, Inl e) \<Rightarrow> (w1, Inl e)
      | (w1, Inr _) \<Rightarrow> (w1, Inr True))"

text \<open>A subscription message is one byte, 1 to subscribe and 0 to unsubscribe, and the topic.\<close>

definition XPub_process ::
  "'e zmq \<Rightarrow> 'e servus \<Rightarrow> host \<Rightarrow> 'e notify \<Rightarrow> sock \<Rightarrow> 'e zworld \<Rightarrow> ('e zworld, bool) outcome" where
  "XPub_process Z S h notify socket w =
     (case z_recv Z socket False w of
        (w1, None) \<Rightarrow> (w1, Inr False)
      | (w1, Some ([], _)) \<Rightarrow> (w1, Inl (Undefined ''first byte of an empty message''))
      | (w1, Some (b # topic, _)) \<Rightarrow>
          if b = 1 \<and> length (b # topic) = 1 + 16 \<and> load128 h topic = MEERKAT S
          then notify_connection notify w1
          else (w1, Inr False))"

definition load16 :: "host \<Rightarrow> bytes \<Rightarrow> 16 word" where
  "load16 h bs = word_of_nat (le_value (if big_endian h then rev (take 2 bs) else take 2 bs))"

definition ZMQ_EVENT_CONNECTED :: "16 word" where "ZMQ_EVENT_CONNECTED = 1"
definition ZMQ_EVENT_ACCEPTED :: "16 word" where "ZMQ_EVENT_ACCEPTED = 32"

definition Socket_process ::
  "'e zmq \<Rightarrow> host \<Rightarrow> 'e notify \<Rightarrow> sock \<Rightarrow> 'e zworld \<Rightarrow> ('e zworld, bool) outcome" where
  "Socket_process Z h notify socket w =
     (case z_recv Z socket False w of
        (w1, None) \<Rightarrow> (w1, Inr False)
      | (w1, Some (data, follows)) \<Rightarrow>
          if length data < 2 then (w1, Inl (Undefined ''event id past the end of the message''))
          else
            let event = load16 h data;
                w2 = (if follows then fst (z_recv Z socket False w1) else w1)
            in if event = ZMQ_EVENT_CONNECTED \<or> event = ZMQ_EVENT_ACCEPTED
               then notify_connection notify w2
               else (w2, Inr False))"

definition Monitor_process ::
  "'e zmq \<Rightarrow> 'e servus \<Rightarrow> host \<Rightarrow> 'e notify \<Rightarrow> sock \<Rightarrow> 'e monitor_state \<Rightarrow>
   ('e monitor_state, bool) outcome" where
  "Monitor_process Z S h notify socket st =
     (let (mon, w) = st;
          (w1, x) = (if mon_xpub mon then XPub_process Z S h notify socket w
                     else Socket_process Z h notify socket w)
      in ((mon, w1), x))"

section \<open>Subscribers announce themselves\<close>

text \<open>What ZeroMQ hands an XPUB socket for a subscription to a topic.\<close>

definition subscription_message :: "bytes \<Rightarrow> bytes" where
  "subscription_message topic = 1 # topic"

text \<open>
  The monitor of a publisher on host \<open>h'\<close> is notified of the Meerkat subscription of a subscriber
  on host \<open>h\<close> exactly when both lay the identifier out alike, and of no event subscription.
\<close>

lemma XPub_process_subscription:
  assumes "z_recv Z s False w = (w1, Some (subscription_message (mem128 h k), follows))"
    and "big_endian h = big_endian h'" and "high_first h = high_first h'"
  shows "XPub_process Z S h' notify s w =
    (if k = MEERKAT S then notify_connection notify w1 else (w1, Inr False))"
proof -
  have "mem128 h k = mem128 h' k"
    using assms(2,3) by (simp add: mem128_def mem64_def)
  with assms(1) show ?thesis by (simp add: XPub_process_def subscription_message_def)
qed

lemma XPub_process_unsubscribe:
  assumes "z_recv Z s False w = (w1, Some (0 # topic, follows))"
  shows "XPub_process Z S h notify s w = (w1, Inr False)"
  using assms by (simp add: XPub_process_def)

lemma notify_connection_callbacks:
  "notify_connection notify w = (w', x) \<Longrightarrow>
   callbacks (trace w') = callbacks (trace w) @ [(On_connection, None)]"
  by (auto simp: notify_connection_def dest!: trace_run_callbackD split: prod.splits sum.splits)

text \<open>\<open>process\<close> reports an event to the application exactly when it notified it.\<close>

text \<open>\<^verbatim>\<open>process\<close> of a monitor returns true exactly when it has
  notified the application of a connection, which it does at most once, and it leaves the monitor
  as it is.\<close>

lemma Monitor_process_notifies:
  assumes "Monitor_process Z S h notify s (mon, w) = ((mon', w'), Inr b)"
  shows "mon' = mon \<and> callbacks (trace w') =
    callbacks (trace w) @ (if b then [(On_connection, None)] else [])"
proof -
  have n: "notify_connection notify v = (v', Inr c) \<Longrightarrow>
      c \<and> callbacks (trace v') = callbacks (trace v) @ [(On_connection, None)]" for v v' c
    using notify_connection_callbacks [of notify v v' "Inr c"]
    by (auto simp: notify_connection_def split: prod.splits sum.splits)
  have r: "callbacks (trace (fst (z_recv Z s False v))) = callbacks (trace v)" for v :: "'a zworld"
    by simp
  show ?thesis
    using assms r [of w] trace_callsD(7) [of Z s False w]
    by (auto simp: Monitor_process_def XPub_process_def Socket_process_def Let_def
        dest!: n split: prod.splits option.splits if_splits list.splits)
qed

text \<open>A monitor that cannot be constructed leaves no socket of its own open.\<close>

lemma Socket_create_throws:
  assumes "Socket_create Z S uuid sn w = (w', Inl e)" and "0 < s" and "s \<notin> open_socks (trace w)"
  shows "s \<notin> open_socks (trace w')"
  using assms
  by (auto simp: Socket_create_def Let_def open_socks_append dest!: trace_callsD split: prod.splits if_splits)

end
