(* ===== verification/Broker.thy ===== *)
theory Broker
  imports Sender
begin

text \<open>
  \<^verbatim>\<open>zeroeq/connection/broker.cpp\<close> and \<^verbatim>\<open>zeroeq/connection/service.cpp\<close>: a subscriber asks a broker
  to connect one of its receivers to a publisher. The request is the publisher's address; the
  broker connects its receiver to it and echoes it.
\<close>

datatype port_selection = PORT_FIXED | PORT_FIXED_OR_RANDOM

section \<open>Construction\<close>

text \<open>A failed \<^verbatim>\<open>_listen\<close> throws if the port is fixed, and is \<open>False\<close> otherwise.\<close>

definition Broker_listen ::
  "'e zmq \<Rightarrow> (servus_uri \<Rightarrow> string) \<Rightarrow> port_selection \<Rightarrow> sender \<Rightarrow> 'e zworld \<Rightarrow>
   ('e zworld, bool) outcome" where
  "Broker_listen Z print mode sn w =
     (let address = print (sn_uri sn) @ (if uri_port (sn_uri sn) \<noteq> 0 then [] else '':0'');
          (w1, ok) = z_bind Z (sn_socket sn) address w
      in if \<not> ok
         then if mode = PORT_FIXED
              then (w1, Inl (Runtime_error
                     (''Cannot connect broker to '' @ address @ '': '' @ z_strerror Z w1)))
              else (w1, Inr False)
         else (w1, Inr True))"

definition Broker_finish ::
  "'e zmq \<Rightarrow> os \<Rightarrow> sender \<Rightarrow> ('e zworld, sender) outcome \<Rightarrow> ('e zworld, sender) outcome" where
  "Broker_finish Z os sn r =
     (case r of
        (w, Inl e) \<Rightarrow> (Sender_destroy Z False sn w, Inl e)
      | (w, Inr sn1) \<Rightarrow>
          (case initURI Z os sn1 w of
             Inl e \<Rightarrow> (Sender_destroy Z False sn w, Inl e)
           | Inr sn2 \<Rightarrow> (w, Inr sn2)))"

definition broker_uri :: "'e servus \<Rightarrow> string \<Rightarrow> string" where
  "broker_uri S name = ''tcp://*:'' @ decimal (unat (getPort (sv_make_uint128 S) name))"

definition Broker_create ::
  "'e zmq \<Rightarrow> 'e servus \<Rightarrow> os \<Rightarrow> uri_parser \<Rightarrow> (servus_uri \<Rightarrow> string) \<Rightarrow> string \<Rightarrow> port_selection \<Rightarrow>
   'e zworld \<Rightarrow> ('e zworld, sender) outcome" where
  "Broker_create Z S os parse print name mode w =
     (case URI_string parse (broker_uri S name) of
        Inl e \<Rightarrow> (w, Inl e)
      | Inr uri \<Rightarrow>
          let (w1, sn) = Sender_create_plain Z S uri ZMQ_REP w
          in Broker_finish Z os sn
               (and_then (Broker_listen Z print mode sn w1)
                  (\<lambda>ok w2.
                     if ok then (w2, Inr sn)
                     else
                       (case URI_cstring parse ''tcp://*:0'' of
                          Inl e \<Rightarrow> (w2, Inl e)
                        | Inr uri0 \<Rightarrow>
                            let sn0 = sn\<lparr>sn_uri := uri0\<rparr>
                            in and_then (Broker_listen Z print PORT_FIXED sn0 w2)
                                 (\<lambda>_ w3. (w3, Inr sn0))))))"

definition Broker_create_address ::
  "'e zmq \<Rightarrow> 'e servus \<Rightarrow> os \<Rightarrow> uri_parser \<Rightarrow> (servus_uri \<Rightarrow> string) \<Rightarrow> string \<Rightarrow>
   'e zworld \<Rightarrow> ('e zworld, sender) outcome" where
  "Broker_create_address Z S os parse print address w =
     (case URI_string parse (''tcp://'' @ address) of
        Inl e \<Rightarrow> (w, Inl e)
      | Inr uri \<Rightarrow>
          let (w1, sn) = Sender_create_plain Z S uri ZMQ_REP w
          in Broker_finish Z os sn
               (and_then (Broker_listen Z print PORT_FIXED sn w1) (\<lambda>_ w2. (w2, Inr sn))))"

definition Broker_addSockets :: "sender \<Rightarrow> sock list \<Rightarrow> sock list" where
  "Broker_addSockets sn entries =
     (if sn_socket sn = 0 then entries else entries @ [sn_socket sn])"

definition Broker_getAddress :: "sender \<Rightarrow> string" where
  "Broker_getAddress sn = getAddress sn"

definition Broker_destroy :: "'e zmq \<Rightarrow> sender \<Rightarrow> 'e zworld \<Rightarrow> 'e zworld" where
  "Broker_destroy Z sn w = Sender_destroy Z False sn w"

section \<open>Requests\<close>

text \<open>
  \<open>addConnection\<close> is that of the receiver the broker serves. The results of receiving and of
  sending are not checked; the message that was received is sent back.
\<close>

definition Broker_process ::
  "'e zmq \<Rightarrow> (string \<Rightarrow> 's \<times> 'e zworld \<Rightarrow> ('s \<times> 'e zworld, unit) outcome) \<Rightarrow> sock \<Rightarrow>
   's \<times> 'e zworld \<Rightarrow> ('s \<times> 'e zworld, bool) outcome" where
  "Broker_process Z addConnection socket st =
     (let (r, w) = st;
          (w1, msg) = z_recv Z socket False w;
          data = (case msg of None \<Rightarrow> [] | Some f \<Rightarrow> fst f);
          address = string_of_bytes data
      in and_then (addConnection (''tcp://'' @ address) (r, w1))
           (\<lambda>_ (r2, w2). ((r2, fst (z_send Z socket (data, False) False w2)), Inr True)))"

section \<open>The client side\<close>

text \<open>The socket is closed when connecting fails and at the end, and on no other path.\<close>

definition Service_subscribe ::
  "'e zmq \<Rightarrow> string \<Rightarrow> sender \<Rightarrow> 'e zworld \<Rightarrow> 'e zworld \<times> bool" where
  "Service_subscribe Z address publisher w =
     (let (w1, socket) = z_socket Z ZMQ_REQ w
      in if socket = 0 then (w1, False)
         else
           let (w2, ok) = z_connect Z socket (''tcp://'' @ address) w1
           in if \<not> ok then (z_close Z socket w2, False)
              else
                let pubAddress = getAddress publisher;
                    (w3, ret) = z_send Z socket (bytes_of_string pubAddress, False) False w2
                in if ret \<noteq> Sent then (w3, False)
                   else
                     (case z_recv Z socket False w3 of
                        (w4, None) \<Rightarrow> (w4, False)
                      | (w4, Some (reply, _)) \<Rightarrow>
                          (z_close Z socket w4, pubAddress = string_of_bytes reply)))"

definition Service_subscribe_name ::
  "'e zmq \<Rightarrow> 'e servus \<Rightarrow> string \<Rightarrow> string \<Rightarrow> sender \<Rightarrow> 'e zworld \<Rightarrow> 'e zworld \<times> bool" where
  "Service_subscribe_name Z S hostname name publisher w =
     Service_subscribe Z
       (hostname @ '':'' @ decimal (unat (getPort (sv_make_uint128 S) name))) publisher w"

section \<open>Lemmas\<close>

text \<open>A subscription through a broker that succeeds has sent the publisher's address to the broker and
  nothing else, has received the same text back, and has closed its socket.\<close>

lemma Service_subscribe_True:
  assumes "Service_subscribe Z address publisher w = (w', True)"
  shows "\<exists>s reply follows. s \<noteq> 0 \<and> string_of_bytes reply = getAddress publisher \<and>
    trace w' = trace w @ [Call_socket ZMQ_REQ s, Call_connect s (''tcp://'' @ address) True,
      Call_send s (bytes_of_string (getAddress publisher), False) Sent,
      Call_recv s (Some (reply, follows)), Call_close s]"
  using assms
  by (auto simp: Service_subscribe_def Let_def dest!: trace_callsD
      split: prod.splits if_splits option.splits)

text \<open>C40: when the request cannot be sent or no reply is received,
  \<^verbatim>\<open>subscribe\<close> returns false and its socket stays open.\<close>

theorem Service_subscribe_leaks:
  assumes "z_socket Z ZMQ_REQ w = (w1, s)" and "s \<noteq> 0"
    and "z_connect Z s (''tcp://'' @ address) w1 = (w2, True)"
    and "z_send Z s (bytes_of_string (getAddress publisher), False) False w2 = (w3, r)"
    and "r \<noteq> Sent \<or> z_recv Z s False w3 = (w4, None)"
    and "Service_subscribe Z address publisher w = (w', b)"
  shows "\<not> b \<and> s \<in> open_socks (trace w')"
  using assms
  by (auto simp: Service_subscribe_def Let_def open_socks_append dest!: trace_callsD
      split: prod.splits if_splits option.splits)

theorem Service_subscribe_leaks_witness:
  "\<exists>w w' b. Service_subscribe broken_zmq ''broker:1'' sample_sender w = (w', b) \<and> \<not> b \<and>
     1 \<in> open_socks (trace w')"
proof -
  let ?w = "sample_world []"
  obtain w1 where 1: "z_socket broken_zmq ZMQ_REQ ?w = (w1, 1)"
    by (simp add: z_socket_def broken_zmq_def sample_zmq_def sample_world_def)
  obtain w2 where 2: "z_connect broken_zmq 1 (''tcp://'' @ ''broker:1'') w1 = (w2, True)"
    by (simp add: z_connect_def broken_zmq_def sample_zmq_def)
  obtain w3 where 3: "z_send broken_zmq 1 (bytes_of_string (getAddress sample_sender), False) False w2 = (w3, Send_failed)"
    by (simp add: z_send_def broken_zmq_def)
  obtain w' b where s: "Service_subscribe broken_zmq ''broker:1'' sample_sender ?w = (w', b)"
    by (metis prod.exhaust)
  from Service_subscribe_leaks [OF 1 _ 2 3 _ s] s show ?thesis by fastforce
qed

lemma Broker_process_echo:
  assumes "z_recv Z s False w = (w1, Some (bytes_of_string address, follows))"
    and "addConnection (''tcp://'' @ address) (r, w1) = ((r2, w2), Inr ())"
    and "z_send Z s (bytes_of_string address, False) False w2 = (w3, status)"
  shows "Broker_process Z addConnection s (r, w) = ((r2, w3), Inr True)"
    and "trace w3 = trace w2 @ [Call_send s (bytes_of_string address, False) status]"
  using assms trace_callsD(6) [OF assms(3)] by (simp_all add: Broker_process_def)

text \<open>
  The ports agree: a service that subscribes by name reaches the port a broker of that name
  listens on.
\<close>

lemma broker_port:
  "CHR '':'' \<notin> set hostname \<Longrightarrow>
   substr_after (hostname @ '':'' @ decimal (unat (getPort m name)))
     (find_char CHR '':'' (hostname @ '':'' @ decimal (unat (getPort m name)))) =
   decimal (unat (getPort m name))"
  by (simp add: find_char_append_notin substr_after_def)

text \<open>A broker that was constructed is bound, to the fixed port or, if allowed, to another.\<close>

lemma Broker_listen_bound:
  "Broker_listen Z print mode sn w = (w', Inr ok) \<Longrightarrow>
   trace w' = trace w @ [Call_bind (sn_socket sn)
     (print (sn_uri sn) @ (if uri_port (sn_uri sn) \<noteq> 0 then [] else '':0'')) ok] \<and>
   (ok \<or> mode = PORT_FIXED_OR_RANDOM)"
  by (cases mode) (auto simp: Broker_listen_def Let_def dest!: trace_callsD split: prod.splits if_splits)

lemma Broker_create_bound:
  assumes "Broker_create Z S os parse print name mode w = (w', Inr sn)"
  shows "\<exists>address. Call_bind (sn_socket sn) address True \<in> set (trace w')"
proof -
  from assms obtain uri w1 s0 w2 sn1 where
    c: "Sender_create_plain Z S uri ZMQ_REP w = (w1, s0)"
    and l: "and_then (Broker_listen Z print mode s0 w1)
        (\<lambda>ok w2. if ok then (w2, Inr s0)
           else (case URI_cstring parse ''tcp://*:0'' of Inl e \<Rightarrow> (w2, Inl e)
                 | Inr uri0 \<Rightarrow> let sn0 = s0\<lparr>sn_uri := uri0\<rparr>
                     in and_then (Broker_listen Z print PORT_FIXED sn0 w2) (\<lambda>_ w3. (w3, Inr sn0))))
      = (w', Inr sn1)"
    and i: "initURI Z os sn1 w' = Inr sn"
    by (auto simp: Broker_create_def Broker_finish_def split: sum.splits prod.splits)
  have "\<exists>address. Call_bind (sn_socket sn1) address True \<in> set (trace w')"
    using l by (auto simp: and_then_Inr_iff Let_def dest!: Broker_listen_bound
        split: if_splits sum.splits)
  with initURI_socket [OF i] show ?thesis by simp
qed

end
