(* ===== verification/Http_Types.thy ===== *)
theory Http_Types
  imports Common
begin

text \<open>
  \<^verbatim>\<open>http/request.h\<close>, \<^verbatim>\<open>http/response.h\<close>, \<^verbatim>\<open>http/types.h\<close>, \<^verbatim>\<open>http/helpers.h\<close> and the \<^verbatim>\<open>Message\<close> of
  \<^verbatim>\<open>http/requestHandler.h\<close>: methods, headers, codes, requests, responses and the message that
  passes between the thread of the HTTP library and the server.
\<close>

datatype http_method = GET | POST | PUT | PATCH | DELETE | OPTIONS | ALL_METHODS

definition method_index :: "http_method \<Rightarrow> nat" where
  "method_index m =
     (case m of GET \<Rightarrow> 0 | POST \<Rightarrow> 1 | PUT \<Rightarrow> 2 | PATCH \<Rightarrow> 3 | DELETE \<Rightarrow> 4 | OPTIONS \<Rightarrow> 5 | ALL_METHODS \<Rightarrow> 6)"

datatype header = ALLOW | CONTENT_TYPE | LAST_MODIFIED | LOCATION | RETRY_AFTER

definition header_index :: "header \<Rightarrow> nat" where
  "header_index h =
     (case h of ALLOW \<Rightarrow> 0 | CONTENT_TYPE \<Rightarrow> 1 | LAST_MODIFIED \<Rightarrow> 2 | LOCATION \<Rightarrow> 3
      | RETRY_AFTER \<Rightarrow> 4)"

lemma header_index_inj: "header_index x = header_index y \<Longrightarrow> x = y"
  by (cases x; cases y) (simp_all add: header_index_def)

text \<open>Headers are the keys of ordered maps.\<close>

instantiation header :: linorder
begin

definition less_header :: "header \<Rightarrow> header \<Rightarrow> bool" where
  "less_header x y \<longleftrightarrow> header_index x < header_index y"

definition less_eq_header :: "header \<Rightarrow> header \<Rightarrow> bool" where
  "less_eq_header x y \<longleftrightarrow> header_index x \<le> header_index y"

instance
  by standard (auto simp: less_header_def less_eq_header_def intro: header_index_inj)

end

datatype cors_header =
  access_control_allow_headers | access_control_allow_methods | access_control_allow_origin

definition cors_index :: "cors_header \<Rightarrow> nat" where
  "cors_index c =
     (case c of access_control_allow_headers \<Rightarrow> 0 | access_control_allow_methods \<Rightarrow> 1
      | access_control_allow_origin \<Rightarrow> 2)"

lemma cors_index_inj: "cors_index x = cors_index y \<Longrightarrow> x = y"
  by (cases x; cases y) (simp_all add: cors_index_def)

instantiation cors_header :: linorder
begin

definition less_cors_header :: "cors_header \<Rightarrow> cors_header \<Rightarrow> bool" where
  "less_cors_header x y \<longleftrightarrow> cors_index x < cors_index y"

definition less_eq_cors_header :: "cors_header \<Rightarrow> cors_header \<Rightarrow> bool" where
  "less_eq_cors_header x y \<longleftrightarrow> cors_index x \<le> cors_index y"

instance
  by standard (auto simp: less_cors_header_def less_eq_cors_header_def intro: cors_index_inj)

end

datatype code =
    OK | CREATED | ACCEPTED | NO_CONTENT | PARTIAL_CONTENT
  | MULTIPLE_CHOICES | MOVED_PERMANENTLY | MOVED_TEMPORARILY | NOT_MODIFIED
  | BAD_REQUEST | UNAUTHORIZED | FORBIDDEN | NOT_FOUND | NOT_SUPPORTED | NOT_ACCEPTABLE
  | REQUEST_TIMEOUT | PRECONDITION_FAILED | UNSATISFIABLE_RANGE
  | INTERNAL_SERVER_ERROR | NOT_IMPLEMENTED | BAD_GATEWAY | SERVICE_UNAVAILABLE
  | SPACE_UNAVAILABLE

definition code_number :: "code \<Rightarrow> nat" where
  "code_number c =
     (case c of
        OK \<Rightarrow> 200 | CREATED \<Rightarrow> 201 | ACCEPTED \<Rightarrow> 202 | NO_CONTENT \<Rightarrow> 204 | PARTIAL_CONTENT \<Rightarrow> 206
      | MULTIPLE_CHOICES \<Rightarrow> 300 | MOVED_PERMANENTLY \<Rightarrow> 301 | MOVED_TEMPORARILY \<Rightarrow> 302
      | NOT_MODIFIED \<Rightarrow> 304
      | BAD_REQUEST \<Rightarrow> 400 | UNAUTHORIZED \<Rightarrow> 401 | FORBIDDEN \<Rightarrow> 403 | NOT_FOUND \<Rightarrow> 404
      | NOT_SUPPORTED \<Rightarrow> 405 | NOT_ACCEPTABLE \<Rightarrow> 406 | REQUEST_TIMEOUT \<Rightarrow> 408
      | PRECONDITION_FAILED \<Rightarrow> 412 | UNSATISFIABLE_RANGE \<Rightarrow> 416
      | INTERNAL_SERVER_ERROR \<Rightarrow> 500 | NOT_IMPLEMENTED \<Rightarrow> 501 | BAD_GATEWAY \<Rightarrow> 502
      | SERVICE_UNAVAILABLE \<Rightarrow> 503 | SPACE_UNAVAILABLE \<Rightarrow> 507)"

record http_request =
  rq_method :: http_method
  rq_path :: string
  rq_source :: string
  rq_query :: string
  rq_body :: string

record response =
  rs_code :: code
  rs_body :: string
  rs_headers :: "(header, string) smap"

definition Response :: "code \<Rightarrow> string \<Rightarrow> response" where
  "Response c body = \<lparr>rs_code = c, rs_body = body, rs_headers = []\<rparr>"

definition Response_type :: "code \<Rightarrow> string \<Rightarrow> string \<Rightarrow> response" where
  "Response_type c body contentType =
     \<lparr>rs_code = c, rs_body = body, rs_headers = [(CONTENT_TYPE, contentType)]\<rparr>"

definition Response_headers :: "code \<Rightarrow> string \<Rightarrow> (header, string) smap \<Rightarrow> response" where
  "Response_headers c body headers = \<lparr>rs_code = c, rs_body = body, rs_headers = headers\<rparr>"

text \<open>
  A \<^verbatim>\<open>std::future<Response>\<close>: without a shared state, or with what waiting for it yields, a
  response or the exception stored in it.
\<close>

datatype future = No_state | Holds "exn + response"

definition make_ready_response :: "response \<Rightarrow> future" where
  "make_ready_response r = Holds (Inr r)"

text \<open>\<^verbatim>\<open>future::get()\<close>.\<close>

definition future_get :: "future \<Rightarrow> exn + response" where
  "future_get f = (case f of No_state \<Rightarrow> Inl (Future_error ''No associated state'') | Holds r \<Rightarrow> r)"

record message =
  ms_request :: http_request
  ms_origin :: string
  ms_request_headers :: string
  ms_request_method :: http_method
  ms_response :: future
  ms_cors :: "(cors_header, string) smap"

type_synonym 'e rest_func = "http_request \<Rightarrow> 'e \<Rightarrow> 'e \<times> (exn + future)"
type_synonym 'e put_payload_func = "string \<Rightarrow> 'e \<Rightarrow> 'e \<times> (exn + bool)"
type_synonym 'e put_func = "'e \<Rightarrow> 'e \<times> (exn + bool)"
type_synonym 'e get_func = "'e \<Rightarrow> 'e \<times> (exn + string)"

text \<open>What the HTTP server uses of a \<^verbatim>\<open>servus::Serializable\<close>.\<close>

record 'e json_object =
  jo_typeName :: string
  jo_schema :: string
  jo_fromJSON :: "'e put_payload_func"
  jo_toJSON :: "'e get_func"

end
