(* ===== verification/Http_Endpoint.thy ===== *)
theory Http_Endpoint
  imports Http_Types "HOL-Library.Sublist"
begin

text \<open>
  The helpers at the top of \<^verbatim>\<open>http/server.cpp\<close>: names of endpoints and paths of requests.
  Characters are classified as in the C locale.
\<close>

section \<open>Characters and substrings\<close>

definition isupper :: "char \<Rightarrow> bool" where
  "isupper c \<longleftrightarrow> 65 \<le> (of_char c :: nat) \<and> (of_char c :: nat) \<le> 90"

definition islower :: "char \<Rightarrow> bool" where
  "islower c \<longleftrightarrow> 97 \<le> (of_char c :: nat) \<and> (of_char c :: nat) \<le> 122"

definition tolower :: "char \<Rightarrow> char" where
  "tolower c = (if isupper c then char_of (of_char c + 32 :: nat) else c)"

text \<open>\<^verbatim>\<open>s.find(t)\<close>.\<close>

fun find_sub :: "string \<Rightarrow> string \<Rightarrow> nat option" where
  "find_sub t [] = (if t = [] then Some 0 else None)"
| "find_sub t (c # cs) = (if prefix t (c # cs) then Some 0 else map_option Suc (find_sub t cs))"

lemma find_sub_0 [simp]: "find_sub t s = Some 0 \<longleftrightarrow> prefix t s"
  by (cases s) auto

lemma find_sub_Some: "find_sub t s = Some i \<Longrightarrow> prefix t (drop i s) \<and> i + length t \<le> length s"
  by (induction s arbitrary: i) (auto split: if_splits dest: prefix_length_le)

lemma find_sub_None: "find_sub t s = None \<longleftrightarrow> \<not> sublist t s"
proof (induction s)
  case (Cons c cs)
  then show ?case by (auto simp: sublist_Cons_right)
qed simp

section \<open>Endpoint names\<close>

fun hyphenate :: "char \<Rightarrow> string \<Rightarrow> string" where
  "hyphenate prev [] = []"
| "hyphenate prev (c # cs) =
     (if isupper c \<and> prev \<noteq> CHR ''-'' \<and> islower prev then ''-'' else []) @ c # hyphenate c cs"

definition camelCaseToHyphenated :: "string \<Rightarrow> string" where
  "camelCaseToHyphenated camelCase =
     (case camelCase of
        [] \<Rightarrow> []
      | c # cs \<Rightarrow> map tolower (tolower c # hyphenate c cs))"

text \<open>
  \<^verbatim>\<open>_replaceAll\<close> goes on behind each replacement. With an empty \<open>search\<close> it would not end; it is
  only called with \<^verbatim>\<open>::\<close>.
\<close>

function replaceAll :: "string \<Rightarrow> string \<Rightarrow> string \<Rightarrow> string" where
  "replaceAll subject search repl =
     (if search = [] then subject
      else
        (case find_sub search subject of
           None \<Rightarrow> subject
         | Some pos \<Rightarrow> take pos subject @ repl @ replaceAll (drop (pos + length search) subject) search repl))"
  by auto
termination
proof (relation "measure (\<lambda>(s, _). length s)")
  fix subject search repl :: string and pos
  assume "search \<noteq> []" and "find_sub search subject = Some pos"
  then have "0 < length search" "pos + length search \<le> length subject"
    by (auto dest: find_sub_Some)
  then have "length subject - (pos + length search) < length subject" by linarith
  then show "((drop (pos + length search) subject, search, repl), subject, search, repl)
      \<in> measure (\<lambda>(s, _). length s)" by simp
qed simp

declare replaceAll.simps [simp del]

definition convertEndpointName :: "string \<Rightarrow> string" where
  "convertEndpointName endpoint = camelCaseToHyphenated (replaceAll endpoint ''::'' ''/'')"

definition JSON_TYPE :: string where "JSON_TYPE = ''application/json''"
definition REQUEST_REGISTRY :: string where "REQUEST_REGISTRY = ''registry''"
definition REQUEST_SCHEMA :: string where "REQUEST_SCHEMA = ''schema''"
definition HTTP_SERVER_SERVICE :: string where "HTTP_SERVER_SERVICE = ''_http._tcp''"

definition checkEndpointName :: "string \<Rightarrow> exn option" where
  "checkEndpointName endpoint =
     (if endpoint = REQUEST_REGISTRY
      then Some (Runtime_error ([CHR 0x27] @ ''registry'' @ [CHR 0x27] @ '' not allowed as endpoint name''))
      else None)"

section \<open>Paths\<close>

definition endsWithSchema :: "string \<Rightarrow> bool" where
  "endsWithSchema uri =
     (if length uri < length REQUEST_SCHEMA then False
      else drop (length uri - length REQUEST_SCHEMA) uri = REQUEST_SCHEMA)"

definition removeEndpointFromPath :: "string \<Rightarrow> string \<Rightarrow> string" where
  "removeEndpointFromPath endpoint path =
     (if endpoint = ''/'' then path
      else if length path \<le> length endpoint then []
      else drop (length endpoint) path)"

definition getHost :: "servus_uri \<Rightarrow> string" where
  "getHost uri =
     (if uri_host uri = [] \<or> uri_host uri = ''*'' then ''0.0.0.0'' else uri_host uri)"

definition isCorsRequest :: "message \<Rightarrow> bool" where
  "isCorsRequest message \<longleftrightarrow> ms_origin message \<noteq> []"

definition isCorsPreflightRequest :: "message \<Rightarrow> bool" where
  "isCorsPreflightRequest message \<longleftrightarrow>
     isCorsRequest message \<and> rq_method (ms_request message) = OPTIONS \<and>
     ms_request_method message \<noteq> ALL_METHODS"

section \<open>Lemmas\<close>

lemma tolower_not_upper [simp]: "\<not> isupper (tolower c)"
proof (cases "isupper c")
  case True
  then have "(of_char c :: nat) + 32 < 256" "65 \<le> (of_char c :: nat)" by (simp_all add: isupper_def)
  with True show ?thesis by (simp add: tolower_def) (simp add: isupper_def)
qed (simp add: tolower_def)

lemma tolower_id: "\<not> isupper c \<Longrightarrow> tolower c = c"
  by (simp add: tolower_def)

lemma hyphenate_lower: "\<forall>c \<in> set cs. \<not> isupper c \<Longrightarrow> hyphenate p cs = cs"
  by (induction cs arbitrary: p) auto

text \<open>Hyphenated names contain no capital letter, and are not changed by hyphenating again.\<close>

lemma hyphenated_lower: "c \<in> set (camelCaseToHyphenated s) \<Longrightarrow> \<not> isupper c"
  by (cases s) (auto simp: camelCaseToHyphenated_def)

lemma camelCaseToHyphenated_id:
  "\<forall>c \<in> set s. \<not> isupper c \<Longrightarrow> camelCaseToHyphenated s = s"
  by (cases s) (auto simp: camelCaseToHyphenated_def hyphenate_lower tolower_id intro: map_idI)

lemma camelCaseToHyphenated_idem:
  "camelCaseToHyphenated (camelCaseToHyphenated s) = camelCaseToHyphenated s"
  using hyphenated_lower by (blast intro: camelCaseToHyphenated_id)

lemma replaceAll_none: "\<not> sublist search s \<Longrightarrow> replaceAll s search repl = s"
  by (subst replaceAll.simps) (simp add: find_sub_None [THEN iffD2])

lemma removeEndpointFromPath_prefix:
  "endpoint \<noteq> ''/'' \<Longrightarrow> removeEndpointFromPath endpoint (endpoint @ rest) = rest"
  by (simp add: removeEndpointFromPath_def)

lemma endsWithSchema_iff: "endsWithSchema uri \<longleftrightarrow> suffix REQUEST_SCHEMA uri"
proof
  assume "endsWithSchema uri"
  then have "drop (length uri - length REQUEST_SCHEMA) uri = REQUEST_SCHEMA"
    by (simp add: endsWithSchema_def split: if_splits)
  then show "suffix REQUEST_SCHEMA uri" by (metis suffix_drop)
next
  assume "suffix REQUEST_SCHEMA uri"
  then obtain us where "uri = us @ REQUEST_SCHEMA" by (auto simp: suffix_def)
  then show "endsWithSchema uri" by (simp add: endsWithSchema_def)
qed

end
