(* ===== verification/Json_Value.thy ===== *)
theory Json_Value
  imports Std_Map
begin

text \<open>
  \<^verbatim>\<open>Json::Value\<close> of \<^verbatim>\<open>http/jsoncpp/jsoncpp.cpp\<close>, as the HTTP server uses it: null, integers of 64
  bits, reals, strings, booleans, arrays and objects, each with its comments. An array is a map
  from indices of 32 bits, an object a map from strings, both ordered. Reals are a type
  parameter. A member function that hands out a reference is modelled by the update of what it
  refers to. Memory is not modelled: strings are as long as they are, and allocation succeeds.
\<close>

section \<open>Values\<close>

datatype json_comments =
  Comments (c_before: "string option") (c_same_line: "string option") (c_after: "string option")

datatype 'r json = Json (j_data: "'r json_data") (j_comments: json_comments)
and 'r json_data =
    J_null
  | J_int "64 word"
  | J_uint "64 word"
  | J_real 'r
  | J_string string
  | J_bool bool
  | J_array "(32 word \<times> 'r json) list"
  | J_object "(string \<times> 'r json) list"

datatype value_type =
    nullValue | intValue | uintValue | realValue | stringValue | booleanValue | arrayValue
  | objectValue

definition no_comments :: json_comments where
  "no_comments = Comments None None None"

definition json_of :: "'r json_data \<Rightarrow> 'r json" where
  "json_of d = Json d no_comments"

definition nullSingleton :: "'r json" where
  "nullSingleton = json_of J_null"

text \<open>\<^verbatim>\<open>Value(ValueType)\<close>; the real zero is a parameter.\<close>

definition json_new :: "'r \<Rightarrow> value_type \<Rightarrow> 'r json" where
  "json_new zero vtype = json_of
     (case vtype of
        nullValue \<Rightarrow> J_null
      | intValue \<Rightarrow> J_int 0
      | uintValue \<Rightarrow> J_uint 0
      | realValue \<Rightarrow> J_real zero
      | stringValue \<Rightarrow> J_string []
      | booleanValue \<Rightarrow> J_bool False
      | arrayValue \<Rightarrow> J_array []
      | objectValue \<Rightarrow> J_object [])"

definition json_type :: "'r json \<Rightarrow> value_type" where
  "json_type v =
     (case j_data v of
        J_null \<Rightarrow> nullValue
      | J_int _ \<Rightarrow> intValue
      | J_uint _ \<Rightarrow> uintValue
      | J_real _ \<Rightarrow> realValue
      | J_string _ \<Rightarrow> stringValue
      | J_bool _ \<Rightarrow> booleanValue
      | J_array _ \<Rightarrow> arrayValue
      | J_object _ \<Rightarrow> objectValue)"

definition isNull :: "'r json \<Rightarrow> bool" where
  "isNull v \<longleftrightarrow> json_type v = nullValue"

definition isArray :: "'r json \<Rightarrow> bool" where
  "isArray v \<longleftrightarrow> json_type v = arrayValue"

definition isObject :: "'r json \<Rightarrow> bool" where
  "isObject v \<longleftrightarrow> json_type v = objectValue"

definition isString :: "'r json \<Rightarrow> bool" where
  "isString v \<longleftrightarrow> json_type v = stringValue"

definition isBool :: "'r json \<Rightarrow> bool" where
  "isBool v \<longleftrightarrow> json_type v = booleanValue"

text \<open>The size of an array is its highest index plus one.\<close>

definition json_size :: "'r json \<Rightarrow> 32 word" where
  "json_size v =
     (case j_data v of
        J_array es \<Rightarrow> (if es = [] then 0 else fst (last es) + 1)
      | J_object ms \<Rightarrow> word_of_nat (length ms)
      | _ \<Rightarrow> 0)"

definition json_empty :: "'r json \<Rightarrow> bool" where
  "json_empty v \<longleftrightarrow> (isNull v \<or> isArray v \<or> isObject v) \<and> json_size v = 0"

definition json_clear :: "'r json \<Rightarrow> exn + 'r json" where
  "json_clear v =
     (case j_data v of
        J_null \<Rightarrow> Inr v
      | J_array _ \<Rightarrow> Inr (Json (J_array []) (j_comments v))
      | J_object _ \<Rightarrow> Inr (Json (J_object []) (j_comments v))
      | _ \<Rightarrow> Inl (Logic_error ''in Json::Value::clear(): requires complex value''))"

section \<open>Array elements\<close>

text \<open>
  \<^verbatim>\<open>value[index]\<close> on a mutable value: a null value becomes an array (and loses its comments, for
  it is assigned a new value), a missing element is created as null. The result is the value
  with the element present.
\<close>

definition array_elements :: "'r json \<Rightarrow> (exn + (32 word \<times> 'r json) list \<times> json_comments)" where
  "array_elements v =
     (case j_data v of
        J_null \<Rightarrow> Inr ([], no_comments)
      | J_array es \<Rightarrow> Inr (es, j_comments v)
      | _ \<Rightarrow> Inl (Logic_error
          ''in Json::Value::operator[](ArrayIndex): requires arrayValue''))"

definition json_index :: "32 word \<Rightarrow> 'r json \<Rightarrow> exn + 'r json" where
  "json_index i v =
     (case array_elements v of
        Inl e \<Rightarrow> Inl e
      | Inr (es, c) \<Rightarrow>
          Inr (Json (J_array (if map_of es i \<noteq> None then es
                              else smap_put (<) i nullSingleton es)) c))"

text \<open>\<^verbatim>\<open>value[index] = x\<close>.\<close>

definition json_assign :: "32 word \<Rightarrow> 'r json \<Rightarrow> 'r json \<Rightarrow> exn + 'r json" where
  "json_assign i x v =
     (case json_index i v of
        Inl e \<Rightarrow> Inl e
      | Inr v1 \<Rightarrow>
          (case j_data v1 of
             J_array es \<Rightarrow> Inr (Json (J_array (smap_put (<) i x es)) (j_comments v1))
           | _ \<Rightarrow> Inr v1))"

definition json_append :: "'r json \<Rightarrow> 'r json \<Rightarrow> exn + 'r json" where
  "json_append x v = json_assign (json_size v) x v"

text \<open>\<^verbatim>\<open>value[index]\<close> on a constant value: null when there is no such element.\<close>

definition json_at :: "'r json \<Rightarrow> 32 word \<Rightarrow> exn + 'r json" where
  "json_at v i =
     (case j_data v of
        J_null \<Rightarrow> Inr nullSingleton
      | J_array es \<Rightarrow> Inr (case map_of es i of None \<Rightarrow> nullSingleton | Some x \<Rightarrow> x)
      | _ \<Rightarrow> Inl (Logic_error
          ''in Json::Value::operator[](ArrayIndex)const: requires arrayValue''))"

definition json_resize :: "32 word \<Rightarrow> 'r json \<Rightarrow> exn + 'r json" where
  "json_resize n v =
     (case j_data v of
        J_null \<Rightarrow> (if n = 0 then Inr (json_of (J_array [])) else json_index (n - 1) v)
      | J_array es \<Rightarrow>
          if n = 0 then json_clear v
          else if json_size v < n then json_index (n - 1) v
          else
            (let v1 = Json (J_array (filter (\<lambda>(i, _). i < n) es)) (j_comments v)
             in if json_size v1 \<noteq> n then Inl (Logic_error ''assert json failed'') else Inr v1)
      | _ \<Rightarrow> Inl (Logic_error ''in Json::Value::resize(): requires arrayValue''))"

definition isValidIndex :: "'r json \<Rightarrow> 32 word \<Rightarrow> bool" where
  "isValidIndex v i \<longleftrightarrow> i < json_size v"

section \<open>Object members\<close>

text \<open>\<^verbatim>\<open>resolveReference\<close>: as for arrays, a missing member is created as null.\<close>

definition object_members :: "'r json \<Rightarrow> (exn + (string \<times> 'r json) list \<times> json_comments)" where
  "object_members v =
     (case j_data v of
        J_null \<Rightarrow> Inr ([], no_comments)
      | J_object ms \<Rightarrow> Inr (ms, j_comments v)
      | _ \<Rightarrow> Inl (Logic_error
          ''in Json::Value::resolveReference(key, end): requires objectValue''))"

definition resolveReference :: "string \<Rightarrow> 'r json \<Rightarrow> exn + 'r json" where
  "resolveReference key v =
     (case object_members v of
        Inl e \<Rightarrow> Inl e
      | Inr (ms, c) \<Rightarrow>
          Inr (Json (J_object (if map_of ms key \<noteq> None then ms
                               else smap_put (<) key nullSingleton ms)) c))"

text \<open>An operation on the member a reference refers to, as in \<^verbatim>\<open>value[key].append(x)\<close>.\<close>

definition json_member :: "string \<Rightarrow> ('r json \<Rightarrow> exn + 'r json) \<Rightarrow> 'r json \<Rightarrow> exn + 'r json" where
  "json_member key f v =
     (case resolveReference key v of
        Inl e \<Rightarrow> Inl e
      | Inr v1 \<Rightarrow>
          (case j_data v1 of
             J_object ms \<Rightarrow>
               (case f (the (map_of ms key)) of
                  Inl e \<Rightarrow> Inl e
                | Inr x \<Rightarrow> Inr (Json (J_object (smap_put (<) key x ms)) (j_comments v1)))
           | _ \<Rightarrow> Inr v1))"

definition json_find :: "string \<Rightarrow> 'r json \<Rightarrow> exn + 'r json option" where
  "json_find key v =
     (case j_data v of
        J_null \<Rightarrow> Inr None
      | J_object ms \<Rightarrow> Inr (map_of ms key)
      | _ \<Rightarrow> Inl (Logic_error
          ''in Json::Value::find(key, end, found): requires objectValue or nullValue''))"

definition json_get :: "string \<Rightarrow> 'r json \<Rightarrow> 'r json \<Rightarrow> exn + 'r json" where
  "json_get key dflt v =
     (case json_find key v of
        Inl e \<Rightarrow> Inl e
      | Inr found \<Rightarrow> Inr (case found of None \<Rightarrow> dflt | Some x \<Rightarrow> x))"

definition isMember :: "string \<Rightarrow> 'r json \<Rightarrow> exn + bool" where
  "isMember key v = (case json_find key v of Inl e \<Rightarrow> Inl e | Inr found \<Rightarrow> Inr (found \<noteq> None))"

text \<open>\<^verbatim>\<open>removeMember(key, &removed)\<close>: the value, what was removed, and whether anything was.\<close>

definition removeMember :: "string \<Rightarrow> 'r json \<Rightarrow> 'r json \<times> 'r json option" where
  "removeMember key v =
     (case j_data v of
        J_object ms \<Rightarrow>
          (case map_of ms key of
             None \<Rightarrow> (v, None)
           | Some x \<Rightarrow> (Json (J_object (smap_erase (<) key ms)) (j_comments v), Some x))
      | _ \<Rightarrow> (v, None))"

definition getMemberNames :: "'r json \<Rightarrow> exn + string list" where
  "getMemberNames v =
     (case j_data v of
        J_null \<Rightarrow> Inr []
      | J_object ms \<Rightarrow> Inr (map fst ms)
      | _ \<Rightarrow> Inl (Logic_error ''in Json::Value::getMemberNames(), value must be objectValue''))"

section \<open>Comments\<close>

datatype placement = commentBefore | commentAfterOnSameLine | commentAfter

definition getComment :: "'r json \<Rightarrow> placement \<Rightarrow> string option" where
  "getComment v p =
     (case p of
        commentBefore \<Rightarrow> c_before (j_comments v)
      | commentAfterOnSameLine \<Rightarrow> c_same_line (j_comments v)
      | commentAfter \<Rightarrow> c_after (j_comments v))"

definition hasComment :: "'r json \<Rightarrow> placement \<Rightarrow> bool" where
  "hasComment v p \<longleftrightarrow> getComment v p \<noteq> None"

text \<open>
  One trailing newline is dropped; a comment starts with a slash. It is kept as a C string. A comment
  that does not start with a slash throws after the earlier comment was released, so that none is left:
  no value that has seen such an exception is used in the model, which has the exception only.
\<close>

definition setComment :: "string \<Rightarrow> placement \<Rightarrow> 'r json \<Rightarrow> exn + 'r json" where
  "setComment comment p v =
     (let text = c_str (if comment \<noteq> [] \<and> last comment = CHR 0x0A then butlast comment else comment);
          c = j_comments v
      in if comment \<noteq> [] \<and> hd comment \<noteq> CHR 0x00 \<and> hd comment \<noteq> CHR ''/''
         then Inl (Logic_error ''in Json::Value::setComment(): Comments must start with /'')
         else Inr (Json (j_data v)
                (case p of
                   commentBefore \<Rightarrow> Comments (Some text) (c_same_line c) (c_after c)
                 | commentAfterOnSameLine \<Rightarrow> Comments (c_before c) (Some text) (c_after c)
                 | commentAfter \<Rightarrow> Comments (c_before c) (c_same_line c) (Some text))))"

section \<open>Integers\<close>

definition isInt :: "'r json \<Rightarrow> ('r \<Rightarrow> bool) \<Rightarrow> bool" where
  "isInt v real_fits =
     (case j_data v of
        J_int i \<Rightarrow> - (2 ^ 31) \<le> sint i \<and> sint i < 2 ^ 31
      | J_uint u \<Rightarrow> uint u < 2 ^ 31
      | J_real r \<Rightarrow> real_fits r
      | _ \<Rightarrow> False)"

definition isUInt :: "'r json \<Rightarrow> ('r \<Rightarrow> bool) \<Rightarrow> bool" where
  "isUInt v real_fits =
     (case j_data v of
        J_int i \<Rightarrow> 0 \<le> sint i \<and> sint i < 2 ^ 32
      | J_uint u \<Rightarrow> uint u < 2 ^ 32
      | J_real r \<Rightarrow> real_fits r
      | _ \<Rightarrow> False)"

definition asInt64 :: "'r json \<Rightarrow> ('r \<Rightarrow> 64 word option) \<Rightarrow> exn + 64 word" where
  "asInt64 v real_int =
     (case j_data v of
        J_int i \<Rightarrow> Inr i
      | J_uint u \<Rightarrow>
          if uint u < 2 ^ 63 then Inr u else Inl (Logic_error ''LargestUInt out of Int64 range'')
      | J_real r \<Rightarrow>
          (case real_int r of None \<Rightarrow> Inl (Logic_error ''double out of Int64 range'') | Some i \<Rightarrow> Inr i)
      | J_null \<Rightarrow> Inr 0
      | J_bool b \<Rightarrow> Inr (if b then 1 else 0)
      | _ \<Rightarrow> Inl (Logic_error ''Value is not convertible to Int64.''))"

definition asUInt64 :: "'r json \<Rightarrow> ('r \<Rightarrow> 64 word option) \<Rightarrow> exn + 64 word" where
  "asUInt64 v real_uint =
     (case j_data v of
        J_int i \<Rightarrow>
          if 0 \<le> sint i then Inr i else Inl (Logic_error ''LargestInt out of UInt64 range'')
      | J_uint u \<Rightarrow> Inr u
      | J_real r \<Rightarrow>
          (case real_uint r of None \<Rightarrow> Inl (Logic_error ''double out of UInt64 range'') | Some u \<Rightarrow> Inr u)
      | J_null \<Rightarrow> Inr 0
      | J_bool b \<Rightarrow> Inr (if b then 1 else 0)
      | _ \<Rightarrow> Inl (Logic_error ''Value is not convertible to UInt64.''))"

section \<open>Well-formed values\<close>

text \<open>Maps are ordered, at every depth.\<close>

fun json_ok :: "'r json \<Rightarrow> bool" and data_ok :: "'r json_data \<Rightarrow> bool" where
  "json_ok (Json d c) = data_ok d"
| "data_ok (J_array es) \<longleftrightarrow> smap_ok (<) es \<and> (\<forall>p \<in> set es. json_ok (snd p))"
| "data_ok (J_object ms) \<longleftrightarrow> smap_ok (<) ms \<and> (\<forall>p \<in> set ms. json_ok (snd p))"
| "data_ok _ = True"

lemma json_ok_null [simp]: "json_ok nullSingleton"
  by (simp add: nullSingleton_def json_of_def)

lemma json_index_ok:
  assumes "json_ok v" and "json_index i v = Inr v'"
  shows "json_ok v' \<and> (\<exists>es c. v' = Json (J_array es) c)"
proof -
  obtain d c where v: "v = Json d c" by (cases v)
  show ?thesis
    using assms
    by (cases d) (auto simp: v json_index_def array_elements_def asc.put_ok split: if_splits
        dest!: smap_put_mem)
qed

lemma json_ok_assign:
  assumes "json_ok v" and "json_ok x" and "json_assign i x v = Inr v'"
  shows "json_ok v' \<and> (\<exists>es c. v' = Json (J_array es) c \<and> map_of es i = Some x)"
proof -
  from assms(3) obtain v1 where 1: "json_index i v = Inr v1"
    by (auto simp: json_assign_def split: sum.splits)
  from json_index_ok [OF assms(1) 1] obtain es c where v1: "v1 = Json (J_array es) c"
    and ok: "smap_ok (<) es" "\<forall>p \<in> set es. json_ok (snd p)" by auto
  have "v' = Json (J_array (smap_put (<) i x es)) c"
    using assms(3) 1 v1 by (simp add: json_assign_def)
  with ok assms(2) smap_put_all [OF ok(2) assms(2)] show ?thesis
    by (simp add: asc.put_ok asc.lookup_put)
qed

lemma json_ok_append:
  "json_ok v \<Longrightarrow> json_ok x \<Longrightarrow> json_append x v = Inr v' \<Longrightarrow> json_ok v'"
  unfolding json_append_def by (rule json_ok_assign [THEN conjunct1])

end
