(* ===== verification/Json_Writer.thy ===== *)
theory Json_Writer
  imports Json_Value
begin

text \<open>
  The text of a JSON value, as \<^verbatim>\<open>Json::Value::toStyledString\<close> writes it: quoted strings, decimal
  integers, and \<^verbatim>\<open>Json::StyledWriter\<close>, which puts short arrays on one line. What \<^verbatim>\<open>snprintf\<close>
  prints of a \<^verbatim>\<open>double\<close> is a parameter.
\<close>

section \<open>Strings\<close>

definition isControlCharacter :: "char \<Rightarrow> bool" where
  "isControlCharacter ch \<longleftrightarrow> 0 < (of_char ch :: nat) \<and> (of_char ch :: nat) \<le> 31"

definition containsControlCharacter :: "string \<Rightarrow> bool" where
  "containsControlCharacter str = list_ex isControlCharacter (c_str str)"

definition containsControlCharacter0 :: "string \<Rightarrow> bool" where
  "containsControlCharacter0 str = list_ex (\<lambda>c. isControlCharacter c \<or> c = CHR 0x00) str"

definition special_chars :: string where
  "special_chars = [CHR 0x22, CHR 0x5C, CHR 0x08, CHR 0x0C, CHR 0x0A, CHR 0x0D, CHR 0x09]"

text \<open>\<^verbatim>\<open>std::hex << std::uppercase << std::setfill('0') << std::setw(4)\<close> of a value below 65536.\<close>

definition hex_digit :: "nat \<Rightarrow> char" where
  "hex_digit n = (if n < 10 then char_of (48 + n) else char_of (55 + n))"

definition hex4 :: "nat \<Rightarrow> string" where
  "hex4 n = map hex_digit [n div 4096 mod 16, n div 256 mod 16, n div 16 mod 16, n mod 16]"

definition quote_char :: "char \<Rightarrow> string" where
  "quote_char c =
     (if c = CHR 0x22 then [CHR 0x5C, CHR 0x22]
      else if c = CHR 0x5C then [CHR 0x5C, CHR 0x5C]
      else if c = CHR 0x08 then CHR 0x5C # ''b''
      else if c = CHR 0x0C then CHR 0x5C # ''f''
      else if c = CHR 0x0A then CHR 0x5C # ''n''
      else if c = CHR 0x0D then CHR 0x5C # ''r''
      else if c = CHR 0x09 then CHR 0x5C # ''t''
      else if isControlCharacter c \<or> c = CHR 0x00 then CHR 0x5C # ''u'' @ hex4 (of_char c)
      else [c])"

text \<open>
  Both functions copy a string that needs no escape as it is. The first one reads a C string,
  the second one a given number of characters.
\<close>

definition valueToQuotedString :: "string \<Rightarrow> string" where
  "valueToQuotedString s =
     (let v = c_str s
      in if \<not> list_ex (\<lambda>c. c \<in> set special_chars) v \<and> \<not> containsControlCharacter v
         then CHR 0x22 # v @ [CHR 0x22]
         else CHR 0x22 # concat (map quote_char v) @ [CHR 0x22])"

definition valueToQuotedStringN :: "string \<Rightarrow> string" where
  "valueToQuotedStringN v =
     (if \<not> list_ex (\<lambda>c. c \<in> set special_chars) v \<and> \<not> containsControlCharacter0 v
      then CHR 0x22 # c_str v @ [CHR 0x22]
      else CHR 0x22 # concat (map quote_char v) @ [CHR 0x22])"

section \<open>Numbers\<close>

text \<open>Writes digits in front of \<open>buffer\<close>.\<close>

function uintToString :: "64 word \<Rightarrow> string \<Rightarrow> string" where
  "uintToString v buffer =
     (let buffer' = char_of (unat (v mod 10) + 48) # buffer; v' = v div 10
      in if v' \<noteq> 0 then uintToString v' buffer' else buffer')"
  by auto
termination
proof (relation "measure (\<lambda>(v, _). unat v)")
  fix v :: "64 word" and buffer x and y :: "64 word"
  assume "y = v div 10" and "y \<noteq> 0"
  then have "v \<noteq> 0" by auto
  then have "unat v \<noteq> 0" by (simp add: unsigned_eq_0_iff)
  then show "((y, x), v, buffer) \<in> measure (\<lambda>(v, _). unat v)"
    using \<open>y = v div 10\<close> by (simp add: unat_div)
qed simp

declare uintToString.simps [simp del]

definition minLargestInt :: "64 word" where
  "minLargestInt = push_bit 63 1"

definition valueToString_int :: "64 word \<Rightarrow> string" where
  "valueToString_int v =
     (if v = minLargestInt then CHR ''-'' # uintToString minLargestInt []
      else if sint v < 0 then CHR ''-'' # uintToString (- v) []
      else uintToString v [])"

definition valueToString_uint :: "64 word \<Rightarrow> string" where
  "valueToString_uint v = uintToString v []"

definition valueToString_bool :: "bool \<Rightarrow> string" where
  "valueToString_bool b = (if b then ''true'' else ''false'')"

text \<open>
  The type of doubles and the text of one with a precision, \<^verbatim>\<open>snprintf\<close> with \<^verbatim>\<open>%.<precision>g\<close>,
  are parameters. The text fits its buffer for the precisions in use, which are at most 17.
\<close>

record 'r printf =
  pf_isfinite :: "'r \<Rightarrow> bool"
  pf_isnan :: "'r \<Rightarrow> bool"
  pf_negative :: "'r \<Rightarrow> bool"
  pf_format :: "32 word \<Rightarrow> 'r \<Rightarrow> string"

definition fixNumericLocale :: "string \<Rightarrow> string" where
  "fixNumericLocale s = map (\<lambda>c. if c = CHR '','' then CHR ''.'' else c) s"

text \<open>
  The text has \<^verbatim>\<open>.0\<close> at its end when it looks like an integer. This is decided before the
  comma of the locale becomes a point.
\<close>

definition valueToString_double :: "'r printf \<Rightarrow> bool \<Rightarrow> 32 word \<Rightarrow> 'r \<Rightarrow> string" where
  "valueToString_double P useSpecialFloats precision value =
     (if pf_isfinite P value
      then (let buffer = pf_format P precision value
            in fixNumericLocale buffer @
               (if CHR ''.'' \<notin> set buffer \<and> CHR ''e'' \<notin> set buffer then ''.0'' else []))
      else fixNumericLocale
             (if pf_isnan P value then (if useSpecialFloats then ''NaN'' else ''null'')
              else if pf_negative P value then (if useSpecialFloats then ''-Infinity'' else ''-1e+9999'')
              else (if useSpecialFloats then ''Infinity'' else ''1e+9999'')))"

definition valueToString_real :: "'r printf \<Rightarrow> 'r \<Rightarrow> string" where
  "valueToString_real P value = valueToString_double P False 17 value"

definition plain_printf :: "('r \<Rightarrow> string) \<Rightarrow> 'r printf" where
  "plain_printf text = \<lparr>pf_isfinite = (\<lambda>_. True), pf_isnan = (\<lambda>_. False), pf_negative = (\<lambda>_. False),
     pf_format = (\<lambda>_. text)\<rparr>"

definition sample_printf :: "string printf" where
  "sample_printf = plain_printf id"

text \<open>In a locale with a decimal comma a number gets two points.\<close>

lemma decimal_comma:
  "pf_isfinite P r \<Longrightarrow> pf_format P 17 r = ''3,5'' \<Longrightarrow> valueToString_real P r = ''3.5.0''"
  by (simp add: valueToString_real_def valueToString_double_def fixNumericLocale_def)

section \<open>The styled writer\<close>

record swriter =
  sw_document :: string
  sw_indent :: string
  sw_add_children :: bool
  sw_children :: "string list"

definition rightMargin :: "32 word" where "rightMargin = 74"
definition indentSize :: nat where "indentSize = 3"

definition sw_append :: "string \<Rightarrow> swriter \<Rightarrow> swriter" where
  "sw_append s st = st\<lparr>sw_document := sw_document st @ s\<rparr>"

definition pushValue :: "string \<Rightarrow> swriter \<Rightarrow> swriter" where
  "pushValue s st =
     (if sw_add_children st then st\<lparr>sw_children := sw_children st @ [s]\<rparr> else sw_append s st)"

definition writeIndent :: "swriter \<Rightarrow> swriter" where
  "writeIndent st =
     (let d = sw_document st
      in if d \<noteq> [] \<and> last d = CHR '' '' then st
         else if d \<noteq> [] \<and> last d \<noteq> CHR 0x0A then sw_append (CHR 0x0A # sw_indent st) st
         else sw_append (sw_indent st) st)"

definition writeWithIndent :: "string \<Rightarrow> swriter \<Rightarrow> swriter" where
  "writeWithIndent s st = sw_append s (writeIndent st)"

definition sw_indented :: "swriter \<Rightarrow> swriter" where
  "sw_indented st = st\<lparr>sw_indent := sw_indent st @ replicate indentSize CHR '' ''\<rparr>"

definition sw_unindented :: "swriter \<Rightarrow> swriter" where
  "sw_unindented st = st\<lparr>sw_indent := take (length (sw_indent st) - indentSize) (sw_indent st)\<rparr>"

fun write_comment :: "string \<Rightarrow> swriter \<Rightarrow> swriter" where
  "write_comment [] st = st"
| "write_comment (c # cs) st =
     (let st1 = sw_append [c] st
      in write_comment cs
           (if c = CHR 0x0A \<and> cs \<noteq> [] \<and> hd cs = CHR ''/'' then writeIndent st1 else st1))"

definition writeCommentBeforeValue :: "'r json \<Rightarrow> swriter \<Rightarrow> swriter" where
  "writeCommentBeforeValue v st =
     (case getComment v commentBefore of
        None \<Rightarrow> st
      | Some comment \<Rightarrow>
          sw_append [CHR 0x0A] (write_comment comment (writeIndent (sw_append [CHR 0x0A] st))))"

definition writeCommentAfterValueOnSameLine :: "'r json \<Rightarrow> swriter \<Rightarrow> swriter" where
  "writeCommentAfterValueOnSameLine v st =
     (let st1 = (case getComment v commentAfterOnSameLine of
                   None \<Rightarrow> st | Some comment \<Rightarrow> sw_append (CHR '' '' # comment) st)
      in case getComment v commentAfter of
           None \<Rightarrow> st1
         | Some comment \<Rightarrow> sw_append (CHR 0x0A # comment @ [CHR 0x0A]) st1)"

definition hasCommentForValue :: "'r json \<Rightarrow> bool" where
  "hasCommentForValue v \<longleftrightarrow>
     hasComment v commentBefore \<or> hasComment v commentAfterOnSameLine \<or> hasComment v commentAfter"

text \<open>\<open>value[0]\<close>, \<open>value[1]\<close> and so on up to the size.\<close>

definition array_children :: "(32 word \<times> 'r json) list \<Rightarrow> 32 word \<Rightarrow> 'r json list" where
  "array_children es n =
     map (\<lambda>i. case map_of es (word_of_nat i) of None \<Rightarrow> nullSingleton | Some x \<Rightarrow> x) [0..<unat n]"

text \<open>The first part of \<^verbatim>\<open>isMultineArray\<close>: too many elements, or one that is not empty.\<close>

definition surely_multiline :: "32 word \<Rightarrow> 'r json list \<Rightarrow> bool" where
  "surely_multiline n children \<longleftrightarrow>
     rightMargin \<le> n * 3 \<or>
     list_ex (\<lambda>v. (isArray v \<or> isObject v) \<and> 0 < json_size v) children"

definition line_length :: "32 word \<Rightarrow> string list \<Rightarrow> 32 word" where
  "line_length n texts =
     foldl (\<lambda>l t. l + word_of_nat (length t)) (4 + (n - 1) * 2) texts"

definition comma_separated :: "string list \<Rightarrow> string" where
  "comma_separated texts = concat (case texts of [] \<Rightarrow> [] | t # ts \<Rightarrow> t # map (\<lambda>t. '', '' @ t) ts)"

fun list_size :: "'r json list \<Rightarrow> nat" where
  "list_size [] = 0"
| "list_size (v # vs) = max (size v) (list_size vs)"

function
  writeValue :: "'r printf \<Rightarrow> 'r json \<Rightarrow> swriter \<Rightarrow> swriter" and
  write_members :: "'r printf \<Rightarrow> (string \<times> 'r json) list \<Rightarrow> swriter \<Rightarrow> swriter" and
  write_elements :: "'r printf \<Rightarrow> bool \<Rightarrow> nat \<Rightarrow> 'r json list \<Rightarrow> swriter \<Rightarrow> swriter" and
  collect_children :: "'r printf \<Rightarrow> 'r json list \<Rightarrow> swriter \<Rightarrow> swriter"
where
  "writeValue real (Json d c) st =
     (case d of
        J_null \<Rightarrow> pushValue ''null'' st
      | J_int i \<Rightarrow> pushValue (valueToString_int i) st
      | J_uint u \<Rightarrow> pushValue (valueToString_uint u) st
      | J_real r \<Rightarrow> pushValue (valueToString_real real r) st
      | J_string s \<Rightarrow> pushValue (valueToQuotedStringN s) st
      | J_bool b \<Rightarrow> pushValue (valueToString_bool b) st
      | J_array es \<Rightarrow>
          if json_size (Json d c) = 0 then pushValue ''[]'' st
          else
            (let n = fst (last es) + 1;
                 children = array_children es n;
                 sure = surely_multiline n children;
                 st0 = st\<lparr>sw_children := []\<rparr>;
                 st1 = (if sure then st0
                        else (collect_children real children (st0\<lparr>sw_add_children := True\<rparr>))
                               \<lparr>sw_add_children := False\<rparr>);
                 multi = (sure \<or> list_ex hasCommentForValue children \<or>
                          rightMargin \<le> line_length n (sw_children st1))
             in if multi
                then writeWithIndent '']''
                       (sw_unindented
                          (write_elements real (sw_children st1 \<noteq> []) 0 children
                             (sw_indented (writeWithIndent ''['' st1))))
                else sw_append (''[ '' @ comma_separated (sw_children st1) @ '' ]'') st1)
      | J_object ms \<Rightarrow>
          if ms = [] then pushValue ''{}'' st
          else
            writeWithIndent ''}''
              (sw_unindented (write_members real ms (sw_indented (writeWithIndent ''{'' st)))))"
| "write_members real [] st = st"
| "write_members real ((name, v) # ms) st =
     (let st1 = writeWithIndent (valueToQuotedString name) (writeCommentBeforeValue v st);
          st2 = writeValue real v (sw_append '' : '' st1)
      in if ms = [] then writeCommentAfterValueOnSameLine v st2
         else write_members real ms (writeCommentAfterValueOnSameLine v (sw_append '','' st2)))"
| "write_elements real has i [] st = st"
| "write_elements real has i (v # vs) st =
     (let st1 = writeCommentBeforeValue v st;
          st2 = (if has then writeWithIndent (sw_children st1 ! i) st1
                 else writeValue real v (writeIndent st1))
      in if vs = [] then writeCommentAfterValueOnSameLine v st2
         else write_elements real has (i + 1) vs
                (writeCommentAfterValueOnSameLine v (sw_append '','' st2)))"
| "collect_children real [] st = st"
| "collect_children real (v # vs) st = collect_children real vs (writeValue real v st)"
  by pat_completeness auto

lemma size_map_of: "map_of es i = Some v \<Longrightarrow> size v < size (J_array es)"
  by (induction es) (auto split: if_splits)

lemma list_size_less: "list_size vs < n \<longleftrightarrow> 0 < n \<and> (\<forall>v \<in> set vs. size v < n)"
  by (induction vs) auto

lemma size_null: "es \<noteq> [] \<Longrightarrow> size (nullSingleton :: 'r json) < size (J_array (es :: (32 word \<times> 'r json) list))"
  by (cases es; cases "snd (hd es)")
    (auto simp: nullSingleton_def json_of_def no_comments_def)

lemma list_size_children:
  "es \<noteq> [] \<Longrightarrow> list_size (array_children es n) < size (J_array es)"
  using size_map_of [of es] size_null [of es]
  by (auto simp: list_size_less array_children_def split: option.splits)

lemma list_size_members: "list_size (map snd ms) < size (J_object ms)"
  by (induction ms) auto

lemma list_size_children_less:
  "json_size (Json (J_array es) c) \<noteq> 0 \<Longrightarrow>
   list_size (array_children es n) < Suc (size (J_array es))"
  using list_size_children [of es n] by (cases "es = []") (simp_all add: json_size_def)

lemma list_size_members_less: "list_size (map snd ms) < Suc (size (J_object ms))"
  using list_size_members [of ms] by simp

lemma max_cases: "a < max a b \<or> a = max a (b :: nat)" "b < max a b \<or> b = max a (b :: nat)"
  by linarith+

termination writeValue
proof (relation "measures
     [\<lambda>x. case x of
        Inl (Inl (_, v, _)) \<Rightarrow> size v
      | Inl (Inr (_, ms, _)) \<Rightarrow> list_size (map snd ms)
      | Inr (Inl (_, _, _, vs, _)) \<Rightarrow> list_size vs
      | Inr (Inr (_, vs, _)) \<Rightarrow> list_size vs,
      \<lambda>x. case x of
        Inl (Inl _) \<Rightarrow> 0
      | Inl (Inr (_, ms, _)) \<Rightarrow> Suc (length ms)
      | Inr (Inl (_, _, _, vs, _)) \<Rightarrow> Suc (length vs)
      | Inr (Inr (_, vs, _)) \<Rightarrow> Suc (length vs)]")
qed (use list_size_children_less list_size_members_less in \<open>simp_all add: max_cases\<close>)

text \<open>\<^verbatim>\<open>StyledWriter::write\<close> and \<^verbatim>\<open>Value::toStyledString\<close>.\<close>

definition StyledWriter_write :: "'r printf \<Rightarrow> 'r json \<Rightarrow> string" where
  "StyledWriter_write real root =
     (let st0 = \<lparr>sw_document = [], sw_indent = [], sw_add_children = False, sw_children = []\<rparr>;
          st1 = writeValue real root (writeCommentBeforeValue root st0)
      in sw_document (writeCommentAfterValueOnSameLine root st1) @ [CHR 0x0A])"

definition toStyledString :: "'r printf \<Rightarrow> 'r json \<Rightarrow> string" where
  "toStyledString real v = StyledWriter_write real v"

section \<open>Quoted strings\<close>

lemma quote_char_plain:
  "c \<notin> set special_chars \<Longrightarrow> \<not> isControlCharacter c \<Longrightarrow> c \<noteq> CHR 0x00 \<Longrightarrow> quote_char c = [c]"
  by (auto simp: quote_char_def special_chars_def)

lemma quote_plain:
  "\<forall>c \<in> set v. c \<notin> set special_chars \<and> \<not> isControlCharacter c \<and> c \<noteq> CHR 0x00 \<Longrightarrow>
   concat (map quote_char v) = v"
  by (induction v) (simp_all add: quote_char_plain)

text \<open>The copy of a string without special characters is the escaped string.\<close>

lemma valueToQuotedStringN_eq:
  "valueToQuotedStringN v = CHR 0x22 # concat (map quote_char v) @ [CHR 0x22]"
proof (cases "\<not> list_ex (\<lambda>c. c \<in> set special_chars) v \<and> \<not> containsControlCharacter0 v")
  case True
  then have v: "\<forall>c \<in> set v. c \<notin> set special_chars \<and> \<not> isControlCharacter c \<and> c \<noteq> CHR 0x00"
    by (auto simp: list_ex_iff containsControlCharacter0_def)
  then have "CHR 0x00 \<notin> set v" by blast
  with quote_plain [OF v] True show ?thesis
    by (simp add: valueToQuotedStringN_def c_str_id)
qed (auto simp: valueToQuotedStringN_def)

lemma valueToQuotedString_eq: "valueToQuotedString s = valueToQuotedStringN (c_str s)"
proof -
  let ?v = "c_str s"
  have nn: "CHR 0x00 \<notin> set ?v" by (auto simp: c_str_def dest: set_takeWhileD)
  show ?thesis
  proof (cases "\<not> list_ex (\<lambda>c. c \<in> set special_chars) ?v \<and> \<not> containsControlCharacter ?v")
    case True
    then have "\<forall>c \<in> set ?v. c \<notin> set special_chars \<and> \<not> isControlCharacter c \<and> c \<noteq> CHR 0x00"
      using nn by (auto simp: list_ex_iff containsControlCharacter_def c_str_id)
    from quote_plain [OF this] True show ?thesis
      by (simp add: valueToQuotedString_def valueToQuotedStringN_eq)
  qed (auto simp: valueToQuotedString_def valueToQuotedStringN_eq Let_def)
qed

text \<open>
  A reader for what the writer quotes: it undoes the escapes. Quoting loses nothing, whatever
  the bytes of the string are.
\<close>

definition unhex_digit :: "char \<Rightarrow> nat" where
  "unhex_digit c = (if (of_char c :: nat) < 58 then of_char c - 48 else of_char c - 55)"

definition unescape_letter :: "char \<Rightarrow> char" where
  "unescape_letter c =
     (if c = CHR ''b'' then CHR 0x08 else if c = CHR ''f'' then CHR 0x0C
      else if c = CHR ''n'' then CHR 0x0A else if c = CHR ''r'' then CHR 0x0D
      else if c = CHR ''t'' then CHR 0x09 else c)"

function unquote :: "string \<Rightarrow> string" where
  "unquote s =
     (case s of
        [] \<Rightarrow> []
      | c # cs \<Rightarrow>
          if c \<noteq> CHR 0x5C then c # unquote cs
          else
            (case cs of
               [] \<Rightarrow> []
             | e # ds \<Rightarrow>
                 if e = CHR ''u''
                 then char_of (unhex_digit (ds ! 2) * 16 + unhex_digit (ds ! 3)) # unquote (drop 4 ds)
                 else unescape_letter e # unquote ds))"
  by auto
termination
  by (relation "measure length") auto

declare unquote.simps [simp del]

lemma unhex_hex: "n < 16 \<Longrightarrow> unhex_digit (hex_digit n) = n"
  by (simp add: unhex_digit_def hex_digit_def)

lemma unquote_quote_char: "unquote (quote_char c @ s) = c # unquote s"
proof (cases "isControlCharacter c \<or> c = CHR 0x00")
  case True
  then have n: "(of_char c :: nat) < 32" by (auto simp: isControlCharacter_def)
  have "unhex_digit (hex4 (of_char c) ! 2) * 16 + unhex_digit (hex4 (of_char c) ! 3) = of_char c"
    using n by (simp add: hex4_def unhex_hex)
  then show ?thesis
    using True unquote.simps [of "CHR 0x5C # CHR ''u'' # hex4 (of_char c) @ s"]
    by (auto simp: quote_char_def unquote.simps [of "CHR 0x5C # _"] unescape_letter_def
        hex4_def)
next
  case False
  then show ?thesis
    by (auto simp: quote_char_def unquote.simps [of "_ # _"] unescape_letter_def)
qed

lemma unquote_quoted: "unquote (concat (map quote_char v)) = v"
  by (induction v) (simp_all add: unquote_quote_char unquote.simps [of "[]"])

lemma valueToQuotedStringN_inj: "valueToQuotedStringN v = valueToQuotedStringN v' \<Longrightarrow> v = v'"
  by (metis append_same_eq list.inject unquote_quoted valueToQuotedStringN_eq)

section \<open>Integers\<close>

lemma uintToString_decimal: "uintToString v buffer = decimal (unat v) @ buffer"
proof (induction v buffer rule: uintToString.induct)
  case (1 v buffer)
  have d: "unat (v div 10) = unat v div 10" "unat (v mod 10) = unat v mod 10"
    by (simp_all add: unat_div unat_mod)
  have z: "v div 10 = 0 \<longleftrightarrow> unat v < 10"
    by (metis d(1) div_eq_0_iff unsigned_eq_0_iff zero_neq_numeral)
  have c: "char_of (unat (v mod 10) + 48) = digit_char (unat v mod 10)"
    by (simp add: digit_char_def d add.commute)
  show ?case
  proof (cases "unat v < 10")
    case True
    with z c show ?thesis
      by (subst uintToString.simps, subst decimal.simps) (simp add: Let_def)
  next
    case False
    with 1 z c d show ?thesis
      by (subst uintToString.simps, subst decimal.simps) (simp add: Let_def)
  qed
qed

text \<open>Every 64-bit integer is printed as its value, the smallest one included.\<close>

definition show_int :: "int \<Rightarrow> string" where
  "show_int i = (if i < 0 then CHR ''-'' # decimal (nat (- i)) else decimal (nat i))"

lemma minLargestInt_unat: "unat minLargestInt = 2 ^ 63"
  by (simp add: minLargestInt_def)

lemma unat_of_sint:
  fixes v :: "64 word"
  shows "0 \<le> sint v \<Longrightarrow> unat v = nat (sint v)"
    and "sint v < 0 \<Longrightarrow> unat (- v) = nat (- sint v)"
proof -
  have b: "- (2 ^ 63) \<le> sint v" "sint v < 2 ^ 63"
    using sint_greater_eq [of v] sint_less [of v] by simp_all
  have u: "uint (word_of_int k :: 64 word) = k" if "0 \<le> k" "k < 2 ^ 64" for k
    using that by (simp add: uint_word_of_int)
  show "unat v = nat (sint v)" if "0 \<le> sint v"
    using u [of "sint v"] that b by (simp add: unat_eq_nat_uint)
  show "unat (- v) = nat (- sint v)" if "sint v < 0"
  proof -
    have "uint (word_of_int (- sint v) :: 64 word) = - sint v"
      by (rule u) (use that b in auto)
    then show ?thesis by (simp add: unat_eq_nat_uint)
  qed
qed

lemma valueToString_int_correct: "valueToString_int v = show_int (sint v)"
proof (cases "v = minLargestInt")
  case True
  have "sint minLargestInt = - (2 ^ 63)" by (simp add: minLargestInt_def)
  with True show ?thesis
    by (simp add: valueToString_int_def show_int_def uintToString_decimal minLargestInt_unat)
next
  case False
  then show ?thesis
    by (simp add: valueToString_int_def show_int_def uintToString_decimal unat_of_sint)
qed

section \<open>Short arrays of strings\<close>

lemma unat_of_nat32: "i < 2 ^ 32 \<Longrightarrow> unat (word_of_nat i :: 32 word) = i"
  by (simp add: unat_of_nat)

lemma map_of_enumerate:
  assumes "i < length ss" and "length ss < 2 ^ 32"
  shows "map_of (map (\<lambda>(i, s). (word_of_nat i :: 32 word, f s)) (enumerate 0 ss)) (word_of_nat i) =
    Some (f (ss ! i))"
proof -
  let ?es = "map (\<lambda>(i, s). (word_of_nat i :: 32 word, f s)) (enumerate 0 ss)"
  have "inj_on (\<lambda>i. word_of_nat i :: 32 word) {0..<length ss}"
    using assms(2) unat_of_nat32 by (intro inj_onI) (metis atLeastLessThan_iff less_trans)
  moreover have "map fst ?es = map word_of_nat [0..<length ss]"
    by (rule nth_equalityI) (simp_all add: nth_enumerate_eq)
  ultimately have "distinct (map fst ?es)"
    by (simp only: distinct_map) simp
  moreover have "(word_of_nat i, f (ss ! i)) \<in> set ?es"
  proof -
    have "(i, ss ! i) \<in> set (enumerate 0 ss)" using assms(1) by (simp add: in_set_enumerate_eq)
    then show ?thesis by (auto intro!: image_eqI [where x = "(i, ss ! i)"])
  qed
  ultimately show ?thesis by (rule map_of_is_SomeI)
qed

lemma array_children_string_array:
  assumes "length ss < 2 ^ 32"
  shows "array_children (map (\<lambda>(i, s). (word_of_nat i, json_of (J_string s))) (enumerate 0 ss))
    (word_of_nat (length ss)) = map (\<lambda>s. json_of (J_string s)) ss"
proof -
  have "array_children (map (\<lambda>(i, s). (word_of_nat i, json_of (J_string s))) (enumerate 0 ss))
      (word_of_nat (length ss)) = map (\<lambda>i. json_of (J_string (ss ! i))) [0..<length ss]"
    using assms by (auto simp: array_children_def unat_of_nat32 map_of_enumerate intro!: map_cong)
  also have "\<dots> = map (\<lambda>s. json_of (J_string s)) (map ((!) ss) [0..<length ss])" by simp
  finally show ?thesis by (simp only: map_nth)
qed

lemma collect_strings:
  "sw_add_children st \<Longrightarrow>
   collect_children real (map (\<lambda>s. json_of (J_string s)) ss) st =
   st\<lparr>sw_children := sw_children st @ map valueToQuotedStringN ss\<rparr>"
  by (induction ss arbitrary: st) (simp_all add: json_of_def pushValue_def)

lemma line_length_nat:
  "unat (l :: 32 word) + sum_list (map length ts) < 2 ^ 32 \<Longrightarrow>
   unat (foldl (\<lambda>l t. l + word_of_nat (length t)) l ts) = unat l + sum_list (map length ts)"
proof (induction ts arbitrary: l)
  case (Cons t ts)
  have "unat (l + word_of_nat (length t)) = unat l + length t"
    using Cons.prems by (simp add: unat_word_ariths unat_of_nat)
  with Cons show ?case by simp
qed simp

definition string_elements :: "string list \<Rightarrow> (32 word \<times> 'r json) list" where
  "string_elements ss = map (\<lambda>(i, s). (word_of_nat i, json_of (J_string s))) (enumerate 0 ss)"

lemma enumerate_Nil_iff [simp]: "enumerate n ss = [] \<longleftrightarrow> ss = []"
  by (cases ss) simp_all

lemma last_enumerate: "ss \<noteq> [] \<Longrightarrow> last (enumerate 0 ss) = (length ss - 1, last ss)"
  by (simp add: last_conv_nth nth_enumerate_eq)

lemma string_elements_last:
  assumes ss: "ss \<noteq> []"
  shows "fst (last (string_elements ss :: (32 word \<times> 'r json) list)) + 1 = word_of_nat (length ss)"
proof -
  have "fst (last (string_elements ss :: (32 word \<times> 'r json) list)) = word_of_nat (length ss - 1)"
    using ss by (simp add: string_elements_def last_map last_enumerate)
  moreover have "word_of_nat (length ss - 1) + 1 = (word_of_nat (Suc (length ss - 1)) :: 32 word)"
    by simp
  ultimately show ?thesis using ss by simp
qed

lemma strings_not_multiline:
  assumes "3 * length ss < 74"
  shows "\<not> surely_multiline (word_of_nat (length ss)) (map (\<lambda>s. json_of (J_string s)) ss)"
proof -
  have "word_of_nat (length ss) * 3 = (word_of_nat (3 * length ss) :: 32 word)" by simp
  moreover have "unat (word_of_nat (3 * length ss) :: 32 word) = 3 * length ss"
    using assms by (intro unat_of_nat32) simp
  ultimately have "unat (word_of_nat (length ss) * 3 :: 32 word) = 3 * length ss"
    by (simp only:)
  then show ?thesis
    using assms
    by (simp add: surely_multiline_def rightMargin_def word_le_nat_alt list_ex_iff isArray_def
        isObject_def json_type_def json_of_def)
qed

lemma strings_line_length:
  assumes "2 + 2 * length ts + sum_list (map length ts) < 74" and "ts \<noteq> []"
  shows "\<not> rightMargin \<le> line_length (word_of_nat (length ts)) ts"
proof -
  have "4 + (word_of_nat (length ts) - 1) * 2 = (word_of_nat (2 + 2 * length ts) :: 32 word)"
    by (simp add: algebra_simps)
  moreover have "unat (word_of_nat (2 + 2 * length ts) :: 32 word) = 2 + 2 * length ts"
    using assms by (intro unat_of_nat32) simp
  ultimately have l0: "unat (4 + (word_of_nat (length ts) - 1) * 2 :: 32 word) = 2 + 2 * length ts"
    by (simp only:)
  have lt: "2 + 2 * length ts + sum_list (map length ts) < 2 ^ 32" using assms(1) by simp
  have "unat (line_length (word_of_nat (length ts)) ts) =
      unat (4 + (word_of_nat (length ts) - 1) * 2 :: 32 word) + sum_list (map length ts)"
    unfolding line_length_def by (rule line_length_nat) (simp only: l0 lt)
  with l0 have "unat (line_length (word_of_nat (length ts)) ts) =
      2 + 2 * length ts + sum_list (map length ts)" by linarith
  with assms show ?thesis by (simp add: rightMargin_def word_le_nat_alt)
qed

lemma strings_no_comments:
  "\<not> list_ex hasCommentForValue (map (\<lambda>s. json_of (J_string s)) ss)"
  by (auto simp: list_ex_iff hasCommentForValue_def hasComment_def getComment_def
      json_of_def no_comments_def)

lemma write_string_array:
  fixes real :: "'r printf"
  assumes ss: "ss \<noteq> []" and few: "3 * length ss < 74" and st: "\<not> sw_add_children st"
    and fit: "2 + 2 * length ss + sum_list (map (length \<circ> valueToQuotedStringN) ss) < 74"
  shows "writeValue real (Json (J_array (string_elements ss)) c) st =
    sw_append (''[ '' @ comma_separated (map valueToQuotedStringN ss) @ '' ]'')
      (st\<lparr>sw_children := map valueToQuotedStringN ss\<rparr>)"
proof -
  let ?n = "word_of_nat (length ss) :: 32 word"
  have n32: "length ss < 2 ^ 32" using few by simp
  have ch: "array_children (string_elements ss :: (32 word \<times> 'r json) list) ?n =
      map (\<lambda>s. json_of (J_string s)) ss"
    unfolding string_elements_def using n32 by (rule array_children_string_array)
  have "unat ?n = length ss" using n32 by (rule unat_of_nat32)
  then have "?n \<noteq> 0" using ss by auto
  moreover have "string_elements ss \<noteq> ([] :: (32 word \<times> 'r json) list)"
    using ss by (simp add: string_elements_def)
  ultimately have size: "json_size (Json (J_array (string_elements ss :: (32 word \<times> 'r json) list)) c) \<noteq> 0"
    using string_elements_last [OF ss, where 'r = 'r] by (simp add: json_size_def)
  have line: "\<not> rightMargin \<le> line_length ?n (map valueToQuotedStringN ss)"
    using strings_line_length [of "map valueToQuotedStringN ss"] fit ss by simp
  have flat: "\<not> surely_multiline ?n (map (\<lambda>s. json_of (J_string s) :: 'r json) ss)"
    "\<not> list_ex hasCommentForValue (map (\<lambda>s. json_of (J_string s) :: 'r json) ss)"
    using strings_not_multiline [OF few] strings_no_comments by blast+
  show ?thesis
    using st size line flat
      string_elements_last [OF ss, where 'r = 'r] ch
    by (simp add: collect_strings Let_def sw_append_def)
qed

end
