(* ===== verification/Http_Server.thy ===== *)
theory Http_Server
  imports Http_Endpoint Json_Writer Sender Registration
begin

text \<open>
  \<^verbatim>\<open>http/server.cpp\<close>: the tables of endpoints and schemas, the registry, routing of requests and
  cross-origin preflight requests. The tables of the methods are ordered by descending name, so
  that the first endpoint that a path begins with is the longest one.
\<close>

section \<open>State\<close>

record 'e http_server =
  hs_sender :: sender
  hs_schemas :: "(string, string) smap"
  hs_methods :: "http_method \<Rightarrow> (string, 'e rest_func) smap"
  hs_pipe :: sock

type_synonym 'e http_state = "'e http_server \<times> 'e zworld"

abbreviation descending :: "string \<Rightarrow> string \<Rightarrow> bool" where
  "descending x y \<equiv> y < x"

definition at_method ::
  "http_method \<Rightarrow> ((string, 'e rest_func) smap \<Rightarrow> (string, 'e rest_func) smap) \<Rightarrow>
   'e http_server \<Rightarrow> 'e http_server" where
  "at_method m f srv = srv\<lparr>hs_methods := (hs_methods srv)(m := f (hs_methods srv m))\<rparr>"

section \<open>Schemas and endpoints\<close>

definition Http_getSchema :: "string \<Rightarrow> 'e http_server \<Rightarrow> string" where
  "Http_getSchema endpoint srv =
     (case map_of (hs_schemas srv) endpoint of None \<Rightarrow> [] | Some s \<Rightarrow> s)"

definition registerSchema ::
  "string \<Rightarrow> string \<Rightarrow> 'e http_server \<Rightarrow> ('e http_server, unit) outcome" where
  "registerSchema endpoint schema srv =
     (let exist = Http_getSchema endpoint srv
      in if exist = []
         then (srv\<lparr>hs_schemas := smap_put (<) endpoint schema (hs_schemas srv)\<rparr>, Inr ())
         else if schema \<noteq> exist
         then (srv, Inl (Runtime_error (''Schema registered for endpoint differs: '' @ endpoint)))
         else (srv, Inr ()))"

definition in_methods :: "http_method \<Rightarrow> string \<Rightarrow> 'e http_server \<Rightarrow> bool" where
  "in_methods m endpoint srv \<longleftrightarrow> map_of (hs_methods srv m) endpoint \<noteq> None"

definition erase_method :: "http_method \<Rightarrow> string \<Rightarrow> 'e http_server \<Rightarrow> 'e http_server \<times> bool" where
  "erase_method m endpoint srv =
     (at_method m (smap_erase descending endpoint) srv, in_methods m endpoint srv)"

definition Http_remove_object :: "'e json_object \<Rightarrow> 'e http_server \<Rightarrow> 'e http_server \<times> bool" where
  "Http_remove_object obj srv =
     (let endpoint = convertEndpointName (jo_typeName obj);
          srv1 = srv\<lparr>hs_schemas := smap_erase (<) endpoint (hs_schemas srv)\<rparr>;
          (srv2, foundPUT) = erase_method PUT endpoint srv1;
          (srv3, foundGET) = erase_method GET endpoint srv2
      in (srv3, foundPUT \<or> foundGET))"

text \<open>The array of method tables, in its order.\<close>

definition all_methods :: "http_method list" where
  "all_methods = [GET, POST, PUT, PATCH, DELETE, OPTIONS]"

definition Http_remove :: "string \<Rightarrow> 'e http_server \<Rightarrow> 'e http_server \<times> bool" where
  "Http_remove endpoint srv =
     fold (\<lambda>m (s, foundMethod).
             let (s1, found) = erase_method m endpoint s in (s1, foundMethod \<or> found))
       all_methods (srv\<lparr>hs_schemas := smap_erase (<) endpoint (hs_schemas srv)\<rparr>, False)"

text \<open>Indexing the array of tables with \<^verbatim>\<open>Method::ALL\<close> is past its end.\<close>

definition Http_handle ::
  "http_method \<Rightarrow> string \<Rightarrow> 'e rest_func \<Rightarrow> 'e http_server \<Rightarrow> ('e http_server, bool) outcome" where
  "Http_handle m endpoint func srv =
     (case checkEndpointName endpoint of
        Some e \<Rightarrow> (srv, Inl e)
      | None \<Rightarrow>
          if m = ALL_METHODS then (srv, Inl (Undefined ''_methods[ALL]''))
          else if in_methods m endpoint srv then (srv, Inr False)
          else (at_method m (smap_put descending endpoint func) srv, Inr True))"

text \<open>The handlers that wrap the simpler callbacks.\<close>

definition put_handler :: "'e put_payload_func \<Rightarrow> 'e rest_func" where
  "put_handler func request e =
     (case func (rq_body request) e of
        (e1, Inl x) \<Rightarrow> (e1, Inl x)
      | (e1, Inr ok) \<Rightarrow>
          (e1, Inr (make_ready_response (Response (if ok then OK else BAD_REQUEST) []))))"

definition get_handler :: "'e get_func \<Rightarrow> 'e rest_func" where
  "get_handler func request e =
     (case func e of
        (e1, Inl x) \<Rightarrow> (e1, Inl x)
      | (e1, Inr body) \<Rightarrow> (e1, Inr (make_ready_response (Response_type OK body JSON_TYPE))))"

definition handle_with_schema ::
  "http_method \<Rightarrow> string \<Rightarrow> string \<Rightarrow> 'e rest_func \<Rightarrow> 'e http_server \<Rightarrow>
   ('e http_server, bool) outcome" where
  "handle_with_schema m endpoint schema func srv =
     (case checkEndpointName endpoint of
        Some e \<Rightarrow> (srv, Inl e)
      | None \<Rightarrow>
          and_then (Http_handle m endpoint func srv)
            (\<lambda>ok srv1.
               if \<not> ok then (srv1, Inr False)
               else if schema \<noteq> []
               then and_then (registerSchema endpoint schema srv1) (\<lambda>_ srv2. (srv2, Inr True))
               else (srv1, Inr True)))"

definition handlePUT ::
  "string \<Rightarrow> string \<Rightarrow> 'e put_payload_func \<Rightarrow> 'e http_server \<Rightarrow> ('e http_server, bool) outcome" where
  "handlePUT endpoint schema func srv =
     handle_with_schema PUT endpoint schema (put_handler func) srv"

definition handleGET ::
  "string \<Rightarrow> string \<Rightarrow> 'e get_func \<Rightarrow> 'e http_server \<Rightarrow> ('e http_server, bool) outcome" where
  "handleGET endpoint schema func srv =
     handle_with_schema GET endpoint schema (get_handler func) srv"

definition handlePUT_object ::
  "string \<Rightarrow> 'e json_object \<Rightarrow> 'e http_server \<Rightarrow> ('e http_server, bool) outcome" where
  "handlePUT_object endpoint obj srv = handlePUT endpoint (jo_schema obj) (jo_fromJSON obj) srv"

definition handleGET_object ::
  "string \<Rightarrow> 'e json_object \<Rightarrow> 'e http_server \<Rightarrow> ('e http_server, bool) outcome" where
  "handleGET_object endpoint obj srv = handleGET endpoint (jo_schema obj) (jo_toJSON obj) srv"

definition handlePUT_func ::
  "string \<Rightarrow> string \<Rightarrow> 'e put_func \<Rightarrow> 'e http_server \<Rightarrow> ('e http_server, bool) outcome" where
  "handlePUT_func endpoint schema func srv = handlePUT endpoint schema (\<lambda>_. func) srv"

text \<open>\<^verbatim>\<open>handlePUT(endpoint, object) && handleGET(endpoint, object)\<close>.\<close>

definition Http_handle_object ::
  "string \<Rightarrow> 'e json_object \<Rightarrow> 'e http_server \<Rightarrow> ('e http_server, bool) outcome" where
  "Http_handle_object endpoint obj srv =
     and_then (handlePUT_object endpoint obj srv)
       (\<lambda>ok srv1. if ok then handleGET_object endpoint obj srv1 else (srv1, Inr False))"

text \<open>Without an endpoint an object is served under the name of its type.\<close>

definition handlePUT_typed :: "'e json_object \<Rightarrow> 'e http_server \<Rightarrow> ('e http_server, bool) outcome" where
  "handlePUT_typed obj srv = handlePUT_object (convertEndpointName (jo_typeName obj)) obj srv"

definition handleGET_typed :: "'e json_object \<Rightarrow> 'e http_server \<Rightarrow> ('e http_server, bool) outcome" where
  "handleGET_typed obj srv = handleGET_object (convertEndpointName (jo_typeName obj)) obj srv"

definition Http_handle_typed :: "'e json_object \<Rightarrow> 'e http_server \<Rightarrow> ('e http_server, bool) outcome" where
  "Http_handle_typed obj srv =
     and_then (handlePUT_typed obj srv)
       (\<lambda>ok srv1. if ok then handleGET_typed obj srv1 else (srv1, Inr False))"

text \<open>Without a schema.\<close>

definition handlePUT_event ::
  "string \<Rightarrow> 'e put_func \<Rightarrow> 'e http_server \<Rightarrow> ('e http_server, bool) outcome" where
  "handlePUT_event endpoint func srv = handlePUT endpoint [] (\<lambda>_. func) srv"

definition handlePUT_payload ::
  "string \<Rightarrow> 'e put_payload_func \<Rightarrow> 'e http_server \<Rightarrow> ('e http_server, bool) outcome" where
  "handlePUT_payload endpoint func srv = handlePUT endpoint [] func srv"

definition handleGET_func ::
  "string \<Rightarrow> 'e get_func \<Rightarrow> 'e http_server \<Rightarrow> ('e http_server, bool) outcome" where
  "handleGET_func endpoint func srv = handleGET endpoint [] func srv"

definition getSchema_object :: "'e json_object \<Rightarrow> 'e http_server \<Rightarrow> string" where
  "getSchema_object obj srv = Http_getSchema (convertEndpointName (jo_typeName obj)) srv"

section \<open>The registry\<close>

definition method_name :: "http_method \<Rightarrow> string" where
  "method_name m =
     (case m of GET \<Rightarrow> ''GET'' | POST \<Rightarrow> ''POST'' | PUT \<Rightarrow> ''PUT'' | PATCH \<Rightarrow> ''PATCH''
      | DELETE \<Rightarrow> ''DELETE'' | OPTIONS \<Rightarrow> ''OPTIONS'' | ALL_METHODS \<Rightarrow> ''ALL'')"

text \<open>\<^verbatim>\<open>body[i.first].append("GET")\<close>, for every endpoint of every method.\<close>

definition register_method :: "http_method \<Rightarrow> string \<Rightarrow> 'r json \<Rightarrow> ('r json, unit) outcome" where
  "register_method m endpoint body =
     (case json_member endpoint (json_append (json_of (J_string (method_name m)))) body of
        Inl e \<Rightarrow> (body, Inl e)
      | Inr body' \<Rightarrow> (body', Inr ()))"

definition registry_value :: "'e http_server \<Rightarrow> ('r json, unit) outcome" where
  "registry_value srv =
     for_each (\<lambda>m. for_each (register_method m) (map fst (hs_methods srv m)))
       all_methods (json_of (J_object []))"

definition getRegistry :: "'r printf \<Rightarrow> 'e http_server \<Rightarrow> exn + string" where
  "getRegistry real srv =
     (case registry_value srv of
        (_, Inl e) \<Rightarrow> Inl e
      | (body, Inr _) \<Rightarrow> Inr (toStyledString real body))"

definition getAllowedMethods :: "string \<Rightarrow> 'e http_server \<Rightarrow> string" where
  "getAllowedMethods endpoint srv =
     fold (\<lambda>m methods.
             if in_methods m endpoint srv
             then methods @ (if methods = [] then method_name m else '', '' @ method_name m)
             else methods)
       all_methods []"

section \<open>Responding\<close>

definition run_handler ::
  "http_method \<Rightarrow> string \<Rightarrow> 'e rest_func \<Rightarrow> http_request \<Rightarrow> 'e zworld \<Rightarrow> ('e zworld, future) outcome" where
  "run_handler m endpoint func request w =
     run_callback (On_http (method_index m) endpoint) (\<lambda>_. func request) None w"

definition schema_endpoint :: "string \<Rightarrow> string" where
  "schema_endpoint path = substr_to path (find_last_char CHR ''/'' path)"

text \<open>What the server answers itself: the registry, and the schema of an endpoint.\<close>

definition builtin_response ::
  "'r printf \<Rightarrow> 'e http_server \<Rightarrow> http_method \<Rightarrow> string \<Rightarrow> (exn + future) option" where
  "builtin_response real srv m path =
     (if m \<noteq> GET then None
      else if path = REQUEST_REGISTRY
      then Some (case getRegistry real srv of
                   Inl e \<Rightarrow> Inl e
                 | Inr text \<Rightarrow> Inr (make_ready_response (Response_type OK text JSON_TYPE)))
      else if endsWithSchema path
      then (case map_of (hs_schemas srv) (schema_endpoint path) of
              None \<Rightarrow> None
            | Some schema \<Rightarrow> Some (Inr (make_ready_response (Response_type OK schema JSON_TYPE))))
      else None)"

definition fallback_response ::
  "'e http_server \<Rightarrow> (string, 'e rest_func) smap \<Rightarrow> string \<Rightarrow> http_request \<Rightarrow> 'e zworld \<Rightarrow>
   (http_request \<times> 'e zworld) \<times> (exn + future)" where
  "fallback_response srv funcMap path request w =
     (case map_of funcMap ''/'' of
        Some func \<Rightarrow>
          let request1 = request\<lparr>rq_path := path\<rparr>;
              (w1, r) = run_handler (rq_method request) ''/'' func request1 w
          in ((request1, w1), r)
      | None \<Rightarrow>
          let allowedMethods = getAllowedMethods path srv
          in ((request, w),
              Inr (make_ready_response
                (if allowedMethods \<noteq> []
                 then Response_headers NOT_SUPPORTED [] [(ALLOW, allowedMethods)]
                 else Response NOT_FOUND []))))"

text \<open>
  The path of the request is stripped of the endpoint when a handler is called.
  \<^verbatim>\<open>*endpoint.rbegin()\<close> of an empty endpoint is undefined.
\<close>

definition respondTo ::
  "'r printf \<Rightarrow> 'e http_server \<Rightarrow> http_request \<Rightarrow> 'e zworld \<Rightarrow>
   (http_request \<times> 'e zworld) \<times> (exn + future)" where
  "respondTo real srv request w =
     (let m = rq_method request in
      case substr_from (rq_path request) 1 of
        Inl e \<Rightarrow> ((request, w), Inl e)
      | Inr path \<Rightarrow>
          (case builtin_response real srv m path of
             Some r \<Rightarrow> ((request, w), r)
           | None \<Rightarrow>
               if m = ALL_METHODS then ((request, w), Inl (Undefined ''_methods[ALL]''))
               else
                 let funcMap = hs_methods srv m
                 in (case find (\<lambda>(endpoint, _). find_sub endpoint path = Some 0) funcMap of
                       None \<Rightarrow> fallback_response srv funcMap path request w
                     | Some (endpoint, func) \<Rightarrow>
                         let pathStripped = removeEndpointFromPath endpoint path
                         in if pathStripped \<noteq> [] \<and> endpoint = []
                            then ((request, w), Inl (Undefined ''rbegin of an empty string''))
                            else if pathStripped = [] \<or> last endpoint = CHR ''/''
                            then
                              let request1 = request\<lparr>rq_path := pathStripped\<rparr>;
                                  (w1, r) = run_handler m endpoint func request1 w
                              in ((request1, w1), r)
                            else fallback_response srv funcMap path request w)))"

section \<open>Cross-origin requests\<close>

definition isSchemaRequest :: "'e http_server \<Rightarrow> message \<Rightarrow> string \<Rightarrow> bool" where
  "isSchemaRequest srv message path \<longleftrightarrow>
     endsWithSchema path \<and> map_of (hs_schemas srv) (schema_endpoint path) \<noteq> None \<and>
     ms_request_method message = GET"

definition processCorsPreflightRequest ::
  "'e http_server \<Rightarrow> message \<Rightarrow> (message, unit) outcome" where
  "processCorsPreflightRequest srv message =
     (case substr_from (rq_path (ms_request message)) 1 of
        Inl e \<Rightarrow> (message, Inl e)
      | Inr path \<Rightarrow>
          let schemaRequest = isSchemaRequest srv message path
          in if ms_request_method message = ALL_METHODS
             then (message, Inl (Undefined ''_methods[ALL]''))
             else if \<not> in_methods (ms_request_method message) path srv \<and> \<not> schemaRequest
             then (message\<lparr>ms_response := make_ready_response (Response NOT_SUPPORTED [])\<rparr>, Inr ())
             else
               (message\<lparr>ms_cors :=
                    [(access_control_allow_headers, ''Content-Type''),
                     (access_control_allow_methods,
                      if schemaRequest then ''GET'' else getAllowedMethods path srv),
                     (access_control_allow_origin, ''*'')],
                  ms_response := make_ready_response (Response OK [])\<rparr>, Inr ()))"

section \<open>Processing\<close>

text \<open>
  The message travels as a pointer; \<open>heap\<close> is what pointers refer to, and nothing for the null
  pointer, which is what a failed receive leaves. The thread of the HTTP library waits until
  \<^verbatim>\<open>done\<close> is sent back.
\<close>

definition respond_message ::
  "'r printf \<Rightarrow> 'e http_server \<Rightarrow> message \<Rightarrow> 'e zworld \<Rightarrow> (message \<times> 'e zworld, unit) outcome" where
  "respond_message real srv message w =
     (let ((request1, w1), r) = respondTo real srv (ms_request message) w;
          message1 = message\<lparr>ms_request := request1\<rparr>;
          origin = (\<lambda>m. if isCorsRequest m then m\<lparr>ms_cors := [(access_control_allow_origin, ''*'')]\<rparr>
                        else m)
      in case r of
           Inr f \<Rightarrow> ((origin (message1\<lparr>ms_response := f\<rparr>), w1), Inr ())
         | Inl e \<Rightarrow>
             if is_undefined e then ((message1, w1), Inl e)
             else
               (let text = (case what_of e of
                              Some what \<Rightarrow> ''Request handler exception: '' @ what
                            | None \<Rightarrow> ''An unknown exception occurred'')
                in ((origin (message1\<lparr>ms_response := make_ready_response
                       (Response INTERNAL_SERVER_ERROR text)\<rparr>), w1), Inr ())))"

type_synonym heap = "bytes \<rightharpoonup> message"

definition Http_process ::
  "'e zmq \<Rightarrow> 'r printf \<Rightarrow> 'e http_server \<Rightarrow> heap \<times> 'e zworld \<Rightarrow>
   (heap \<times> 'e zworld, bool) outcome" where
  "Http_process Z real srv st =
     (let (heap, w) = st;
          (w1, msg) = z_recv Z (sn_socket (hs_sender srv)) False w;
          ptr = (case msg of None \<Rightarrow> [] | Some f \<Rightarrow> fst f)
      in case heap ptr of
           None \<Rightarrow> ((heap, w1),
             Inl (Runtime_error ''Could not receive HTTP request from HTTP server''))
         | Some message \<Rightarrow>
             and_then
               (if isCorsPreflightRequest message
                then (case processCorsPreflightRequest srv message of (m, r) \<Rightarrow> ((heap(ptr \<mapsto> m), w1), r))
                else (case respond_message real srv message w1 of
                        ((m, w2), r) \<Rightarrow> ((heap(ptr \<mapsto> m), w2), r)))
               (\<lambda>_ (heap', w2).
                  ((heap', fst (z_send Z (sn_socket (hs_sender srv)) ([1], False) False w2)),
                   Inr True)))"

section \<open>Construction\<close>

text \<open>
  The HTTP library is a parameter: \<open>listen\<close> starts the server at a host and a port and yields the
  address and the port it is bound to, or throws. \<open>inproc\<close> is the address of the pipe between the
  two threads, made from the address of the object.

  Once the server listens its thread runs, and it is the last member: an exception after that
  destroys it while it can be joined, which is \<^verbatim>\<open>std::terminate\<close>. The program ends before another
  member is destroyed.
\<close>

definition Http_destroy :: "'e zmq \<Rightarrow> bool \<Rightarrow> 'e http_state \<Rightarrow> 'e zworld" where
  "Http_destroy Z shared st =
     (let (srv, w) = st in Sender_destroy Z shared (hs_sender srv) (z_close Z (hs_pipe srv) w))"

definition bound_uri :: "os \<Rightarrow> string \<Rightarrow> string \<Rightarrow> exn + servus_uri" where
  "bound_uri os address portText =
     (case stoi portText of
        Inl e \<Rightarrow> Inl e
      | Inr n \<Rightarrow>
          Inr (URI_default\<lparr>uri_host := (if address = ''0.0.0.0'' then gethostname os else address),
                 uri_port := word_of_int n\<rparr>))"

definition joinable_destroyed :: exn where
  "joinable_destroyed = Undefined ''std::terminate: destruction of a joinable thread''"

definition Http_create ::
  "'e zmq \<Rightarrow> 'e servus \<Rightarrow> os \<Rightarrow> uri_parser \<Rightarrow>
   (string \<Rightarrow> string \<Rightarrow> 'e \<Rightarrow> 'e \<times> (exn + string \<times> string)) \<Rightarrow> string \<Rightarrow> servus_uri \<Rightarrow> string \<Rightarrow>
   'e zworld \<Rightarrow> ('e zworld, 'e http_server) outcome" where
  "Http_create Z S os parse listen inproc uri session w =
     (case URI_string parse inproc of
        Inl e \<Rightarrow> (w, Inl e)
      | Inr uri0 \<Rightarrow>
          let (w1, sn) = Sender_create Z S uri0 ZMQ_PAIR HTTP_SERVER_SERVICE
                           (if session = DEFAULT_SESSION then getDefaultPubSession os else session) w;
              (w2, pipe) = z_socket Z ZMQ_PAIR w1;
              (w3, connected) = z_connect Z pipe inproc w2;
              srv = \<lparr>hs_sender = sn, hs_schemas = [], hs_methods = (\<lambda>_. []), hs_pipe = pipe\<rparr>;
              fail = (\<lambda>e w. (Http_destroy Z False (srv, w), Inl e))
          in if \<not> connected
             then (Sender_destroy Z False sn w3,
                   Inl (Runtime_error ''Cannot connect RequestHandler to inproc socket''))
             else
               let (w4, bound) = z_bind Z (sn_socket sn) inproc w3
               in if \<not> bound
                  then fail (Runtime_error ''Cannot bind HTTPServer to inproc socket'') w4
                  else
                    (case listen (getHost uri) (decimal (unat (uri_port uri))) (env w4) of
                       (e5, Inl x) \<Rightarrow>
                         fail (case what_of x of
                                 Some what \<Rightarrow>
                                   Runtime_error (''Error while starting HTTP server: '' @ what)
                               | None \<Rightarrow> x) (w4\<lparr>env := e5\<rparr>)
                     | (e5, Inr (address, portText)) \<Rightarrow>
                         let w5 = w4\<lparr>env := e5\<rparr>
                         in (case bound_uri os address portText of
                               Inl _ \<Rightarrow> (w5, Inl joinable_destroyed)
                             | Inr uri5 \<Rightarrow>
                                 let sn5 = sn\<lparr>sn_uri := uri5\<rparr>
                                 in (case announce S os sn5 w5 of
                                       (w6, Inl _) \<Rightarrow> (w6, Inl joinable_destroyed)
                                     | (w6, Inr _) \<Rightarrow> (w6, Inr (srv\<lparr>hs_sender := sn5\<rparr>))))))"

definition Http_addSockets :: "'e http_server \<Rightarrow> sock list \<Rightarrow> sock list" where
  "Http_addSockets srv entries = entries @ [sn_socket (hs_sender srv)]"

text \<open>\<open>getsockopt\<close> reads \<^verbatim>\<open>ZMQ_FD\<close>; \<open>None\<close> when it fails.\<close>

definition getSocketDescriptor ::
  "(sock \<Rightarrow> 'e \<Rightarrow> 'e \<times> int option) \<Rightarrow> 'e http_server \<Rightarrow> 'e \<Rightarrow> 'e \<times> (exn + int)" where
  "getSocketDescriptor getsockopt srv e =
     (case getsockopt (sn_socket (hs_sender srv)) e of
        (e1, None) \<Rightarrow> (e1, Inl (Runtime_error ''Could not get socket descriptor''))
      | (e1, Some fd) \<Rightarrow> (e1, Inr fd))"

text \<open>The first character of an empty argument is the terminating NUL.\<close>

fun getServerParameter :: "string list \<Rightarrow> string" where
  "getServerParameter [] = []"
| "getServerParameter (arg # args) =
     (if arg = ''--zeroeq-http-server''
      then (case args of
              [] \<Rightarrow> ''tcp://''
            | next # _ \<Rightarrow> (if next \<noteq> [] \<and> hd next = CHR ''-'' then ''tcp://'' else next))
      else getServerParameter args)"

definition Http_parse ::
  "'e zmq \<Rightarrow> 'e servus \<Rightarrow> os \<Rightarrow> uri_parser \<Rightarrow>
   (string \<Rightarrow> string \<Rightarrow> 'e \<Rightarrow> 'e \<times> (exn + string \<times> string)) \<Rightarrow> string \<Rightarrow> string list \<Rightarrow>
   'e zworld \<Rightarrow> ('e zworld, 'e http_server option) outcome" where
  "Http_parse Z S os parse listen inproc argv w =
     (let param = getServerParameter argv
      in if param = [] then (w, Inr None)
         else
           (case URI_string parse param of
              Inl e \<Rightarrow> (w, Inl e)
            | Inr uri \<Rightarrow>
                and_then (Http_create Z S os parse listen inproc uri DEFAULT_SESSION w)
                  (\<lambda>srv w1. (w1, Inr (Some srv)))))"

section \<open>The tables\<close>

text \<open>All tables are ordered, no endpoint is called \<^verbatim>\<open>registry\<close>, and no schema is empty.\<close>

definition http_ok :: "'e http_server \<Rightarrow> bool" where
  "http_ok srv \<longleftrightarrow>
     smap_ok (<) (hs_schemas srv) \<and> (\<forall>m. smap_ok descending (hs_methods srv m)) \<and>
     (\<forall>m. map_of (hs_methods srv m) REQUEST_REGISTRY = None) \<and>
     (\<forall>k. map_of (hs_schemas srv) k \<noteq> Some [])"

lemmas http_ops =
  Http_handle_def handle_with_schema_def handlePUT_def handleGET_def handlePUT_object_def
  handleGET_object_def handlePUT_func_def Http_handle_object_def handlePUT_typed_def
  handleGET_typed_def

lemma checkEndpointName_None: "checkEndpointName k = None \<longleftrightarrow> k \<noteq> REQUEST_REGISTRY"
  by (simp add: checkEndpointName_def)

lemma http_ok_handle:
  assumes "http_ok srv" and "Http_handle m k f srv = (srv', r)"
  shows "http_ok srv'"
  using assms
  by (auto simp: Http_handle_def http_ok_def at_method_def desc.put_ok desc.lookup_put
      checkEndpointName_None split: option.splits if_splits)

lemma http_ok_registerSchema:
  assumes "http_ok srv" and "schema \<noteq> []" and "registerSchema k schema srv = (srv', r)"
  shows "http_ok srv'"
  using assms
  by (auto simp: registerSchema_def http_ok_def Let_def asc.put_ok asc.lookup_put
      split: if_splits)

lemma http_ok_with_schema:
  assumes "http_ok srv" and "handle_with_schema m k schema f srv = (srv', r)"
  shows "http_ok srv'"
proof -
  obtain s1 x where 1: "Http_handle m k f srv = (s1, x)" by (metis prod.exhaust)
  obtain s2 y where 2: "registerSchema k schema s1 = (s2, y)" by (metis prod.exhaust)
  note ok1 = http_ok_handle [OF assms(1) 1]
  have "schema \<noteq> [] \<Longrightarrow> http_ok s2" using http_ok_registerSchema [OF ok1 _ 2] by blast
  with assms 1 2 ok1 show ?thesis
    by (cases x; cases y) (auto simp: handle_with_schema_def split: option.splits if_splits)
qed

lemma http_ok_erase:
  assumes "http_ok srv" and "erase_method m k srv = (srv', b)"
  shows "http_ok srv'"
  using assms by (auto simp: erase_method_def http_ok_def at_method_def desc.erase_ok desc.lookup_erase)

lemma http_ok_erase_schema:
  "http_ok srv \<Longrightarrow> http_ok (srv\<lparr>hs_schemas := smap_erase (<) k (hs_schemas srv)\<rparr>)"
  by (auto simp: http_ok_def asc.erase_ok asc.lookup_erase)

lemma http_ok_remove:
  assumes "http_ok srv" and "Http_remove k srv = (srv', b)"
  shows "http_ok srv'"
proof -
  have "http_ok (fst (fold (\<lambda>m (s, foundMethod).
      let (s1, found) = erase_method m k s in (s1, foundMethod \<or> found)) ms (s0, b0)))"
    if "http_ok s0" for ms s0 b0
    using that
  proof (induction ms arbitrary: s0 b0)
    case (Cons m ms)
    obtain s1 c where "erase_method m k s0 = (s1, c)" by (metis prod.exhaust)
    with http_ok_erase [OF Cons.prems this] Cons.IH show ?case by simp
  qed simp
  from this [OF http_ok_erase_schema [OF assms(1), of k]] assms(2) show ?thesis
    by (simp add: Http_remove_def) (metis fst_conv)
qed

lemma http_ok_remove_object:
  assumes "http_ok srv" and "Http_remove_object obj srv = (srv', b)"
  shows "http_ok srv'"
proof -
  let ?k = "convertEndpointName (jo_typeName obj)"
  note ok1 = http_ok_erase_schema [OF assms(1), of ?k]
  obtain s2 b2 where 2: "erase_method PUT ?k (srv\<lparr>hs_schemas := smap_erase (<) ?k (hs_schemas srv)\<rparr>)
    = (s2, b2)" by (metis prod.exhaust)
  obtain s3 b3 where 3: "erase_method GET ?k s2 = (s3, b3)" by (metis prod.exhaust)
  from http_ok_erase [OF http_ok_erase [OF ok1 2] 3] assms(2) 2 3 show ?thesis
    by (simp add: Http_remove_object_def Let_def)
qed

text \<open>The table of one method, as a registry of handlers.\<close>

interpretation http: registration
  "\<lambda>srv. http_ok srv" "\<lambda>srv. map_of (hs_methods srv m)"
  "\<lambda>k f srv. Http_handle m k f srv" "\<lambda>k srv. apsnd Inr (erase_method m k srv)"
  for m
proof unfold_locales
  show "http_ok s \<Longrightarrow> Http_handle m k f s = (s', Inr b) \<Longrightarrow> http_ok s'" for s s' k f b
    by (rule http_ok_handle)
  show "http_ok s \<Longrightarrow> Http_handle m k f s = (s', Inr b) \<Longrightarrow>
      reg_step (Add k f) (map_of (hs_methods s m)) = (map_of (hs_methods s' m), b)" for s s' k f b
    by (auto simp: Http_handle_def at_method_def in_methods_def desc.lookup_put
        split: option.splits if_splits)
  show "http_ok s \<Longrightarrow> apsnd Inr (erase_method m k s) = (s', Inr b) \<Longrightarrow> http_ok s'"
    for s s' k and b :: bool
    using http_ok_erase [of s m k s' b] by (cases "erase_method m k s") auto
  show "http_ok s \<Longrightarrow> apsnd Inr (erase_method m k s) = (s', Inr b) \<Longrightarrow>
      reg_step (Remove k) (map_of (hs_methods s m)) = (map_of (hs_methods s' m), b)"
    for s s' k b
    by (auto simp: erase_method_def at_method_def in_methods_def http_ok_def desc.lookup_erase)
qed

end
