(* ===== verification/Http_Reachable.thy ===== *)
theory Http_Reachable
  imports Http_Server
begin

text \<open>
  The states an HTTP server gets into by its public operations, what holds in all of them, and a
  server on the sample network.
\<close>

text \<open>The tables a server gets by its registration functions, whatever these return.\<close>

inductive http_reach :: "'e http_server \<Rightarrow> bool" where
  create: "Http_create Z S os parse listen inproc uri session w = (w', Inr srv) \<Longrightarrow> http_reach srv"
| handle: "http_reach srv \<Longrightarrow> Http_handle m k f srv = (srv', r) \<Longrightarrow> http_reach srv'"
| handlePUT: "http_reach srv \<Longrightarrow> handlePUT k schema g srv = (srv', r) \<Longrightarrow> http_reach srv'"
| handleGET: "http_reach srv \<Longrightarrow> handleGET k schema h srv = (srv', r) \<Longrightarrow> http_reach srv'"
| handle_object: "http_reach srv \<Longrightarrow> Http_handle_object k obj srv = (srv', r) \<Longrightarrow> http_reach srv'"
| remove: "http_reach srv \<Longrightarrow> Http_remove k srv = (srv', b) \<Longrightarrow> http_reach srv'"
| remove_object: "http_reach srv \<Longrightarrow> Http_remove_object obj srv = (srv', b) \<Longrightarrow> http_reach srv'"

lemma Http_create_tables:
  "Http_create Z S os parse listen inproc uri session w = (w', Inr srv) \<Longrightarrow>
   hs_schemas srv = [] \<and> hs_methods srv = (\<lambda>_. [])"
  by (auto simp: Http_create_def Let_def split: sum.splits prod.splits if_splits option.splits)

lemma http_reach_ok: "http_reach srv \<Longrightarrow> http_ok srv"
proof (induction rule: http_reach.induct)
  case (handle_object srv k obj srv' r)
  obtain s1 x where 1: "handlePUT_object k obj srv = (s1, x)" by (metis prod.exhaust)
  then have ok: "http_ok s1"
    using handle_object.IH http_ok_with_schema by (auto simp: handlePUT_object_def handlePUT_def)
  obtain s2 y where 2: "handleGET_object k obj s1 = (s2, y)" by (metis prod.exhaust)
  then have "http_ok s2"
    using ok http_ok_with_schema by (auto simp: handleGET_object_def handleGET_def)
  with handle_object(2) 1 2 ok show ?case
    by (cases x) (auto simp: Http_handle_object_def split: if_splits)
next
  case (create Z S os parse listen inproc uri session w w' srv)
  then show ?case by (auto dest: Http_create_tables simp: http_ok_def)
qed (auto dest: http_ok_handle http_ok_remove http_ok_remove_object http_ok_with_schema
    simp: handlePUT_def handleGET_def)

text \<open>C26: whatever is registered and removed, in whatever order and with whatever outcome,
  the tables of handlers stay sorted by descending endpoint and the schemas by ascending endpoint,
  each without duplicates; the name of the registry is never taken by a handler, and no empty
  schema is kept.\<close>

theorem http_tables_ordered:
  assumes "http_reach srv" and "m \<noteq> ALL_METHODS"
  shows "sorted_wrt (\<lambda>x y. y < x) (map fst (hs_methods srv m)) \<and>
    sorted_wrt (<) (map fst (hs_schemas srv)) \<and>
    REQUEST_REGISTRY \<notin> fst ` set (hs_methods srv m) \<and> [] \<notin> snd ` set (hs_schemas srv)"
proof -
  have ok: "http_ok srv" using assms(1) by (rule http_reach_ok)
  then have "smap_ok (<) (hs_schemas srv)" and e: "\<forall>k. map_of (hs_schemas srv) k \<noteq> Some []"
    by (simp_all add: http_ok_def)
  moreover from asc.distinct_keys [OF this(1)] have "[] \<notin> snd ` set (hs_schemas srv)"
    using e by (force simp: map_of_eq_Some_iff)
  ultimately show ?thesis
    using ok by (auto simp: http_ok_def smap_ok_def map_of_eq_None_iff)
qed


lemma sample_http:
  obtains w srv where "http_reach srv" and "Http_create sample_zmq sample_servus sample_os sample_parse
      (\<lambda>host p e. (e, Inr (''127.0.0.1'', ''80''))) ''inproc://x'' URI_default ''s'' (sample_world q) =
        (w, Inr srv)"
    and "hs_schemas srv = []" and "hs_methods srv = (\<lambda>_. [])" and "sn_socket (hs_sender srv) = 1"
proof -
  have s: "stoi ''80'' = Inr 80" by code_simp
  have u: "\<exists>u. URI_string sample_parse ''inproc://x'' = Inr u"
    by (simp add: URI_string_def createURI_def sample_parse_def c_str_def empty_uri_def DEFAULT_SCHEMA_def)
  let ?c = "Http_create sample_zmq sample_servus sample_os sample_parse
      (\<lambda>host p e. (e, Inr (''127.0.0.1'', ''80''))) ''inproc://x'' URI_default ''s'' (sample_world q)"
  have "\<exists>w srv. ?c = (w, Inr srv) \<and> sn_socket (hs_sender srv) = 1"
    using u by (auto simp: Http_create_def Sender_create_def bound_uri_def announce_def s sample_servus_def
        sample_world_def Let_def DEFAULT_SESSION_def)
  then obtain w srv where "?c = (w, Inr srv)" "sn_socket (hs_sender srv) = 1" by blast
  with Http_create_tables [OF this(1)] http_reach.create [OF this(1)] that show ?thesis by blast
qed

text \<open>The server with one handler for GET.\<close>

lemma sample_http_get:
  fixes f :: "net rest_func"
  assumes "k \<noteq> REQUEST_REGISTRY"
  obtains srv where "http_reach srv" and "hs_methods srv = (\<lambda>_. [])(GET := [(k, f)])"
    and "hs_schemas srv = []" and "sn_socket (hs_sender srv) = 1"
proof (rule sample_http)
  fix w and srv :: "net http_server" assume r: "http_reach srv" and e: "hs_schemas srv = []" "hs_methods srv = (\<lambda>_. [])"
    and s: "sn_socket (hs_sender srv) = 1"
  let ?srv = "srv\<lparr>hs_methods := (\<lambda>_. [])(GET := [(k, f)])\<rparr>"
  have "Http_handle GET k f srv = (?srv, Inr True)"
    using assms e by (simp add: Http_handle_def checkEndpointName_def in_methods_def at_method_def)
  from that [OF http_reach.handle [OF r this]] e s show ?thesis by simp
qed

theorem http_tables_ordered_witness:
  "\<exists>srv :: net http_server. http_reach srv \<and> map fst (hs_methods srv GET) = [''a''] \<and>
     sorted_wrt (\<lambda>x y. y < x) (map fst (hs_methods srv GET))"
proof (rule sample_http_get [of "''a''" "\<lambda>r e. (e, Inr No_state)"])
  show "''a'' \<noteq> REQUEST_REGISTRY" by (simp add: REQUEST_REGISTRY_def)
  fix srv :: "net http_server" assume r: "http_reach srv"
    and "hs_methods srv = (\<lambda>_. [])(GET := [(''a'', \<lambda>r e. (e, Inr No_state))])"
  with http_tables_ordered [OF r, of GET] r show ?thesis by auto
qed

text \<open>C34: on every reachable server, a sequence of registrations and removals for a method
  that does not throw is a sequence of operations on a map: a registration succeeds exactly when
  the endpoint is free, a removal exactly when it is taken.\<close>

theorem Http_registrations:
  assumes "http_reach srv"
    and "reg_run (Http_handle m) (\<lambda>k srv. apsnd Inr (erase_method m k srv)) ops srv = (srv', Inr bs)"
  shows "reg_spec ops (map_of (hs_methods srv m)) = (map_of (hs_methods srv' m), bs)"
  using http.run_refines [OF http_reach_ok [OF assms(1)] assms(2)] by simp

definition put_first :: "net rest_func" where
  "put_first = (\<lambda>r e. (e, Inr (make_ready_response (Response OK []))))"

definition put_second :: "net rest_func" where
  "put_second = (\<lambda>r e. (e, Inr No_state))"

theorem Http_registrations_witness:
  "\<exists>srv srv' :: net http_server. reg_run (Http_handle PUT) (\<lambda>k srv. apsnd Inr (erase_method PUT k srv))
      [Add ''a'' put_first, Add ''a'' put_second, Remove ''b'', Remove ''a''] srv = (srv', Inr [True, False, False, True]) \<and>
    map_of (hs_methods srv' PUT) = Map.empty"
proof (rule sample_http)
  fix w and srv :: "net http_server" assume r: "http_reach srv" and e: "hs_schemas srv = []" "hs_methods srv = (\<lambda>_. [])"
  let ?ops = "[Add ''a'' put_first, Add ''a'' put_second, Remove ''b'', Remove ''a'']"
  have "\<exists>srv'. reg_run (Http_handle PUT) (\<lambda>k srv. apsnd Inr (erase_method PUT k srv)) ?ops srv =
      (srv', Inr [True, False, False, True])"
    using e by (simp add: Http_handle_def checkEndpointName_def in_methods_def at_method_def
        erase_method_def REQUEST_REGISTRY_def)
  then obtain srv' where run: "reg_run (Http_handle PUT) (\<lambda>k srv. apsnd Inr (erase_method PUT k srv)) ?ops srv =
      (srv', Inr [True, False, False, True])" by blast
  with Http_registrations [OF r run] e show ?thesis by auto
qed

text \<open>Registering with a schema makes the schema known under the endpoint.\<close>

lemma handle_with_schema_known:
  assumes "handle_with_schema m k schema f srv = (srv', Inr True)" and "schema \<noteq> []"
  shows "map_of (hs_schemas srv') k = Some schema"
  using assms
  by (auto simp: handle_with_schema_def and_then_Inr_iff registerSchema_def Http_getSchema_def Let_def
      asc.lookup_put split: option.splits if_splits)

lemma schema_endpoint_of: "schema_endpoint (k @ ''/schema'') = k"
proof -
  have "find_last_char CHR ''/'' (k @ CHR ''/'' # ''schema'') = Some (length k)"
    by (rule find_last_char_append_notin) simp
  then show ?thesis by (simp add: schema_endpoint_def substr_to_def)
qed

text \<open>C33: registering a handler with a schema, successfully, makes a GET of the endpoint
  followed by \<^verbatim>\<open>/schema\<close> answer with that schema, as JSON and without
  running a handler.\<close>

theorem schema_served:
  assumes "handle_with_schema m k schema f srv = (srv', Inr True)" and "schema \<noteq> []"
    and "rq_path req = CHR ''/'' # k @ ''/schema''" and "rq_method req = GET"
  shows "respondTo real srv' req w =
    ((req, w), Inr (make_ready_response (Response_type OK schema JSON_TYPE)))"
proof -
  have "suffix REQUEST_SCHEMA (k @ ''/schema'')"
    by (intro suffixI [of _ "k @ ''/''"]) (simp add: REQUEST_SCHEMA_def)
  moreover have "CHR ''/'' \<in> set (k @ ''/schema'')" "CHR ''/'' \<notin> set REQUEST_REGISTRY"
    by (simp_all add: REQUEST_REGISTRY_def)
  then have "k @ ''/schema'' \<noteq> REQUEST_REGISTRY" by metis
  ultimately have "builtin_response real srv' GET (k @ ''/schema'') =
      Some (Inr (make_ready_response (Response_type OK schema JSON_TYPE)))"
    using handle_with_schema_known [OF assms(1,2)]
    by (simp add: builtin_response_def endsWithSchema_iff schema_endpoint_of)
  with assms(3,4) show ?thesis by (simp add: respondTo_def substr_from_def)
qed

theorem schema_served_witness:
  "\<exists>srv :: net http_server. respondTo sample_printf srv \<lparr>rq_method = GET, rq_path = ''/a/schema'', rq_source = [], rq_query = [],
      rq_body = []\<rparr> (sample_world []) =
    ((\<lparr>rq_method = GET, rq_path = ''/a/schema'', rq_source = [], rq_query = [], rq_body = []\<rparr>, sample_world []),
     Inr (make_ready_response (Response_type OK ''{}'' JSON_TYPE)))"
proof (rule sample_http)
  fix w and srv :: "net http_server" assume e: "hs_schemas srv = []" "hs_methods srv = (\<lambda>_. [])"
  have "\<exists>srv'. handle_with_schema PUT ''a'' ''{}'' (\<lambda>r e. (e, Inr No_state)) srv = (srv', Inr True)"
    using e by (simp add: handle_with_schema_def Http_handle_def checkEndpointName_def in_methods_def
        at_method_def registerSchema_def Http_getSchema_def REQUEST_REGISTRY_def)
  then obtain srv' where h: "handle_with_schema PUT ''a'' ''{}'' (\<lambda>r e. (e, Inr No_state)) srv = (srv', Inr True)"
    by blast
  show ?thesis by (intro exI, rule schema_served [OF h]) simp_all
qed

end
