(* ===== verification/Http_Routing.thy ===== *)
theory Http_Routing
  imports Http_Reachable
begin

text \<open>
  How the HTTP server finds the handler of a request. The specification \<open>route\<close> names the longest
  registered endpoint that the path begins with; the search through the table in descending order
  finds that one. The lemmas give the answer of \<open>respondTo\<close> on each of its branches.
\<close>

section \<open>The longest endpoint\<close>

lemma prefix_less_eq: "prefix a b \<Longrightarrow> a \<le> (b :: string)"
proof -
  assume "prefix a b"
  then obtain c where "b = a @ c" by (auto simp: prefix_def)
  then show ?thesis by (induction a arbitrary: b) auto
qed

definition begins_with :: "string \<Rightarrow> string \<times> 'v \<Rightarrow> bool" where
  "begins_with path = (\<lambda>(endpoint, _). find_sub endpoint path = Some 0)"

text \<open>The specification: a registered endpoint that all other candidates are a prefix of.\<close>

definition longest_endpoint :: "(string, 'v) smap \<Rightarrow> string \<Rightarrow> string \<Rightarrow> 'v \<Rightarrow> bool" where
  "longest_endpoint m path endpoint f \<longleftrightarrow>
     map_of m endpoint = Some f \<and> prefix endpoint path \<and>
     (\<forall>e. map_of m e \<noteq> None \<longrightarrow> prefix e path \<longrightarrow> prefix e endpoint)"

lemma longest_endpoint_unique:
  "longest_endpoint m path e f \<Longrightarrow> longest_endpoint m path e' f' \<Longrightarrow> e = e' \<and> f = f'"
  unfolding longest_endpoint_def
  by (metis not_None_eq option.inject prefix_order.order_antisym)

lemma find_sorted_first:
  assumes "smap_ok descending m" and "find (begins_with path) m = Some (e, f)"
  shows "longest_endpoint m path e f"
  using assms
proof (induction m)
  case (Cons x m)
  obtain a b where x: "x = (a, b)" by (cases x)
  have below: "\<forall>k \<in> fst ` set m. k < a" and ok: "smap_ok descending m"
    using Cons.prems(1) x by auto
  show ?case
  proof (cases "prefix a path")
    case True
    with Cons.prems(2) x have e: "e = a" "f = b" by (auto simp: begins_with_def)
    have "prefix k a" if "map_of m k \<noteq> None" "prefix k path" for k
    proof (rule ccontr)
      assume "\<not> prefix k a"
      with True that(2) have "prefix a k" by (metis prefix_same_cases)
      then have "a \<le> k" by (rule prefix_less_eq)
      moreover have "k \<in> fst ` set m" using that(1) by (simp add: map_of_eq_None_iff)
      ultimately show False using below by fastforce
    qed
    with True x e show ?thesis by (auto simp: longest_endpoint_def)
  next
    case False
    with Cons.prems(2) x have "find (begins_with path) m = Some (e, f)"
      by (auto simp: begins_with_def)
    from Cons.IH [OF ok this] have l: "longest_endpoint m path e f" .
    then have "e \<noteq> a" using False by (auto simp: longest_endpoint_def)
    with l False x show ?thesis by (auto simp: longest_endpoint_def)
  qed
qed simp

lemma find_none:
  "find (begins_with path) m = None \<longleftrightarrow> (\<forall>e. map_of m e \<noteq> None \<longrightarrow> \<not> prefix e path)"
  by (force simp: find_None_iff begins_with_def map_of_eq_None_iff image_iff)

lemma find_longest:
  assumes "smap_ok descending m"
  shows "find (begins_with path) m = Some (e, f) \<longleftrightarrow> longest_endpoint m path e f"
proof
  assume l: "longest_endpoint m path e f"
  then have "find (begins_with path) m \<noteq> None"
    by (auto simp: find_none longest_endpoint_def)
  then obtain e' f' where fd: "find (begins_with path) m = Some (e', f')" by auto
  with longest_endpoint_unique [OF l find_sorted_first [OF assms fd]]
  show "find (begins_with path) m = Some (e, f)" by simp
qed (rule find_sorted_first [OF assms])

lemma longest_endpoint_exact:
  "map_of m path = Some f \<Longrightarrow> longest_endpoint m path path f"
  by (simp add: longest_endpoint_def)

section \<open>The answers\<close>

lemma respondTo_unfold:
  assumes "rq_path request = CHR ''/'' # path" and "rq_method request = m" and "m \<noteq> ALL_METHODS"
    and "builtin_response real srv m path = None"
  shows "respondTo real srv request w =
    (case find (begins_with path) (hs_methods srv m) of
       None \<Rightarrow> fallback_response srv (hs_methods srv m) path request w
     | Some (endpoint, func) \<Rightarrow>
         let pathStripped = removeEndpointFromPath endpoint path
         in if pathStripped \<noteq> [] \<and> endpoint = []
            then ((request, w), Inl (Undefined ''rbegin of an empty string''))
            else if pathStripped = [] \<or> last endpoint = CHR ''/''
            then
              let request1 = request\<lparr>rq_path := pathStripped\<rparr>;
                  (w1, r) = run_handler m endpoint func request1 w
              in ((request1, w1), r)
            else fallback_response srv (hs_methods srv m) path request w)"
  using assms by (simp add: respondTo_def substr_from_def Let_def begins_with_def)

definition serve_with ::
  "http_request \<Rightarrow> 'e zworld \<Rightarrow> http_method \<Rightarrow> string \<Rightarrow> 'e rest_func \<Rightarrow> string \<Rightarrow>
   (http_request \<times> 'e zworld) \<times> (exn + future)" where
  "serve_with request w m endpoint func path =
     (let (w1, r) = run_handler m endpoint func (request\<lparr>rq_path := path\<rparr>) w
      in ((request\<lparr>rq_path := path\<rparr>, w1), r))"

text \<open>An endpoint that is the whole path is served.\<close>

lemma respondTo_exact:
  assumes ok: "http_ok srv"
    and req: "rq_path request = CHR ''/'' # path" "rq_method request = m" "m \<noteq> ALL_METHODS"
    and no: "builtin_response real srv m path = None"
    and reg: "map_of (hs_methods srv m) path = Some f"
  shows "respondTo real srv request w =
    serve_with request w m path f (if path = ''/'' then ''/'' else [])"
proof -
  have "smap_ok descending (hs_methods srv m)" using ok by (simp add: http_ok_def)
  from find_longest [OF this] longest_endpoint_exact [OF reg]
  have "find (begins_with path) (hs_methods srv m) = Some (path, f)" by blast
  then show ?thesis
    using respondTo_unfold [OF req no, of w]
    by (auto simp: removeEndpointFromPath_def serve_with_def Let_def)
qed

text \<open>An endpoint that ends with a slash serves the paths below it.\<close>

lemma respondTo_below:
  assumes ok: "http_ok srv"
    and req: "rq_path request = CHR ''/'' # endpoint @ rest" "rq_method request = m"
      "m \<noteq> ALL_METHODS"
    and no: "builtin_response real srv m (endpoint @ rest) = None"
    and reg: "longest_endpoint (hs_methods srv m) (endpoint @ rest) endpoint f"
    and slash: "endpoint \<noteq> ''/''" "suffix ''/'' endpoint"
  shows "respondTo real srv request w = serve_with request w m endpoint f rest"
proof -
  have "smap_ok descending (hs_methods srv m)" using ok by (simp add: http_ok_def)
  from find_longest [OF this] reg
  have fd: "find (begins_with (endpoint @ rest)) (hs_methods srv m) = Some (endpoint, f)" by blast
  obtain us where "endpoint = us @ ''/''" using slash(2) by (auto simp: suffix_def)
  then have "last endpoint = CHR ''/''" "endpoint \<noteq> []" by simp_all
  then show ?thesis
    using respondTo_unfold [OF req no, of w] fd slash(1)
    by (simp add: removeEndpointFromPath_prefix serve_with_def Let_def)
qed

text \<open>
  Any other path falls back, even when a shorter endpoint that ends with a slash would serve it.
\<close>

lemma respondTo_shadowed:
  assumes ok: "http_ok srv"
    and req: "rq_path request = CHR ''/'' # endpoint @ rest" "rq_method request = m"
      "m \<noteq> ALL_METHODS"
    and no: "builtin_response real srv m (endpoint @ rest) = None"
    and reg: "longest_endpoint (hs_methods srv m) (endpoint @ rest) endpoint f"
    and other: "rest \<noteq> []" "endpoint \<noteq> []" "\<not> suffix ''/'' endpoint"
  shows "respondTo real srv request w =
    fallback_response srv (hs_methods srv m) (endpoint @ rest) request w"
proof -
  have "smap_ok descending (hs_methods srv m)" using ok by (simp add: http_ok_def)
  from find_longest [OF this] reg
  have fd: "find (begins_with (endpoint @ rest)) (hs_methods srv m) = Some (endpoint, f)" by blast
  have "last endpoint \<noteq> CHR ''/''"
  proof
    assume "last endpoint = CHR ''/''"
    with other(2) have "endpoint = butlast endpoint @ ''/''" by (metis append_butlast_last_id)
    then have "suffix ''/'' endpoint" by (metis suffixI)
    with other(3) show False by blast
  qed
  moreover have "endpoint \<noteq> ''/''" using other(3) by auto
  ultimately show ?thesis
    using respondTo_unfold [OF req no, of w] fd other(1,2)
    by (simp add: removeEndpointFromPath_prefix Let_def)
qed

lemma respondTo_unmatched:
  assumes req: "rq_path request = CHR ''/'' # path" "rq_method request = m" "m \<noteq> ALL_METHODS"
    and no: "builtin_response real srv m path = None"
    and none: "\<forall>e. map_of (hs_methods srv m) e \<noteq> None \<longrightarrow> \<not> prefix e path"
  shows "respondTo real srv request w = fallback_response srv (hs_methods srv m) path request w"
  using respondTo_unfold [OF req no, of w] find_none [of path "hs_methods srv m"] none by simp

section \<open>Allowed methods\<close>

text \<open>The names of the methods an endpoint has, separated by commas.\<close>

definition methods_of :: "string \<Rightarrow> 'e http_server \<Rightarrow> http_method list" where
  "methods_of endpoint srv = filter (\<lambda>m. in_methods m endpoint srv) all_methods"

lemma method_name_nonempty [simp]: "method_name m \<noteq> []"
  by (cases m) (simp_all add: method_name_def)

lemma comma_separated_snoc:
  "comma_separated (ts @ [t]) = (if ts = [] then t else comma_separated ts @ '', '' @ t)"
  by (cases ts) (simp_all add: comma_separated_def)

lemma comma_separated_nonempty:
  "\<forall>t \<in> set ts. t \<noteq> [] \<Longrightarrow> comma_separated ts = [] \<longleftrightarrow> ts = []"
  by (cases ts) (simp_all add: comma_separated_def)

lemma allowed_fold:
  "fold (\<lambda>m methods. if P m
             then methods @ (if methods = [] then method_name m else '', '' @ method_name m)
             else methods) ms (comma_separated (map method_name as)) =
   comma_separated (map method_name (as @ filter P ms))"
proof (induction ms arbitrary: as)
  case (Cons m ms)
  have "comma_separated (map method_name as) = [] \<longleftrightarrow> as = []"
    using comma_separated_nonempty [of "map method_name as"] by auto
  then have "comma_separated (map method_name as) @
      (if comma_separated (map method_name as) = [] then method_name m else '', '' @ method_name m) =
      comma_separated (map method_name (as @ [m]))"
    using comma_separated_snoc [of "map method_name as" "method_name m"]
    by (auto simp: comma_separated_def)
  with Cons.IH [of "as @ [m]"] Cons.IH [of as] show ?case by (cases "P m") simp_all
qed simp

lemma getAllowedMethods_eq:
  "getAllowedMethods endpoint srv = comma_separated (map method_name (methods_of endpoint srv))"
  using allowed_fold [of "\<lambda>m. in_methods m endpoint srv" all_methods "[]"]
  by (simp add: getAllowedMethods_def methods_of_def comma_separated_def cong: if_cong)

lemma getAllowedMethods_empty_iff:
  "getAllowedMethods endpoint srv = [] \<longleftrightarrow> methods_of endpoint srv = []"
  using comma_separated_nonempty [of "map method_name (methods_of endpoint srv)"]
  by (auto simp: getAllowedMethods_eq)

lemma set_all_methods: "set all_methods = UNIV - {ALL_METHODS}"
proof -
  have "m \<in> set all_methods \<or> m = ALL_METHODS" for m by (cases m) (simp_all add: all_methods_def)
  then show ?thesis by (auto simp: all_methods_def)
qed

lemma methods_of_set: "set (methods_of k srv) = {m. m \<noteq> ALL_METHODS \<and> in_methods m k srv}"
  by (auto simp: methods_of_def set_all_methods)

section \<open>Requests\<close>

abbreviation sample_req :: "http_method \<Rightarrow> string \<Rightarrow> http_request" where
  "sample_req m path \<equiv> \<lparr>rq_method = m, rq_path = path, rq_source = [], rq_query = [], rq_body = []\<rparr>"

text \<open>C27: an endpoint that ends with a slash serves the paths below it when it is the
  longest registered endpoint the path begins with; the handler sees the rest of the path.\<close>

theorem paths_below:
  assumes "http_reach srv" and "rq_path req = CHR ''/'' # endpoint @ rest" and "rq_method req = m"
    and "m \<noteq> ALL_METHODS" and "builtin_response real srv m (endpoint @ rest) = None"
    and "longest_endpoint (hs_methods srv m) (endpoint @ rest) endpoint f"
    and "endpoint \<noteq> ''/''" and "suffix ''/'' endpoint"
  shows "respondTo real srv req w =
    (case run_handler m endpoint f (req\<lparr>rq_path := rest\<rparr>) w of
       (w1, r) \<Rightarrow> ((req\<lparr>rq_path := rest\<rparr>, w1), r))"
  using respondTo_below [OF http_reach_ok [OF assms(1)] assms(2-8)]
  by (simp add: serve_with_def)

theorem paths_below_witness:
  "\<exists>srv w'. respondTo sample_printf srv (sample_req GET ''/a/b'') (sample_world []) =
     ((sample_req GET ''b'', w'), Inr (make_ready_response (Response OK ''b'')))"
proof (rule sample_http_get [of "''a/''" "\<lambda>r e. (e, Inr (make_ready_response (Response OK (rq_path r))))"])
  show "''a/'' \<noteq> REQUEST_REGISTRY" by (simp add: REQUEST_REGISTRY_def)
  fix srv :: "net http_server"
  assume r: "http_reach srv" and m: "hs_methods srv =
      (\<lambda>_. [])(GET := [(''a/'', \<lambda>r e. (e, Inr (make_ready_response (Response OK (rq_path r)))))])"
    and s: "hs_schemas srv = []"
  have l: "longest_endpoint (hs_methods srv GET) (''a/'' @ ''b'') ''a/''
      (\<lambda>r e. (e, Inr (make_ready_response (Response OK (rq_path r)))))"
    by (simp add: m longest_endpoint_def)
  have b: "builtin_response sample_printf srv GET (''a/'' @ ''b'') = None"
    using s by (simp add: builtin_response_def REQUEST_REGISTRY_def)
  have "suffix ''/'' ''a/''" by (simp add: suffix_def)
  from paths_below [OF r _ _ _ b l _ this, of "sample_req GET ''/a/b''" "sample_world []"]
  show ?thesis by (intro exI [of _ srv]) (simp add: run_handler_def run_callback_def)
qed

lemma unserved_answer:
  "fallback_response srv m path req w =
    (case map_of m ''/'' of
       Some f \<Rightarrow> (case run_handler (rq_method req) ''/'' f (req\<lparr>rq_path := path\<rparr>) w of
                    (w1, r) \<Rightarrow> ((req\<lparr>rq_path := path\<rparr>, w1), r))
     | None \<Rightarrow> ((req, w), Inr (make_ready_response
         (if methods_of path srv = [] then Response NOT_FOUND []
          else Response_headers NOT_SUPPORTED []
            [(ALLOW, comma_separated (map method_name (methods_of path srv)))]))))"
proof (cases "methods_of path srv = []")
  case True
  then have "getAllowedMethods path srv = []" by (simp only: getAllowedMethods_empty_iff)
  with True show ?thesis by (simp add: fallback_response_def Let_def split: option.splits)
next
  case False
  then have "getAllowedMethods path srv \<noteq> []" by (simp only: getAllowedMethods_empty_iff) simp
  with False show ?thesis
    by (auto simp: fallback_response_def Let_def getAllowedMethods_eq [symmetric] split: option.splits)
qed

text \<open>When the longest endpoint a path begins with does not end with a slash and is not
  the whole path, the request is refused, even when a shorter endpoint is registered that ends
  with a slash and that, going by the documentation, serves every path below it.\<close>

lemma slash_endpoint_shadowed:
  assumes "http_reach srv" and "rq_path req = CHR ''/'' # endpoint @ rest" and "rq_method req = m"
    and "m \<noteq> ALL_METHODS" and "builtin_response real srv m (endpoint @ rest) = None"
    and "longest_endpoint (hs_methods srv m) (endpoint @ rest) endpoint f"
    and "rest \<noteq> []" and "endpoint \<noteq> []" and "\<not> suffix ''/'' endpoint"
    and "map_of (hs_methods srv m) ''/'' = None"
  shows "respondTo real srv req w = ((req, w), Inr (make_ready_response
    (if methods_of (endpoint @ rest) srv = [] then Response NOT_FOUND []
     else Response_headers NOT_SUPPORTED []
       [(ALLOW, comma_separated (map method_name (methods_of (endpoint @ rest) srv)))])))"
  using respondTo_shadowed [OF http_reach_ok [OF assms(1)] assms(2-9)] assms(10)
  by (simp add: unserved_answer)

text \<open>C28: a path that begins with no registered endpoint goes to the handler of
  \<^verbatim>\<open>/\<close>, which sees all of it; without one the answer lists the methods the
  path has, or is \<^verbatim>\<open>404\<close> if it has none.\<close>

theorem unmatched_answer:
  assumes "rq_path req = CHR ''/'' # path" and "rq_method req = m" and "m \<noteq> ALL_METHODS"
    and "builtin_response real srv m path = None"
    and "\<forall>e \<in> fst ` set (hs_methods srv m). \<not> prefix e path"
  shows "respondTo real srv req w =
    (case map_of (hs_methods srv m) ''/'' of
       Some f \<Rightarrow> (case run_handler m ''/'' f (req\<lparr>rq_path := path\<rparr>) w of
                    (w1, r) \<Rightarrow> ((req\<lparr>rq_path := path\<rparr>, w1), r))
     | None \<Rightarrow> ((req, w), Inr (make_ready_response
         (if methods_of path srv = [] then Response NOT_FOUND []
          else Response_headers NOT_SUPPORTED []
            [(ALLOW, comma_separated (map method_name (methods_of path srv)))]))))"
proof -
  have "\<forall>e. map_of (hs_methods srv m) e \<noteq> None \<longrightarrow> \<not> prefix e path"
    using assms(5) by (metis map_of_eq_None_iff)
  from respondTo_unmatched [OF assms(1-4) this] show ?thesis
    unfolding unserved_answer assms(2) .
qed

theorem unmatched_answer_witness:
  "\<exists>srv :: net http_server. respondTo sample_printf srv (sample_req PUT ''/a'') (sample_world []) =
     ((sample_req PUT ''/a'', sample_world []),
      Inr (make_ready_response (Response_headers NOT_SUPPORTED [] [(ALLOW, ''GET'')])))"
proof (rule sample_http_get [of "''a''" "\<lambda>r e. (e, Inr No_state)"])
  show "''a'' \<noteq> REQUEST_REGISTRY" by (simp add: REQUEST_REGISTRY_def)
  fix srv :: "net http_server"
  assume m: "hs_methods srv = (\<lambda>_. [])(GET := [(''a'', \<lambda>r e. (e, Inr No_state))])"
  have "methods_of ''a'' srv = [GET]" by (simp add: methods_of_def all_methods_def in_methods_def m)
  with unmatched_answer [of "sample_req PUT ''/a''" "''a''" PUT sample_printf srv "sample_world []"] m
  show ?thesis
    by (intro exI [of _ srv]) (simp add: builtin_response_def comma_separated_def method_name_def)
qed

text \<open>C29: an exception in a handler is turned into an internal server error, and the HTTP
  thread, which waits for it, is told that the message is done.\<close>

theorem handler_exception_answers:
  assumes "z_recv Z (sn_socket (hs_sender srv)) False w = (w1, Some (p, follows))"
    and "heap p = Some message" and "\<not> isCorsPreflightRequest message"
    and "respondTo real srv (ms_request message) w1 = ((req', w2), Inl e)" and "\<not> is_undefined e"
  shows "\<exists>w3 status m reason. Http_process Z real srv (heap, w) = ((heap(p \<mapsto> m), w3), Inr True) \<and>
    ms_response m = make_ready_response (Response INTERNAL_SERVER_ERROR reason) \<and>
    trace w3 = trace w2 @ [Call_send (sn_socket (hs_sender srv)) ([1], False) status]"
proof -
  obtain m reason where r: "respond_message real srv message w1 = ((m, w2), Inr ())"
    and m: "ms_response m = make_ready_response (Response INTERNAL_SERVER_ERROR reason)"
    using assms(4,5) by (auto simp: respond_message_def Let_def)
  obtain w3 status where s: "z_send Z (sn_socket (hs_sender srv)) ([1], False) False w2 = (w3, status)"
    by (metis prod.exhaust)
  have "Http_process Z real srv (heap, w) = ((heap(p \<mapsto> m), w3), Inr True)"
    using assms(1-3) r s by (simp add: Http_process_def)
  with m trace_callsD(6) [OF s] show ?thesis by blast
qed

theorem handler_exception_answers_witness:
  "\<exists>srv heap w heap' w' m reason. Http_process sample_zmq sample_printf srv (heap, w) = ((heap', w'), Inr True) \<and>
     heap' [7] = Some m \<and> ms_response m = make_ready_response (Response INTERNAL_SERVER_ERROR reason)"
proof (rule sample_http_get [of "''a''" "\<lambda>r e. (e, Inl (Runtime_error ''no''))"])
  show "''a'' \<noteq> REQUEST_REGISTRY" by (simp add: REQUEST_REGISTRY_def)
  fix srv :: "net http_server"
  assume r: "http_reach srv" and m: "hs_methods srv = (\<lambda>_. [])(GET := [(''a'', \<lambda>r e. (e, Inl (Runtime_error ''no'')))])"
    and s: "hs_schemas srv = []"
  let ?msg = "\<lparr>ms_request = sample_req GET ''/a'', ms_origin = [], ms_request_headers = [],
    ms_request_method = ALL_METHODS, ms_response = No_state, ms_cors = []\<rparr>"
  let ?w = "sample_world [([7], False)]"
  obtain w1 where z: "z_recv sample_zmq (sn_socket (hs_sender srv)) False ?w = (w1, Some ([7], False))"
    by (simp add: sample_world_def)
  have b: "builtin_response sample_printf srv GET ''a'' = None"
    using s by (simp add: builtin_response_def REQUEST_REGISTRY_def)
  have "\<exists>q w2. respondTo sample_printf srv (ms_request ?msg) w1 = ((q, w2), Inl (Runtime_error ''no''))"
    using respondTo_exact [OF http_reach_ok [OF r] _ _ _ b, of "sample_req GET ''/a''"] m
    by (simp add: serve_with_def run_handler_def run_callback_def)
  then obtain q w2 where t: "respondTo sample_printf srv (ms_request ?msg) w1 = ((q, w2), Inl (Runtime_error ''no''))"
    by blast
  have "\<not> isCorsPreflightRequest ?msg" by (simp add: isCorsPreflightRequest_def isCorsRequest_def)
  from handler_exception_answers [OF z _ this t, of "[[7] \<mapsto> ?msg]"] show ?thesis
    by fastforce
qed

definition preflight_headers :: "string \<Rightarrow> (cors_header, string) smap" where
  "preflight_headers methods =
     [(access_control_allow_headers, ''Content-Type''), (access_control_allow_methods, methods),
      (access_control_allow_origin, ''*'')]"

text \<open>C30: a preflight request is answered with the methods of the endpoint when the method
  it asks about is registered there, with GET when it asks for a schema the server has, and is
  refused otherwise. In each case the call on ZeroMQ that follows is the one that tells the
  waiting HTTP thread that the message is done.\<close>

theorem preflight_answer:
  assumes "z_recv Z (sn_socket (hs_sender srv)) False w = (w1, Some (p, follows))"
    and "heap p = Some message" and "isCorsPreflightRequest message"
    and "rq_path (ms_request message) = CHR ''/'' # path"
    and "M = ms_request_method message"
    and "schema \<longleftrightarrow> M = GET \<and> suffix REQUEST_SCHEMA path \<and>
      map_of (hs_schemas srv) (schema_endpoint path) \<noteq> None"
  shows "\<exists>w2 status. Http_process Z real srv (heap, w) =
    ((heap(p \<mapsto>
       (if schema \<or> in_methods M path srv
        then message\<lparr>ms_cors := preflight_headers
                 (if schema then ''GET'' else comma_separated (map method_name (methods_of path srv))),
               ms_response := make_ready_response (Response OK [])\<rparr>
        else message\<lparr>ms_response := make_ready_response (Response NOT_SUPPORTED [])\<rparr>)), w2), Inr True) \<and>
    trace w2 = trace w1 @ [Call_send (sn_socket (hs_sender srv)) ([1], False) status]"
proof -
  have M: "ms_request_method message \<noteq> ALL_METHODS"
    using assms(3) by (simp add: isCorsPreflightRequest_def)
  have s: "isSchemaRequest srv message path = schema"
    using assms(5,6) by (auto simp: isSchemaRequest_def endsWithSchema_iff)
  obtain w2 status where z: "z_send Z (sn_socket (hs_sender srv)) ([1], False) False w1 = (w2, status)"
    by (metis prod.exhaust)
  show ?thesis
    using assms(1-5) M s z trace_callsD(6) [OF z]
    by (simp add: Http_process_def processCorsPreflightRequest_def substr_from_def Let_def
        getAllowedMethods_eq preflight_headers_def)
qed

theorem preflight_answer_witness:
  "\<exists>srv heap w heap' w' m. Http_process sample_zmq sample_printf srv (heap, w) = ((heap', w'), Inr True) \<and>
     heap' [7] = Some m \<and> ms_cors m = preflight_headers ''GET'' \<and>
     ms_response m = make_ready_response (Response OK []) \<and>
     (\<exists>earlier status. trace w' = earlier @ [Call_send (sn_socket (hs_sender srv)) ([1], False) status])"
proof (rule sample_http_get [of "''a''" "\<lambda>r e. (e, Inr No_state)"])
  show "''a'' \<noteq> REQUEST_REGISTRY" by (simp add: REQUEST_REGISTRY_def)
  fix srv :: "net http_server"
  assume m: "hs_methods srv = (\<lambda>_. [])(GET := [(''a'', \<lambda>r e. (e, Inr No_state))])"
    and s: "hs_schemas srv = []"
  let ?msg = "\<lparr>ms_request = \<lparr>rq_method = OPTIONS, rq_path = ''/a'', rq_source = [], rq_query = [], rq_body = []\<rparr>,
    ms_origin = ''http://x'', ms_request_headers = [], ms_request_method = GET, ms_response = No_state, ms_cors = []\<rparr>"
  let ?w = "sample_world [([7], False)]"
  obtain w1 where z: "z_recv sample_zmq (sn_socket (hs_sender srv)) False ?w = (w1, Some ([7], False))"
    by (simp add: sample_world_def)
  have "methods_of ''a'' srv = [GET]" by (simp add: methods_of_def all_methods_def in_methods_def m)
  moreover have "comma_separated [''GET''] = ''GET''" by (simp add: comma_separated_def)
  moreover have "isCorsPreflightRequest ?msg" by (simp add: isCorsPreflightRequest_def isCorsRequest_def)
  moreover have "in_methods GET ''a'' srv" by (simp add: in_methods_def m)
  moreover note preflight_answer [OF z, of "[[7] \<mapsto> ?msg]" ?msg "''a''" GET False sample_printf]
  ultimately show ?thesis using s by (fastforce simp: method_name_def)
qed

end
