(* ===== verification/Http_Handler.thy ===== *)
theory Http_Handler
  imports Http_Routing
begin

text \<open>
  \<^verbatim>\<open>http/requestHandler.cpp\<close>: the side of the HTTP library. A request whose body comes in chunks is
  read chunk by chunk, then travels as a message to the server, and its response is written to
  the connection. Reading is asynchronous: the library calls back with each chunk.
\<close>

section \<open>State\<close>

text \<open>What the library hands over of a request, and what is written to its connection.\<close>

record raw_request =
  rr_method :: string
  rr_source :: string
  rr_destination :: string
  rr_headers :: "(string \<times> string) list"

record connection =
  cn_status :: "nat option"
  cn_headers :: "(string \<times> string) list"
  cn_body :: string

record conn_handler =
  ch_request :: raw_request
  ch_socket :: sock
  ch_body :: string
  ch_size :: "64 word"

definition ConnectionHandler :: "raw_request \<Rightarrow> sock \<Rightarrow> conn_handler" where
  "ConnectionHandler request socket =
     \<lparr>ch_request = request, ch_socket = socket, ch_body = [], ch_size = 0\<rparr>"

section \<open>Headers\<close>

fun content_length :: "(string \<times> string) list \<Rightarrow> exn + 64 word" where
  "content_length [] = Inr 0"
| "content_length ((name, value) # headers) =
     (if name = ''Content-Length''
      then (case stoi value of
              Inl e \<Rightarrow> Inl e
            | Inr sz \<Rightarrow> Inr (if 0 < sz then word_of_int sz else 0))
      else content_length headers)"

definition getContentLength :: "raw_request \<Rightarrow> exn + 64 word" where
  "getContentLength request = content_length (rr_headers request)"

definition getMethodType :: "string \<Rightarrow> exn + http_method" where
  "getMethodType methodName =
     (if methodName = ''GET'' then Inr GET
      else if methodName = ''POST'' then Inr POST
      else if methodName = ''PUT'' then Inr PUT
      else if methodName = ''PATCH'' then Inr PATCH
      else if methodName = ''DELETE'' then Inr DELETE
      else if methodName = ''OPTIONS'' then Inr OPTIONS
      else Inl (Invalid_argument ''Method not supported''))"

definition header_name :: "header \<Rightarrow> string" where
  "header_name h =
     (case h of ALLOW \<Rightarrow> ''Allow'' | CONTENT_TYPE \<Rightarrow> ''Content-Type''
      | LAST_MODIFIED \<Rightarrow> ''Last-Modified'' | LOCATION \<Rightarrow> ''Location''
      | RETRY_AFTER \<Rightarrow> ''Retry-After'')"

definition cors_header_name :: "cors_header \<Rightarrow> string" where
  "cors_header_name h =
     (case h of
        access_control_allow_headers \<Rightarrow> ''Access-Control-Allow-Headers''
      | access_control_allow_methods \<Rightarrow> ''Access-Control-Allow-Methods''
      | access_control_allow_origin \<Rightarrow> ''Access-Control-Allow-Origin'')"

definition parse_cors_header :: "string \<times> string \<Rightarrow> message \<Rightarrow> message" where
  "parse_cors_header entry message =
     (case entry of (name, value) \<Rightarrow>
        if name = ''Origin'' then message\<lparr>ms_origin := value\<rparr>
        else if name = ''Access-Control-Request-Headers''
        then message\<lparr>ms_request_headers := value\<rparr>
        else if name = ''Access-Control-Request-Method''
        then (case getMethodType value of
                Inr m \<Rightarrow> message\<lparr>ms_request_method := m\<rparr>
              | Inl _ \<Rightarrow> message)
        else message)"

definition parseCorsRequestHeaders :: "raw_request \<Rightarrow> message \<Rightarrow> message" where
  "parseCorsRequestHeaders request message = fold parse_cors_header (rr_headers request) message"

section \<open>The message and the response\<close>

definition message_of ::
  "uri_parser \<Rightarrow> http_method \<Rightarrow> conn_handler \<Rightarrow> exn + message" where
  "message_of parse m ch =
     (case URI_string parse (rr_destination (ch_request ch)) of
        Inl e \<Rightarrow> Inl e
      | Inr uri \<Rightarrow>
          Inr (parseCorsRequestHeaders (ch_request ch)
            \<lparr>ms_request = \<lparr>rq_method = m, rq_path = uri_path uri,
                rq_source = rr_source (ch_request ch), rq_query = uri_query uri,
                rq_body = ch_body ch\<rparr>,
             ms_origin = [], ms_request_headers = [], ms_request_method = ALL_METHODS,
             ms_response = No_state, ms_cors = []\<rparr>))"

definition write_response :: "response \<Rightarrow> (cors_header, string) smap \<Rightarrow> connection \<Rightarrow> connection" where
  "write_response response cors conn =
     conn\<lparr>cn_status := Some (code_number (rs_code response)),
          cn_headers := (''Content-Length'', decimal (length (rs_body response))) #
            map (\<lambda>(h, v). (cors_header_name h, v)) cors @
            map (\<lambda>(h, v). (header_name h, v)) (rs_headers response),
          cn_body := cn_body conn @ rs_body response\<rparr>"

text \<open>
  Waiting for the response rethrows an exception the application stored in it; only
  \<^verbatim>\<open>std::future_error\<close> is handled.
\<close>

definition finish_request :: "message \<Rightarrow> connection \<Rightarrow> (connection, unit) outcome" where
  "finish_request message conn =
     (case future_get (ms_response message) of
        Inr response \<Rightarrow> (write_response response (ms_cors message) conn, Inr ())
      | Inl (Future_error _) \<Rightarrow>
          (write_response (Response INTERNAL_SERVER_ERROR []) (ms_cors message) conn, Inr ())
      | Inl e \<Rightarrow> (conn, Inl e))"

text \<open>A request is finished, its handler waits for the next chunk of the body, or it is blocked.\<close>

datatype progress = Finished | Reading http_method conn_handler | Blocked

text \<open>
  \<^verbatim>\<open>_handleRequest\<close> sends the address of the message and blocks until the server has sent \<^verbatim>\<open>done\<close>
  back. \<open>exchange\<close> is what the server makes of the message and of the world in between, from
  the send to the end of the receive; it is \<open>None\<close> when nothing is ever sent back.
\<close>

type_synonym 'w exchange = "message \<Rightarrow> 'w \<Rightarrow> (message \<times> 'w) option"

definition handleRequest ::
  "uri_parser \<Rightarrow> 'w exchange \<Rightarrow> http_method \<Rightarrow> conn_handler \<Rightarrow> connection \<times> 'w \<Rightarrow>
   (connection \<times> 'w, progress) outcome" where
  "handleRequest parse exchange m ch st =
     (case message_of parse m ch of
        Inl e \<Rightarrow> (st, Inl e)
      | Inr message \<Rightarrow>
          (case exchange message (snd st) of
             None \<Rightarrow> (st, Inr Blocked)
           | Some (message1, w1) \<Rightarrow>
               let (conn, r) = finish_request message1 (fst st)
               in and_then ((conn, w1), r) (\<lambda>_ st1. (st1, Inr Finished))))"

section \<open>Reading the body\<close>

definition start_request ::
  "uri_parser \<Rightarrow> 'w exchange \<Rightarrow> conn_handler \<Rightarrow> connection \<times> 'w \<Rightarrow>
   (connection \<times> 'w, progress) outcome" where
  "start_request parse exchange ch st =
     (case getMethodType (rr_method (ch_request ch)) of
        Inl e \<Rightarrow> (st, Inl e)
      | Inr m \<Rightarrow>
          if m = GET then handleRequest parse exchange m ch st
          else
            (case getContentLength (ch_request ch) of
               Inl e \<Rightarrow> (st, Inl e)
             | Inr sz \<Rightarrow>
                 if 0 < sz then (st, Inr (Reading m (ch\<lparr>ch_size := sz\<rparr>)))
                 else handleRequest parse exchange m (ch\<lparr>ch_size := sz\<rparr>) st))"

text \<open>\<^verbatim>\<open>operator()\<close>: an \<^verbatim>\<open>invalid_argument\<close> from anywhere below answers \<^verbatim>\<open>not_supported\<close>.\<close>

definition not_supported :: nat where "not_supported = 405"

definition RequestHandler_call ::
  "uri_parser \<Rightarrow> 'w exchange \<Rightarrow> conn_handler \<Rightarrow> connection \<times> 'w \<Rightarrow>
   (connection \<times> 'w, progress) outcome" where
  "RequestHandler_call parse exchange ch st =
     (case start_request parse exchange ch st of
        ((conn, w), Inl (Invalid_argument _)) \<Rightarrow>
          ((conn\<lparr>cn_status := Some not_supported\<rparr>, w), Inr Finished)
      | r \<Rightarrow> r)"

text \<open>
  \<^verbatim>\<open>_handleChunk\<close>; \<open>None\<close> is an error of the connection, after which nothing is written. The
  remaining size is unsigned and wraps.
\<close>

definition handleChunk ::
  "uri_parser \<Rightarrow> 'w exchange \<Rightarrow> string option \<Rightarrow> http_method \<Rightarrow> conn_handler \<Rightarrow>
   connection \<times> 'w \<Rightarrow> (connection \<times> 'w, progress) outcome" where
  "handleChunk parse exchange chunk m ch st =
     (case chunk of
        None \<Rightarrow> (st, Inr Finished)
      | Some text \<Rightarrow>
          let ch1 = ch\<lparr>ch_body := ch_body ch @ text, ch_size := ch_size ch - word_of_nat (length text)\<rparr>
          in if 0 < ch_size ch1 then (st, Inr (Reading m ch1))
             else handleRequest parse exchange m ch1 st)"

text \<open>The chunks the library delivers, until the request is finished or there are no more.\<close>

fun read_chunks ::
  "uri_parser \<Rightarrow> 'w exchange \<Rightarrow> string option list \<Rightarrow> progress \<Rightarrow>
   connection \<times> 'w \<Rightarrow> (connection \<times> 'w, progress) outcome" where
  "read_chunks parse exchange cs Finished st = (st, Inr Finished)"
| "read_chunks parse exchange cs Blocked st = (st, Inr Blocked)"
| "read_chunks parse exchange [] (Reading m ch) st = (st, Inr (Reading m ch))"
| "read_chunks parse exchange (c # cs) (Reading m ch) st =
     and_then (handleChunk parse exchange c m ch st)
       (\<lambda>p st1. read_chunks parse exchange cs p st1)"

definition serve_request ::
  "uri_parser \<Rightarrow> 'w exchange \<Rightarrow> raw_request \<Rightarrow> sock \<Rightarrow> string option list \<Rightarrow>
   connection \<times> 'w \<Rightarrow> (connection \<times> 'w, progress) outcome" where
  "serve_request parse exchange request socket cs st =
     and_then (RequestHandler_call parse exchange (ConnectionHandler request socket) st)
       (\<lambda>p st1. read_chunks parse exchange cs p st1)"

section \<open>The pipe\<close>

definition RequestHandler_create ::
  "'e zmq \<Rightarrow> string \<Rightarrow> 'e zworld \<Rightarrow> ('e zworld, sock) outcome" where
  "RequestHandler_create Z zmqURL w =
     (let (w1, s) = z_socket Z ZMQ_PAIR w; (w2, ok) = z_connect Z s zmqURL w1
      in if ok then (w2, Inr s)
         else (w2, Inl (Runtime_error ''Cannot connect RequestHandler to inproc socket'')))"

definition RequestHandler_destroy :: "'e zmq \<Rightarrow> sock \<Rightarrow> 'e zworld \<Rightarrow> 'e zworld" where
  "RequestHandler_destroy Z s w = z_close Z s w"

section \<open>Headers\<close>

lemma getMethodType_iff: "getMethodType s = Inr m \<longleftrightarrow> m \<noteq> ALL_METHODS \<and> s = method_name m"
  by (cases m) (auto simp: getMethodType_def method_name_def)

lemma content_length_first:
  "\<forall>h \<in> set before. fst h \<noteq> ''Content-Length'' \<Longrightarrow> n < 2 ^ 31 \<Longrightarrow>
   content_length (before @ (''Content-Length'', decimal n) # after) = Inr (word_of_nat n)"
proof (induction before)
  case Nil
  then show ?case by (simp add: stoi_decimal)
next
  case (Cons h before)
  then show ?case by (cases h) simp
qed

lemma content_length_none:
  "\<forall>h \<in> set headers. fst h \<noteq> ''Content-Length'' \<Longrightarrow> content_length headers = Inr 0"
  by (induction headers) auto

lemma parse_cors_keeps:
  "ms_request (fold parse_cors_header hs message) = ms_request message"
  "ms_response (fold parse_cors_header hs message) = ms_response message"
  "ms_cors (fold parse_cors_header hs message) = ms_cors message"
  by (induction hs arbitrary: message)
    (auto simp: parse_cors_header_def split: prod.splits sum.splits)

lemma parse_cors_no_origin:
  "\<forall>h \<in> set hs. fst h \<noteq> ''Origin'' \<Longrightarrow>
   ms_origin (fold parse_cors_header hs message) = ms_origin message"
  by (induction hs arbitrary: message)
    (auto simp: parse_cors_header_def split: prod.splits sum.splits)

section \<open>The body\<close>

text \<open>
  Chunks that add up to the announced length are put together in their order, and the request
  is handled after the last one.
\<close>

lemma unat64_diff:
  assumes "unat (a :: 64 word) = n + k"
  shows "unat (a - word_of_nat n) = k"
proof -
  have n: "unat (word_of_nat n :: 64 word) = n"
  proof -
    have "n < 2 ^ 64" using assms unsigned_less [of a, where ?'a = nat] by simp
    then show ?thesis by (simp add: unat_of_nat)
  qed
  then have "word_of_nat n \<le> a" using assms by (simp add: word_le_nat_alt)
  with n assms show ?thesis by (simp add: unat_sub)
qed

lemma read_chunks_handled:
  "and_then (handleRequest parse exchange m ch st)
     (\<lambda>p st1. read_chunks parse exchange cs p st1) = handleRequest parse exchange m ch st"
  by (auto simp: handleRequest_def and_then_def Let_def
      split: sum.splits option.splits prod.splits)

lemma read_chunks_complete:
  assumes "unat (ch_size ch) = length (concat (cs @ [c]))" and "c \<noteq> []"
  shows "read_chunks parse exchange (map Some (cs @ [c])) (Reading m ch) st =
    handleRequest parse exchange m
      (ch\<lparr>ch_body := ch_body ch @ concat (cs @ [c]), ch_size := 0\<rparr>) st"
  using assms(1)
proof (induction cs arbitrary: ch)
  case Nil
  have "unat (ch_size ch - word_of_nat (length c)) = 0"
    using Nil by (intro unat64_diff) simp
  then have z: "ch_size ch - word_of_nat (length c) = 0" by (simp only: unsigned_eq_0_iff)
  then show ?case
    by (simp add: handleChunk_def Let_def read_chunks_handled)
next
  case (Cons b cs)
  have u: "unat (ch_size ch - word_of_nat (length b)) = length (concat (cs @ [c]))"
    using Cons.prems by (intro unat64_diff) simp
  with assms(2) have "ch_size ch - word_of_nat (length b) \<noteq> 0"
    by (metis append_is_Nil_conv concat_append concat.simps length_0_conv self_append_conv unsigned_0)
  then have "0 < ch_size ch - word_of_nat (length b)" by (simp only: word_neq_0_conv)
  then show ?case
    using Cons.IH [of "ch\<lparr>ch_body := ch_body ch @ b, ch_size := ch_size ch - word_of_nat (length b)\<rparr>"] u
    by (simp add: handleChunk_def Let_def)
qed

text \<open>
  A chunk that is longer than what is left makes the remaining size wrap: the request is not
  handled, and the handler waits for close to \<^verbatim>\<open>2^64\<close> further bytes.
\<close>

lemma handleChunk_too_long:
  assumes "unat (ch_size ch) < length c" and "length c < 2 ^ 64"
  shows "\<exists>ch'. handleChunk parse exchange (Some c) m ch st = (st, Inr (Reading m ch')) \<and>
    unat (ch_size ch') = 2 ^ 64 - (length c - unat (ch_size ch))"
proof -
  let ?z = "ch_size ch - word_of_nat (length c)"
  have l: "unat (word_of_nat (length c) :: 64 word) = length c"
    using assms(2) by (simp add: unat_of_nat)
  have u: "unat ?z = 2 ^ 64 - (length c - unat (ch_size ch))"
    using assms unat_sub_if' [of "ch_size ch" "word_of_nat (length c)"] l by simp
  then have "unat ?z \<noteq> 0" using assms by simp
  then have "0 < ?z" by (metis unsigned_0 word_neq_0_conv)
  with u show ?thesis by (simp add: handleChunk_def Let_def)
qed

section \<open>Through the pipe\<close>

text \<open>
  The exchange with the server of \<^verbatim>\<open>http/server.cpp\<close>: the handler's socket sends the pointer \<open>p\<close>, the
  server processes the message it points to, and the handler receives what the server sent.
  When the server throws, nothing is sent and the handler's receive blocks.
\<close>

definition pipe_exchange ::
  "'e zmq \<Rightarrow> 'r printf \<Rightarrow> bytes \<Rightarrow> sock \<Rightarrow> 'e http_server \<Rightarrow> 'e zworld exchange" where
  "pipe_exchange Z real p s srv message w =
     (let (w1, _) = z_send Z s (p, False) False w
      in case Http_process Z real srv ([p \<mapsto> message], w1) of
           ((heap, w2), Inr _) \<Rightarrow> Some (the (heap p), fst (z_recv Z s False w2))
         | _ \<Rightarrow> None)"

definition pointer_arrives :: "'e zmq \<Rightarrow> bytes \<Rightarrow> sock \<Rightarrow> 'e http_server \<Rightarrow> 'e zworld \<Rightarrow> 'e zworld \<Rightarrow> bool" where
  "pointer_arrives Z p s srv w w1 \<longleftrightarrow>
     z_recv Z (sn_socket (hs_sender srv)) False (fst (z_send Z s (p, False) False w)) =
       (w1, Some (p, False))"

lemma pipe_exchange_respond:
  assumes "pointer_arrives Z p s srv w w1" and "ms_origin message = []"
    and "respondTo real srv (ms_request message) w1 = ((request', w2), Inr f)"
  shows "\<exists>w3. pipe_exchange Z real p s srv message w =
    Some (message\<lparr>ms_request := request', ms_response := f\<rparr>, w3)"
proof -
  obtain w0 st where "z_send Z s (p, False) False w = (w0, st)" by (metis prod.exhaust)
  with assms show ?thesis
    by (simp add: pipe_exchange_def pointer_arrives_def Http_process_def respond_message_def
        isCorsRequest_def isCorsPreflightRequest_def)
qed

lemma message_of_plain:
  assumes "URI_string parse (rr_destination (ch_request ch)) = Inr uri"
    and "\<forall>h \<in> set (rr_headers (ch_request ch)). fst h \<noteq> ''Origin''"
  obtains message where "message_of parse m ch = Inr message" and "ms_origin message = []"
    and "ms_cors message = []"
    and "ms_request message = \<lparr>rq_method = m, rq_path = uri_path uri,
      rq_source = rr_source (ch_request ch), rq_query = uri_query uri, rq_body = ch_body ch\<rparr>"
proof
  show "message_of parse m ch = Inr (parseCorsRequestHeaders (ch_request ch)
            \<lparr>ms_request = \<lparr>rq_method = m, rq_path = uri_path uri,
                rq_source = rr_source (ch_request ch), rq_query = uri_query uri,
                rq_body = ch_body ch\<rparr>,
             ms_origin = [], ms_request_headers = [], ms_request_method = ALL_METHODS,
             ms_response = No_state, ms_cors = []\<rparr>)"
    using assms(1) by (simp add: message_of_def)
qed (use assms(2) in \<open>simp_all add: parseCorsRequestHeaders_def parse_cors_keeps parse_cors_no_origin\<close>)

text \<open>A handler registered for the path of a request answers it.\<close>

lemma handleRequest_registered:
  assumes ok: "http_ok srv"
    and uri: "URI_string parse (rr_destination (ch_request ch)) = Inr uri" "uri_path uri = CHR ''/'' # endpoint"
    and plain: "\<forall>h \<in> set (rr_headers (ch_request ch)). fst h \<noteq> ''Origin''"
    and m: "m \<noteq> ALL_METHODS" and reg: "map_of (hs_methods srv m) endpoint = Some func"
    and schema: "m = GET \<Longrightarrow> \<not> endsWithSchema endpoint"
    and ptr: "pointer_arrives Z p s srv w w1"
    and run: "func \<lparr>rq_method = m, rq_path = (if endpoint = ''/'' then ''/'' else []),
        rq_source = rr_source (ch_request ch), rq_query = uri_query uri, rq_body = ch_body ch\<rparr> (env w1) =
      (e1, Inr (make_ready_response response))"
  shows "\<exists>w2. handleRequest parse (pipe_exchange Z real p s srv) m ch (conn, w) =
    ((write_response response [] conn, w2), Inr Finished)"
proof -
  obtain message where message: "message_of parse m ch = Inr message" "ms_origin message = []"
    "ms_cors message = []"
    "ms_request message = \<lparr>rq_method = m, rq_path = uri_path uri,
      rq_source = rr_source (ch_request ch), rq_query = uri_query uri, rq_body = ch_body ch\<rparr>"
    using message_of_plain [OF uri(1) plain] by metis
  have "endpoint \<noteq> REQUEST_REGISTRY" using ok reg by (auto simp: http_ok_def)
  with schema have "builtin_response real srv m endpoint = None"
    by (auto simp: builtin_response_def)
  then have "respondTo real srv (ms_request message) w1 =
      serve_with (ms_request message) w1 m endpoint func (if endpoint = ''/'' then ''/'' else [])"
    using ok m reg uri(2) message(4) by (intro respondTo_exact) simp_all
  then obtain request' w2 where "respondTo real srv (ms_request message) w1 =
      ((request', w2), Inr (make_ready_response response))"
    using run message(4) by (simp add: serve_with_def run_handler_def run_callback_def Let_def)
  from pipe_exchange_respond [OF ptr message(2) this] message(1,3) show ?thesis
    by (auto simp: handleRequest_def finish_request_def future_get_def make_ready_response_def)
qed

abbreviation idle :: connection where
  "idle \<equiv> \<lparr>cn_status = None, cn_headers = [], cn_body = []\<rparr>"

text \<open>Of headers with the same name the last one counts.\<close>

lemma parse_cors_origin:
  "\<forall>h \<in> set after. fst h \<noteq> ''Origin'' \<Longrightarrow>
   ms_origin (fold parse_cors_header (before @ (''Origin'', origin) # after) message) = origin"
  by (simp add: parse_cors_no_origin) (simp add: parse_cors_header_def)

lemma parse_cors_no_method:
  "\<forall>h \<in> set hs. fst h \<noteq> ''Access-Control-Request-Method'' \<Longrightarrow>
   ms_request_method (fold parse_cors_header hs message) = ms_request_method message"
  by (induction hs arbitrary: message)
    (auto simp: parse_cors_header_def split: prod.splits sum.splits)

lemma parse_cors_method:
  assumes "\<forall>h \<in> set after. fst h \<noteq> ''Access-Control-Request-Method''" and "M \<noteq> ALL_METHODS"
  shows "ms_request_method (fold parse_cors_header
    (before @ (''Access-Control-Request-Method'', method_name M) # after) message) = M"
proof -
  have "getMethodType (method_name M) = Inr M" using assms(2) by (simp add: getMethodType_iff)
  with assms(1) show ?thesis by (simp add: parse_cors_no_method) (simp add: parse_cors_header_def)
qed

text \<open>C31: a preflight request whose destination has no path makes the server throw before
  it tells the HTTP thread, which then waits for ever. It may have any headers, as long as an origin
  is given and a method is asked for: the last header of either name decides.\<close>

theorem preflight_empty_path_blocks:
  assumes "pointer_arrives Z p s srv w w1"
    and "URI_string parse (rr_destination (ch_request ch)) = Inr uri" and "uri_path uri = []"
    and "rr_headers (ch_request ch) = before @ (''Origin'', origin) # after"
    and "\<forall>h \<in> set after. fst h \<noteq> ''Origin''" and "origin \<noteq> []"
    and "rr_headers (ch_request ch) = before' @ (''Access-Control-Request-Method'', method_name M) # after'"
    and "\<forall>h \<in> set after'. fst h \<noteq> ''Access-Control-Request-Method''" and "M \<noteq> ALL_METHODS"
  shows "handleRequest parse (pipe_exchange Z real p s srv) OPTIONS ch (conn, w) = ((conn, w), Inr Blocked)"
proof -
  have h: "ms_origin (fold parse_cors_header (rr_headers (ch_request ch)) message) = origin"
    "ms_request_method (fold parse_cors_header (rr_headers (ch_request ch)) message) = M" for message
    unfolding assms(4) by (rule parse_cors_origin [OF assms(5)])
      (unfold assms(4) [symmetric] assms(7), rule parse_cors_method [OF assms(8,9)])
  obtain w0 st where "z_send Z s (p, False) False w = (w0, st)" by (metis prod.exhaust)
  moreover obtain message where m: "message_of parse OPTIONS ch = Inr message"
    and q: "rq_path (ms_request message) = []" "rq_method (ms_request message) = OPTIONS"
    and o: "ms_origin message = origin" "ms_request_method message = M"
    using assms(2,3) by (simp add: message_of_def parseCorsRequestHeaders_def parse_cors_keeps h)
  ultimately show ?thesis using assms(1,6,9)
    by (simp add: handleRequest_def pipe_exchange_def pointer_arrives_def Http_process_def
        isCorsPreflightRequest_def isCorsRequest_def processCorsPreflightRequest_def substr_from_def)
qed

lemma sample_pointer:
  "sn_socket (hs_sender srv) = 1 \<Longrightarrow> \<exists>w1. pointer_arrives sample_zmq [7] 9 srv (sample_world [([7], False)]) w1 \<and> fst (env w1) = 1"
  by (simp add: pointer_arrives_def sample_world_def)

theorem preflight_empty_path_blocks_witness:
  "\<exists>srv ch. (\<exists>v. (''Host'', v) \<in> set (rr_headers (ch_request ch))) \<and>
    handleRequest (\<lambda>s. Inr (empty_uri\<lparr>uri_scheme := ''http''\<rparr>))
      (pipe_exchange sample_zmq sample_printf [7] 9 srv) OPTIONS ch (idle, sample_world [([7], False)]) =
    ((idle, sample_world [([7], False)]), Inr Blocked)"
proof (rule sample_http [of "[]"])
  fix w and srv :: "net http_server" assume s: "sn_socket (hs_sender srv) = 1"
  obtain w1 where p: "pointer_arrives sample_zmq [7] 9 srv (sample_world [([7], False)]) w1"
    using sample_pointer [OF s] by blast
  let ?ch = "ConnectionHandler \<lparr>rr_method = ''OPTIONS'', rr_source = [], rr_destination = [],
      rr_headers = [(''Host'', ''x''), (''Access-Control-Request-Method'', method_name GET), (''Origin'', ''http://x''),
        (''Accept'', ''*'')]\<rparr> 9"
  obtain uri where u: "URI_string (\<lambda>s. Inr (empty_uri\<lparr>uri_scheme := ''http''\<rparr>)) (rr_destination (ch_request ?ch)) = Inr uri"
    and q: "uri_path uri = []"
    by (simp add: URI_string_def createURI_def ConnectionHandler_def c_str_def empty_uri_def DEFAULT_SCHEMA_def)
  have "handleRequest (\<lambda>s. Inr (empty_uri\<lparr>uri_scheme := ''http''\<rparr>)) (pipe_exchange sample_zmq sample_printf [7] 9 srv)
      OPTIONS ?ch (idle, sample_world [([7], False)]) = ((idle, sample_world [([7], False)]), Inr Blocked)"
    by (rule preflight_empty_path_blocks [OF p u q, where M = GET and origin = "''http://x''"
        and before = "[(''Host'', ''x''), (''Access-Control-Request-Method'', method_name GET)]"
        and before' = "[(''Host'', ''x'')]"]) (auto simp: ConnectionHandler_def)
  moreover have "\<exists>v. (''Host'', v) \<in> set (rr_headers (ch_request ?ch))" by (auto simp: ConnectionHandler_def)
  ultimately show ?thesis by blast
qed

text \<open>C5: a request whose chunks add up to its content length is put together and given to
  the handler registered for its path, and what the handler answers is written to the
  connection.\<close>

theorem body_reaches_handler:
  assumes "http_reach srv" and "rr_method rq = method_name m" and "m \<noteq> GET" and "m \<noteq> ALL_METHODS"
    and "rr_headers rq = before @ (''Content-Length'', decimal (length (concat (cs @ [c])))) # after"
    and "\<forall>h \<in> set before. fst h \<noteq> ''Content-Length''"
    and "\<forall>h \<in> set (rr_headers rq). fst h \<noteq> ''Origin''"
    and "c \<noteq> []" and "length (concat (cs @ [c])) < 2 ^ 31"
    and "URI_string parse (rr_destination rq) = Inr uri" and "uri_path uri = CHR ''/'' # endpoint"
    and "map_of (hs_methods srv m) endpoint = Some f"
    and "pointer_arrives Z p s srv w w1"
    and "f \<lparr>rq_method = m, rq_path = (if endpoint = ''/'' then ''/'' else []), rq_source = rr_source rq,
        rq_query = uri_query uri, rq_body = concat (cs @ [c])\<rparr> (env w1) =
      (e1, Inr (make_ready_response response))"
  shows "\<exists>w2. serve_request parse (pipe_exchange Z real p s srv) rq s (map Some (cs @ [c])) (conn, w) =
    ((write_response response [] conn, w2), Inr Finished)"
proof -
  let ?n = "length (concat (cs @ [c]))"
  let ?ch = "(ConnectionHandler rq s)\<lparr>ch_size := word_of_nat ?n\<rparr>"
  have "unat (word_of_nat n :: 64 word) = n" if "n < 2 ^ 31" for n
    using that by (simp add: unat_of_nat)
  then have u: "unat (word_of_nat ?n :: 64 word) = ?n" using assms(9) by (simp only:)
  moreover have "0 < ?n" using assms(8) by simp
  ultimately have z: "0 < (word_of_nat ?n :: 64 word)" by (simp only: word_less_nat_alt unsigned_0)
  have "getMethodType (rr_method rq) = Inr m" using assms(2,4) by (simp only: getMethodType_iff) simp
  moreover have "getContentLength rq = Inr (word_of_nat ?n)"
    using assms(5,6,9) content_length_first by (simp only: getContentLength_def)
  ultimately have "RequestHandler_call parse (pipe_exchange Z real p s srv) (ConnectionHandler rq s) (conn, w) =
      ((conn, w), Inr (Reading m ?ch))"
    using assms(3) z by (simp add: RequestHandler_call_def start_request_def ConnectionHandler_def)
  then have "serve_request parse (pipe_exchange Z real p s srv) rq s (map Some (cs @ [c])) (conn, w) =
      handleRequest parse (pipe_exchange Z real p s srv) m
        ((ConnectionHandler rq s)\<lparr>ch_body := concat (cs @ [c]), ch_size := 0\<rparr>) (conn, w)"
    using read_chunks_complete [of ?ch cs c parse "pipe_exchange Z real p s srv" m "(conn, w)"] u assms(8)
    by (simp add: serve_request_def ConnectionHandler_def)
  moreover have "\<exists>w2. handleRequest parse (pipe_exchange Z real p s srv) m
        ((ConnectionHandler rq s)\<lparr>ch_body := concat (cs @ [c]), ch_size := 0\<rparr>) (conn, w) =
      ((write_response response [] conn, w2), Inr Finished)"
    by (rule handleRequest_registered [OF http_reach_ok [OF assms(1)] _ assms(11) _ assms(4,12) _ assms(13)])
      (use assms(3,7,10,14) in \<open>simp_all add: ConnectionHandler_def\<close>)
  ultimately show ?thesis by simp
qed

theorem body_reaches_handler_witness:
  "\<exists>srv w2. serve_request sample_parse (pipe_exchange sample_zmq sample_printf [7] 9 srv)
      \<lparr>rr_method = ''PUT'', rr_source = [], rr_destination = ''/a'',
        rr_headers = [(''Host'', ''x''), (''Content-Length'', ''5'')]\<rparr> 9
      [Some ''ab'', Some ''cde''] (idle, sample_world [([7], False)]) =
    ((write_response (Response OK ''abcde'') [] idle, w2), Inr Finished)"
proof (rule sample_http [of "[]"])
  fix w and srv :: "net http_server"
  assume r: "http_reach srv" and s: "sn_socket (hs_sender srv) = 1" and e: "hs_methods srv = (\<lambda>_. [])"
  let ?f = "\<lambda>req e. (e :: net, Inr (make_ready_response (Response OK (rq_body req))))"
  let ?srv = "srv\<lparr>hs_methods := (\<lambda>_. [])(PUT := [(''a'', ?f)])\<rparr>"
  let ?rq = "\<lparr>rr_method = ''PUT'', rr_source = [], rr_destination = ''/a'',
        rr_headers = [(''Host'', ''x''), (''Content-Length'', ''5'')]\<rparr>"
  have "Http_handle PUT ''a'' ?f srv = (?srv, Inr True)"
    using e by (simp add: Http_handle_def checkEndpointName_def in_methods_def at_method_def REQUEST_REGISTRY_def)
  with r have r': "http_reach ?srv" by (rule http_reach.handle)
  obtain w1 where p: "pointer_arrives sample_zmq [7] 9 ?srv (sample_world [([7], False)]) w1"
    using sample_pointer [of ?srv] s by auto
  have d: "''5'' = decimal (Suc (Suc (Suc (Suc (Suc 0)))))" by code_simp
  obtain uri where u: "URI_string sample_parse (rr_destination ?rq) = Inr uri"
    and q: "uri_path uri = ''/a''"
    by (simp add: URI_string_def createURI_def c_str_def sample_parse_def empty_uri_def DEFAULT_SCHEMA_def)
  from body_reaches_handler [OF r' _ _ _ _ _ _ _ _ u, where m = PUT and s = 9 and conn = idle and real = sample_printf
      and before = "[(''Host'', ''x'')]" and after = "[]" and cs = "[''ab'']" and c = "''cde''" and endpoint = "''a''"
      and f = ?f and response = "Response OK ''abcde''", OF _ _ _ _ _ _ _ _ _ _ p] q d
  show ?thesis by (intro exI [of _ ?srv]) (simp add: method_name_def)
qed

text \<open>C32: a chunk longer than what is left of the content length makes the number of bytes
  left wrap around: the request is not handled, and the connection waits for almost
  \<^verbatim>\<open>2^64\<close> more bytes.\<close>

theorem oversized_body_waits:
  assumes "unat (ch_size ch) < length c" and "length c < 2 ^ 64"
  shows "\<exists>ch'. handleChunk parse exchange (Some c) m ch st = (st, Inr (Reading m ch')) \<and>
    unat (ch_size ch') = 2 ^ 64 - (length c - unat (ch_size ch))"
  by (rule handleChunk_too_long [OF assms])

theorem oversized_body_waits_witness:
  "\<exists>ch'. handleChunk sample_parse (\<lambda>m w. None) (Some ''abc'') PUT
      \<lparr>ch_request = \<lparr>rr_method = ''PUT'', rr_source = [], rr_destination = ''/a'', rr_headers = []\<rparr>,
        ch_socket = 9, ch_body = [], ch_size = 2\<rparr> (idle, sample_world []) =
      ((idle, sample_world []), Inr (Reading PUT ch')) \<and> unat (ch_size ch') = 2 ^ 64 - 1"
  using oversized_body_waits [of "\<lparr>ch_request = \<lparr>rr_method = ''PUT'', rr_source = [],
      rr_destination = ''/a'', rr_headers = []\<rparr>, ch_socket = 9, ch_body = [], ch_size = 2\<rparr>" "''abc''"
    sample_parse "\<lambda>m w. None" PUT "(idle, sample_world [])"]
  by simp

end
