(* ===== verification/Http_Registry.thy ===== *)
theory Http_Registry
  imports Http_Routing
begin

text \<open>
  What \<^verbatim>\<open>GET /registry\<close> answers: an object that maps each endpoint to the array of the methods it
  has, in the order GET, POST, PUT, PATCH, DELETE, OPTIONS.
\<close>

section \<open>Appending to an array of strings\<close>

lemma string_elements_snoc:
  "string_elements (ss @ [s]) = string_elements ss @ [(word_of_nat (length ss), json_of (J_string s))]"
  by (simp add: string_elements_def enumerate_append_eq)

lemma string_elements_below:
  assumes "length ss < 2 ^ 32" and "k \<in> fst ` set (string_elements ss :: (32 word \<times> 'r json) list)"
  shows "k < word_of_nat (length ss)"
proof -
  obtain i where i: "i < length ss" "k = word_of_nat i"
    using assms(2) by (auto simp: string_elements_def in_set_enumerate_eq)
  with assms(1) show ?thesis by (simp add: word_less_nat_alt unat_of_nat32)
qed

definition string_array :: "string list \<Rightarrow> 'r json" where
  "string_array ss = json_of (J_array (string_elements ss))"

lemma string_array_size: "json_size (string_array ss :: 'r json) = word_of_nat (length ss)"
  using string_elements_last [of ss, where 'r = 'r]
  by (cases "ss = []") (simp_all add: json_size_def string_array_def json_of_def string_elements_def)

lemma json_append_string:
  assumes "length ss < 2 ^ 32"
  shows "json_append (json_of (J_string s)) (string_array ss :: 'r json) =
    Inr (string_array (ss @ [s]))"
proof -
  let ?i = "word_of_nat (length ss) :: 32 word"
  have below: "\<forall>k \<in> fst ` set (string_elements ss :: (32 word \<times> 'r json) list). k < ?i"
    using string_elements_below [OF assms] by blast
  then have none: "map_of (string_elements ss :: (32 word \<times> 'r json) list) ?i = None"
    by (auto simp: map_of_eq_None_iff)
  have "smap_put (<) ?i (json_of (J_string s))
      (smap_put (<) ?i nullSingleton (string_elements ss)) =
      string_elements ss @ [(?i, json_of (J_string s) :: 'r json)]"
    using below by (simp add: smap_put_above smap_put_last)
  with none show ?thesis
    by (simp add: json_append_def string_array_size json_assign_def json_index_def
        array_elements_def) (simp add: string_array_def json_of_def string_elements_snoc)
qed

lemma json_append_string_null:
  "json_append (json_of (J_string s)) (nullSingleton :: 'r json) = Inr (string_array [s])"
  by (simp add: json_append_def json_assign_def json_index_def array_elements_def json_size_def
      nullSingleton_def json_of_def string_array_def string_elements_def)

section \<open>The registry\<close>

text \<open>The object that lists, for each endpoint, the methods of \<open>L\<close>.\<close>

definition lists_methods :: "(string \<Rightarrow> string list) \<Rightarrow> 'r json \<Rightarrow> bool" where
  "lists_methods L v \<longleftrightarrow>
     (\<exists>ms. v = json_of (J_object ms) \<and> smap_ok (<) ms \<and>
       map_of ms = (\<lambda>k. if L k = [] then None else Some (string_array (L k))))"

lemma lists_methods_add:
  fixes v :: "'r json"
  assumes "lists_methods L v" and "length (L k) < 2 ^ 32"
  shows "\<exists>v'. register_method m k v = (v', Inr ()) \<and>
    lists_methods (L(k := L k @ [method_name m])) v'"
proof -
  obtain ms where v: "v = json_of (J_object ms)" and ok: "smap_ok (<) ms"
    and l: "map_of ms = (\<lambda>k. if L k = [] then None else Some (string_array (L k)))"
    using assms(1) by (auto simp: lists_methods_def)
  let ?ms1 = "if map_of ms k \<noteq> None then ms else smap_put (<) k nullSingleton ms"
  let ?new = "string_array (L k @ [method_name m]) :: 'r json"
  have r: "resolveReference k v = Inr (json_of (J_object ?ms1))"
    by (simp add: resolveReference_def object_members_def v json_of_def)
  have at: "map_of ?ms1 k = Some (if L k = [] then nullSingleton else string_array (L k))"
    by (simp add: l asc.lookup_put)
  have "json_append (json_of (J_string (method_name m)))
      (if L k = [] then nullSingleton else string_array (L k) :: 'r json) = Inr ?new"
    using json_append_string [OF assms(2), of "method_name m", where 'r = 'r]
      json_append_string_null [of "method_name m", where 'r = 'r] by simp
  with r at have "register_method m k v = (json_of (J_object (smap_put (<) k ?new ?ms1)), Inr ())"
    by (simp add: register_method_def json_member_def json_of_def)
  moreover have "lists_methods (L(k := L k @ [method_name m]))
      (json_of (J_object (smap_put (<) k ?new ?ms1)))"
    using ok by (auto simp: lists_methods_def asc.put_ok asc.lookup_put l fun_eq_iff)
  ultimately show ?thesis by blast
qed

lemma lists_methods_table:
  assumes "lists_methods L v" and "distinct ks" and "\<forall>k \<in> set ks. length (L k) < 2 ^ 32"
  shows "\<exists>v'. for_each (register_method m) ks v = (v', Inr ()) \<and>
    lists_methods (\<lambda>k. if k \<in> set ks then L k @ [method_name m] else L k) v'"
  using assms
proof (induction ks arbitrary: L v)
  case (Cons k ks)
  let ?L = "L(k := L k @ [method_name m])"
  have "length (L k) < 2 ^ 32" using Cons.prems(3) by simp
  from lists_methods_add [OF Cons.prems(1) this] obtain v1 where
    1: "register_method m k v = (v1, Inr ())" "lists_methods ?L v1" by blast
  have "distinct ks" "\<forall>j \<in> set ks. length (?L j) < 2 ^ 32" using Cons.prems(2,3) by auto
  from Cons.IH [OF 1(2) this] obtain v2 where
    2: "for_each (register_method m) ks v1 = (v2, Inr ())"
      "lists_methods (\<lambda>j. if j \<in> set ks then ?L j @ [method_name m] else ?L j) v2" by blast
  have "(\<lambda>j. if j \<in> set ks then ?L j @ [method_name m] else ?L j) =
      (\<lambda>j. if j \<in> set (k # ks) then L j @ [method_name m] else L j)"
    using Cons.prems(2) by (auto simp: fun_eq_iff)
  with 1 2 show ?case by auto
qed simp

lemma in_methods_keys: "in_methods m k srv \<longleftrightarrow> k \<in> set (map fst (hs_methods srv m))"
  by (simp add: in_methods_def map_of_eq_None_iff)

lemma lists_methods_all:
  assumes "http_ok srv" and "lists_methods L v" and "\<forall>k. length (L k) + length ms < 2 ^ 32"
  shows "\<exists>v'. for_each (\<lambda>m. for_each (register_method m) (map fst (hs_methods srv m))) ms v =
      (v', Inr ()) \<and>
    lists_methods (\<lambda>k. L k @ map method_name (filter (\<lambda>m. in_methods m k srv) ms)) v'"
  using assms(2,3)
proof (induction ms arbitrary: L v)
  case (Cons m ms)
  let ?L = "\<lambda>k. if k \<in> set (map fst (hs_methods srv m)) then L k @ [method_name m] else L k"
  have "distinct (map fst (hs_methods srv m))"
    using assms(1) by (auto simp: http_ok_def intro: desc.distinct_keys)
  moreover have "\<forall>k \<in> set (map fst (hs_methods srv m)). length (L k) < 2 ^ 32"
    using Cons.prems(2) by (metis add_lessD1)
  ultimately obtain v1 where
    1: "for_each (register_method m) (map fst (hs_methods srv m)) v = (v1, Inr ())"
      "lists_methods ?L v1"
    using lists_methods_table [OF Cons.prems(1)] by blast
  have "length (?L k) + length ms < 2 ^ 32" for k
    using Cons.prems(2) [rule_format, of k] by (simp only: length_append list.size split: if_splits) auto
  then have "\<forall>k. length (?L k) + length ms < 2 ^ 32" by blast
  from Cons.IH [OF 1(2) this] obtain v2 where
    2: "for_each (\<lambda>m. for_each (register_method m) (map fst (hs_methods srv m))) ms v1 = (v2, Inr ())"
      "lists_methods (\<lambda>k. ?L k @ map method_name (filter (\<lambda>m. in_methods m k srv) ms)) v2" by blast
  have "(\<lambda>k. ?L k @ map method_name (filter (\<lambda>m. in_methods m k srv) ms)) =
      (\<lambda>k. L k @ map method_name (filter (\<lambda>m. in_methods m k srv) (m # ms)))"
    by (auto simp: fun_eq_iff in_methods_keys)
  with 1 2 show ?case by auto
qed simp

lemma registry_lists_methods:
  assumes "http_ok srv"
  shows "\<exists>v. registry_value srv = (v :: 'r json, Inr ()) \<and>
    lists_methods (\<lambda>k. map method_name (methods_of k srv)) v"
proof -
  have "lists_methods (\<lambda>_. []) (json_of (J_object []) :: 'r json)"
    by (simp add: lists_methods_def)
  from lists_methods_all [OF assms this, of all_methods]
  show ?thesis by (simp add: registry_value_def methods_of_def all_methods_def)
qed

section \<open>The text of the registry\<close>

text \<open>One line for each endpoint.\<close>

definition registry_line :: "string \<times> string list \<Rightarrow> string" where
  "registry_line = (\<lambda>(k, ss). CHR 0x0A # ''   '' @ valueToQuotedString k @ '' : '' @
     ''[ '' @ comma_separated (map valueToQuotedStringN ss) @ '' ]'')"

fun registry_lines :: "(string \<times> string list) list \<Rightarrow> string" where
  "registry_lines [] = []"
| "registry_lines [e] = registry_line e"
| "registry_lines (e # es) = registry_line e @ '','' @ registry_lines es"

definition registry_text :: "(string \<times> string list) list \<Rightarrow> string" where
  "registry_text es =
     (if es = [] then ''{}'' else ''{'' @ registry_lines es @ [CHR 0x0A] @ ''}'') @ [CHR 0x0A]"

definition fits_line :: "string list \<Rightarrow> bool" where
  "fits_line ss \<longleftrightarrow> ss \<noteq> [] \<and>
     2 + 2 * length ss + sum_list (map (length \<circ> valueToQuotedStringN) ss) < 74"

lemma no_comments_writes:
  "writeCommentBeforeValue (json_of d) st = st"
  "writeCommentAfterValueOnSameLine (json_of d) st = st"
  "writeCommentBeforeValue (Json d no_comments) st = st"
  "writeCommentAfterValueOnSameLine (Json d no_comments) st = st"
  by (simp_all add: writeCommentBeforeValue_def writeCommentAfterValueOnSameLine_def json_of_def
      no_comments_def getComment_def)

lemma writeWithIndent_line:
  "sw_document st = d @ [c] \<Longrightarrow> c \<noteq> CHR '' '' \<Longrightarrow> c \<noteq> CHR 0x0A \<Longrightarrow>
   writeWithIndent s st = sw_append (CHR 0x0A # sw_indent st @ s) st"
  by (simp add: writeWithIndent_def writeIndent_def sw_append_def Let_def)

lemma fits_string_array:
  assumes "fits_line ss" and "\<not> sw_add_children st"
  shows "writeValue real (string_array ss) st =
    sw_append (''[ '' @ comma_separated (map valueToQuotedStringN ss) @ '' ]'')
      (st\<lparr>sw_children := map valueToQuotedStringN ss\<rparr>)"
proof -
  have "2 * length ss \<le> sum_list (map (length \<circ> valueToQuotedStringN) ss)"
    by (induction ss) (simp_all add: valueToQuotedStringN_eq)
  with assms show ?thesis
    unfolding string_array_def json_of_def fits_line_def by (intro write_string_array) auto
qed

lemma write_registry:
  assumes "es \<noteq> []" and "\<forall>e \<in> set es. fits_line (snd e)" and "\<not> sw_add_children st"
    and "sw_indent st = ''   ''"
    and "sw_document st = d @ [c]" and "c \<noteq> CHR '' ''" and "c \<noteq> CHR 0x0A"
  shows "\<exists>ch. write_members real (map (\<lambda>(k, ss). (k, string_array ss)) es) st =
    st\<lparr>sw_document := sw_document st @ registry_lines es, sw_children := ch\<rparr>"
  using assms
proof (induction es arbitrary: st d c rule: registry_lines.induct)
  case (2 e)
  obtain k ss where e: "e = (k, ss)" by (cases e)
  have "write_members real (map (\<lambda>(k, ss). (k, string_array ss)) [e]) st =
      st\<lparr>sw_document := sw_document st @ registry_lines [e],
        sw_children := map valueToQuotedStringN ss\<rparr>"
    using 2 e
    by (cases st) (simp add: string_array_def no_comments_writes writeWithIndent_line
        fits_string_array [unfolded string_array_def] sw_append_def registry_line_def)
  then show ?case by blast
next
  case (3 e e' es)
  obtain k ss where e: "e = (k, ss)" by (cases e)
  let ?st = "st\<lparr>sw_document := sw_document st @ registry_line e @ '','',
    sw_children := map valueToQuotedStringN ss\<rparr>"
  have "write_members real (map (\<lambda>(k, ss). (k, string_array ss)) (e # e' # es)) st =
      write_members real (map (\<lambda>(k, ss). (k, string_array ss)) (e' # es)) ?st"
    using 3 e
    by (cases st) (simp add: string_array_def no_comments_writes writeWithIndent_line
        fits_string_array [unfolded string_array_def] sw_append_def registry_line_def)
  moreover have "\<exists>ch. write_members real (map (\<lambda>(k, ss). (k, string_array ss)) (e' # es)) ?st =
      ?st\<lparr>sw_document := sw_document ?st @ registry_lines (e' # es), sw_children := ch\<rparr>"
    using 3 by (intro "3.IH" [where c = "CHR '',''"]) auto
  ultimately show ?case by auto
qed simp

lemma registry_object_text:
  assumes "\<forall>e \<in> set es. fits_line (snd e)"
  shows "toStyledString real (json_of (J_object (map (\<lambda>(k, ss). (k, string_array ss)) es))) =
    registry_text es"
proof (cases "es = []")
  case False
  let ?st = "\<lparr>sw_document = ''{'', sw_indent = ''   '', sw_add_children = False, sw_children = []\<rparr>"
  obtain ch where "write_members real (map (\<lambda>(k, ss). (k, string_array ss)) es) ?st =
      ?st\<lparr>sw_document := sw_document ?st @ registry_lines es, sw_children := ch\<rparr>"
    using write_registry [OF False assms, of ?st "[]" "CHR ''{''" real] by auto
  moreover have "\<exists>d c. registry_lines es = d @ [c] \<and> c = CHR '']''"
    using False by (induction es rule: registry_lines.induct) (auto simp: registry_line_def)
  then obtain d where d: "registry_lines es = d @ '']''" by blast
  ultimately show ?thesis
    using False
    by (simp add: toStyledString_def StyledWriter_write_def json_of_def no_comments_writes Let_def
        writeWithIndent_def writeIndent_def sw_append_def sw_indented_def sw_unindented_def
        indentSize_def registry_text_def numeral_3_eq_3)
qed (simp add: toStyledString_def StyledWriter_write_def no_comments_writes Let_def registry_text_def
    pushValue_def sw_append_def json_of_def)

lemma method_name_quoted: "length (valueToQuotedStringN (method_name m)) = length (method_name m) + 2"
  by (cases m)
    (simp_all add: valueToQuotedStringN_def method_name_def special_chars_def
      containsControlCharacter0_def isControlCharacter_def c_str_def)

lemma methods_fit_line:
  assumes "methods_of k srv \<noteq> []"
  shows "fits_line (map method_name (methods_of k srv))"
proof -
  let ?w = "\<lambda>m. length (valueToQuotedStringN (method_name m)) + 2"
  have bound: "(\<Sum>m \<leftarrow> filter P ms. f m) \<le> (\<Sum>m \<leftarrow> ms. f m)" for P ms and f :: "http_method \<Rightarrow> nat"
    by (induction ms) auto
  have len: "2 * length ms + (\<Sum>m \<leftarrow> ms. length (valueToQuotedStringN (method_name m))) = (\<Sum>m \<leftarrow> ms. ?w m)"
    for ms by (induction ms) auto
  have "(\<Sum>m \<leftarrow> methods_of k srv. ?w m) \<le> (\<Sum>m \<leftarrow> all_methods. ?w m)"
    unfolding methods_of_def by (rule bound)
  also have "\<dots> = 52"
    by (simp add: method_name_quoted all_methods_def) (simp add: method_name_def)
  finally show ?thesis
    using assms len [of "methods_of k srv"] by (simp add: fits_line_def comp_def)
qed

definition registry_entries :: "'e http_server \<Rightarrow> (string \<times> string list) list" where
  "registry_entries srv =
     map (\<lambda>k. (k, map method_name (methods_of k srv))) (sorted_list_of_set {k. methods_of k srv \<noteq> []})"

lemma sorted_smap_keys: "smap_ok (<) m \<Longrightarrow> map fst m = sorted_list_of_set (dom (map_of m))"
  for m :: "('k::linorder, 'v) smap"
  by (simp add: smap_ok_def dom_map_of_conv_image_fst strict_sorted_iff
      sorted_list_of_set_unique)
    (metis finite_set list.set_map sorted_list_of_set.idem_if_sorted_distinct strict_sorted_iff)

lemma lists_methods_entries:
  assumes "lists_methods (\<lambda>k. map method_name (methods_of k srv)) v"
  shows "v = json_of (J_object (map (\<lambda>(k, ss). (k, string_array ss)) (registry_entries srv)))"
proof -
  obtain ms where v: "v = json_of (J_object ms)" and ok: "smap_ok (<) ms"
    and l: "map_of ms = (\<lambda>k. if map method_name (methods_of k srv) = [] then None
      else Some (string_array (map method_name (methods_of k srv))))"
    using assms by (auto simp: lists_methods_def)
  have dom: "dom (map_of ms) = {k. methods_of k srv \<noteq> []}"
    unfolding l by (auto split: if_splits)
  have "x = string_array (map method_name (methods_of k srv))" if "(k, x) \<in> set ms" for k x
  proof -
    have "map_of ms k = Some x"
      using that asc.distinct_keys [OF ok] by simp
    then show ?thesis by (simp add: l split: if_splits)
  qed
  then have "ms = map (\<lambda>k. (k, string_array (map method_name (methods_of k srv)))) (map fst ms)"
    by (auto intro!: map_idI [symmetric] simp: comp_def)
  with sorted_smap_keys [OF ok] dom show ?thesis
    by (simp add: v registry_entries_def comp_def)
qed

lemma getRegistry_eq:
  fixes real :: "'r printf"
  assumes "http_ok srv"
  shows "getRegistry real srv = Inr (registry_text (registry_entries srv))"
proof -
  obtain v where v: "registry_value srv = (v :: 'r json, Inr ())"
    and l: "lists_methods (\<lambda>k. map method_name (methods_of k srv)) v"
    using registry_lists_methods [OF assms] by blast
  have finite: "finite {k. methods_of k srv \<noteq> []}"
  proof -
    obtain ms where "map_of ms = (\<lambda>k. if map method_name (methods_of k srv) = [] then None
        else Some (string_array (map method_name (methods_of k srv)) :: 'r json))"
      using l by (auto simp: lists_methods_def)
    then have "{k. methods_of k srv \<noteq> []} = dom (map_of ms)" by (auto split: if_splits)
    then show ?thesis by (simp add: finite_dom_map_of)
  qed
  have "\<forall>e \<in> set (registry_entries srv). fits_line (snd e)"
    using methods_fit_line finite by (auto simp: registry_entries_def)
  from registry_object_text [OF this, of real] v lists_methods_entries [OF l]
  show ?thesis by (simp add: getRegistry_def)
qed

text \<open>C6: on every reachable server a GET of \<^verbatim>\<open>registry\<close> answers
  with a JSON object that has, for every endpoint in ascending order, the array of the methods it
  is registered for.\<close>

theorem registry_text_served:
  fixes real :: "'r printf"
  assumes "http_reach srv"
  shows "respondTo real srv (req\<lparr>rq_method := GET, rq_path := ''/registry''\<rparr>) w =
    ((req\<lparr>rq_method := GET, rq_path := ''/registry''\<rparr>, w), Inr (make_ready_response
      (Response_type OK (registry_text (registry_entries srv)) JSON_TYPE)))"
  using getRegistry_eq [OF http_reach_ok [OF assms], of real]
  by (simp add: respondTo_def substr_from_def builtin_response_def REQUEST_REGISTRY_def)

theorem registry_text_served_witness:
  "\<exists>srv :: net http_server. respondTo sample_printf srv (sample_req GET ''/registry'') (sample_world []) =
     ((sample_req GET ''/registry'', sample_world []),
      Inr (make_ready_response (Response_type OK
        ([CHR ''{'', CHR 0x0A] @ ''   '' @ [CHR 0x22] @ ''a'' @ [CHR 0x22] @ '' : [ '' @ [CHR 0x22] @ ''GET'' @ [CHR 0x22] @ '' ]''
          @ [CHR 0x0A, CHR ''}'', CHR 0x0A]) JSON_TYPE)))"
proof (rule sample_http_get [of "''a''" "\<lambda>r e. (e, Inr No_state)"])
  show "''a'' \<noteq> REQUEST_REGISTRY" by (simp add: REQUEST_REGISTRY_def)
  fix srv :: "net http_server"
  assume r: "http_reach srv" and m: "hs_methods srv = (\<lambda>_. [])(GET := [(''a'', \<lambda>r e. (e, Inr No_state))])"
  have k: "methods_of k srv = (if k = ''a'' then [GET] else [])" for k
    by (simp add: methods_of_def all_methods_def in_methods_def m)
  then have "{k. methods_of k srv \<noteq> []} = {''a''}" by auto
  then have "registry_entries srv = [(''a'', [''GET''])]"
    by (simp add: registry_entries_def k method_name_def)
  moreover have "registry_text [(''a'', [''GET''])] = [CHR ''{'', CHR 0x0A] @ ''   '' @ [CHR 0x22] @ ''a'' @ [CHR 0x22]
      @ '' : [ '' @ [CHR 0x22] @ ''GET'' @ [CHR 0x22] @ '' ]'' @ [CHR 0x0A, CHR ''}'', CHR 0x0A]"
    by code_simp
  ultimately show ?thesis
    using registry_text_served [OF r, of sample_printf "sample_req GET []" "sample_world []"]
    by (intro exI [of _ srv]) simp
qed

end
