(* ===== verification/System.thy ===== *)
theory System
  imports Publisher Subscriber Req_Server Req_Client Receive_Group Monitor Broker Http_Handler
    Http_Registry
begin

text \<open>
  The receivers of a program: a group of subscribers, servers, clients, monitors, brokers and HTTP
  servers, dispatched by the virtual functions of \<^verbatim>\<open>zeroeq::Receiver\<close>. The loop of
  \<^verbatim>\<open>receiver.cpp\<close> is instantiated with them, and what the components do for each other is proved:
  an event published is the event handled, a request made is answered to the handler it was made
  with, a subscription is seen by the monitor of the publisher, an announced address is the
  address that is connected to.
\<close>

section \<open>Every receiver supplies its sockets\<close>

interpretation sender_sockets: socket_supplier Sender_addSockets "\<lambda>sn. [sn_socket sn]"
  by unfold_locales (simp add: Sender_addSockets_def)

interpretation net_sockets: socket_supplier net_addSockets nr_entries
  by unfold_locales (simp add: net_addSockets_def)

interpretation subscriber_sockets: socket_supplier Subscriber_addSockets "\<lambda>sub. nr_entries (sub_net sub)"
  by unfold_locales (simp add: Subscriber_addSockets_def net_sockets.appends)

interpretation client_sockets: socket_supplier Client_addSockets "\<lambda>cl. nr_entries (cl_net cl)"
  by unfold_locales (simp add: Client_addSockets_def net_sockets.appends)

interpretation server_sockets: socket_supplier Server_addSockets "\<lambda>srv. [sn_socket (srv_sender srv)]"
  by unfold_locales (simp add: Server_addSockets_def sender_sockets.appends)

interpretation monitor_sockets: socket_supplier Monitor_addSockets "\<lambda>mon. [mon_socket mon]"
  by unfold_locales (simp add: Monitor_addSockets_def)

interpretation broker_sockets: socket_supplier Broker_addSockets
  "\<lambda>sn. if sn_socket sn = 0 then [] else [sn_socket sn]"
  by unfold_locales (simp add: Broker_addSockets_def)

interpretation http_sockets: socket_supplier Http_addSockets "\<lambda>srv. [sn_socket (hs_sender srv)]"
  by unfold_locales (simp add: Http_addSockets_def)

section \<open>Virtual functions\<close>

text \<open>A broker refers to the receiver it serves by its number.\<close>

datatype 'e component =
    C_subscriber "'e subscriber"
  | C_server "'e server"
  | C_client "'e client"
  | C_monitor monitor "'e notify"
  | C_broker sender nat
  | C_http "'e http_server"

record 'e system =
  sys_objs :: "nat \<Rightarrow> 'e component option"
  sys_heap :: heap
  sys_world :: "'e zworld"

definition set_obj :: "nat \<Rightarrow> 'e component \<Rightarrow> 'e zworld \<Rightarrow> 'e system \<Rightarrow> 'e system" where
  "set_obj r c w s = s\<lparr>sys_objs := (sys_objs s)(r \<mapsto> c), sys_world := w\<rparr>"

definition component_addSockets :: "'e component \<Rightarrow> sock list \<Rightarrow> sock list" where
  "component_addSockets c entries =
     (case c of
        C_subscriber sub \<Rightarrow> Subscriber_addSockets sub entries
      | C_server srv \<Rightarrow> Server_addSockets srv entries
      | C_client cl \<Rightarrow> Client_addSockets cl entries
      | C_monitor mon _ \<Rightarrow> Monitor_addSockets mon entries
      | C_broker sn _ \<Rightarrow> Broker_addSockets sn entries
      | C_http srv \<Rightarrow> Http_addSockets srv entries)"

definition component_sockets :: "'e component \<Rightarrow> sock list" where
  "component_sockets c =
     (case c of
        C_subscriber sub \<Rightarrow> nr_entries (sub_net sub)
      | C_server srv \<Rightarrow> [sn_socket (srv_sender srv)]
      | C_client cl \<Rightarrow> nr_entries (cl_net cl)
      | C_monitor mon _ \<Rightarrow> [mon_socket mon]
      | C_broker sn _ \<Rightarrow> (if sn_socket sn = 0 then [] else [sn_socket sn])
      | C_http srv \<Rightarrow> [sn_socket (hs_sender srv)])"

interpretation component: socket_supplier component_addSockets component_sockets
  by unfold_locales
    (auto simp: component_addSockets_def component_sockets_def subscriber_sockets.appends
      server_sockets.appends client_sockets.appends monitor_sockets.appends
      broker_sockets.appends http_sockets.appends split: component.splits)

text \<open>\<^verbatim>\<open>update()\<close>: only subscribers and clients override it, and its result is dropped.\<close>

definition Receiver_update ::
  "'e zmq \<Rightarrow> 'e servus \<Rightarrow> host \<Rightarrow> nat \<Rightarrow> 'e system \<Rightarrow> ('e system, unit) outcome" where
  "Receiver_update Z S h r s =
     (case sys_objs s r of
        Some (C_subscriber sub) \<Rightarrow>
          (case Subscriber_update Z S h (sub, sys_world s) of
             ((sub', w), x) \<Rightarrow> (set_obj r (C_subscriber sub') w s, map_sum id (\<lambda>_. ()) x))
      | Some (C_client cl) \<Rightarrow>
          (case Client_update Z S (cl, sys_world s) of
             ((cl', w), x) \<Rightarrow> (set_obj r (C_client cl') w s, map_sum id (\<lambda>_. ()) x))
      | _ \<Rightarrow> (s, Inr ()))"

text \<open>
  \<^verbatim>\<open>addConnection()\<close>: the subscriber and the client drop the result too, the server throws, and the
  default only logs.
\<close>

definition Receiver_addConnection ::
  "'e zmq \<Rightarrow> 'e servus \<Rightarrow> host \<Rightarrow> nat \<Rightarrow> string \<Rightarrow> 'e system \<Rightarrow> ('e system, unit) outcome" where
  "Receiver_addConnection Z S h r uri s =
     (case sys_objs s r of
        Some (C_subscriber sub) \<Rightarrow>
          (case Subscriber_addConnection Z S h uri (sub, sys_world s) of
             ((sub', w), x) \<Rightarrow> (set_obj r (C_subscriber sub') w s, map_sum id (\<lambda>_. ()) x))
      | Some (C_client cl) \<Rightarrow>
          (case Client_addConnection Z uri (cl, sys_world s) of
             ((cl', w), x) \<Rightarrow> (set_obj r (C_client cl') w s, map_sum id (\<lambda>_. ()) x))
      | Some (C_server _) \<Rightarrow> Server_addConnection uri s
      | _ \<Rightarrow> (s, Inr ()))"

definition broker_addConnection ::
  "'e zmq \<Rightarrow> 'e servus \<Rightarrow> host \<Rightarrow> nat \<Rightarrow> string \<Rightarrow> 'e system \<times> 'e zworld \<Rightarrow>
   ('e system \<times> 'e zworld, unit) outcome" where
  "broker_addConnection Z S h r uri st =
     (case Receiver_addConnection Z S h r uri ((fst st)\<lparr>sys_world := snd st\<rparr>) of
        (s, x) \<Rightarrow> ((s, sys_world s), x))"

definition Receiver_process ::
  "'e zmq \<Rightarrow> 'e servus \<Rightarrow> host \<Rightarrow> 'r printf \<Rightarrow> nat \<Rightarrow> sock \<Rightarrow> 'e system \<Rightarrow>
   ('e system, bool) outcome" where
  "Receiver_process Z S h real r socket s =
     (case sys_objs s r of
        None \<Rightarrow> (s, Inl (Undefined ''no such receiver''))
      | Some (C_subscriber sub) \<Rightarrow>
          (case Subscriber_process Z S h socket (sub, sys_world s) of
             ((sub', w), x) \<Rightarrow> (set_obj r (C_subscriber sub') w s, x))
      | Some (C_server srv) \<Rightarrow>
          (case Server_process Z h (srv, sys_world s) of
             ((srv', w), x) \<Rightarrow> (set_obj r (C_server srv') w s, x))
      | Some (C_client cl) \<Rightarrow>
          (case Client_process Z h socket (cl, sys_world s) of
             ((cl', w), x) \<Rightarrow> (set_obj r (C_client cl') w s, x))
      | Some (C_monitor mon f) \<Rightarrow>
          (case Monitor_process Z S h f socket (mon, sys_world s) of
             ((mon', w), x) \<Rightarrow> (set_obj r (C_monitor mon' f) w s, x))
      | Some (C_broker sn target) \<Rightarrow>
          (case Broker_process Z (broker_addConnection Z S h target) socket (s, sys_world s) of
             ((s', w), x) \<Rightarrow> (s'\<lparr>sys_world := w\<rparr>, x))
      | Some (C_http srv) \<Rightarrow>
          (case Http_process Z real srv (sys_heap s, sys_world s) of
             ((heap, w), x) \<Rightarrow> (s\<lparr>sys_heap := heap, sys_world := w\<rparr>, x)))"

definition system_members ::
  "'e zmq \<Rightarrow> 'e servus \<Rightarrow> host \<Rightarrow> 'r printf \<Rightarrow> 'e system members" where
  "system_members Z S h real =
     \<lparr>mb_update = Receiver_update Z S h,
      mb_addSockets = (\<lambda>r s entries. case sys_objs s r of None \<Rightarrow> entries
                         | Some c \<Rightarrow> component_addSockets c entries),
      mb_process = Receiver_process Z S h real\<rparr>"

definition system_sockets :: "'e system \<Rightarrow> nat \<Rightarrow> sock list" where
  "system_sockets s r = (case sys_objs s r of None \<Rightarrow> [] | Some c \<Rightarrow> component_sockets c)"

lemma system_supplies: "supplies (system_members Z S h real) shared s (system_sockets s)"
  by (simp add: supplies_def system_members_def system_sockets_def component.appends
      split: option.splits)

text \<open>C23: in a group of such receivers, every socket that is polled is dispatched to the
  receiver that listed it, in the order of the poll list, whatever the receivers do in
  between.\<close>

theorem system_dispatch:
  assumes "shared \<noteq> []"
    and "gather (system_members Z S h real) shared s [] [] = (sockets, intervals)"
    and "length revents = length sockets"
  shows "dispatch (system_members Z S h real) shared 0 (hd intervals) (tl intervals)
      (zip sockets revents) haveData s2 =
    serve (system_members Z S h real) (map (\<lambda>((r, socket), pollin). (r, socket, pollin))
      (zip (concat (map (\<lambda>r. map (Pair r) (system_sockets s r)) shared)) revents)) haveData s2"
  by (rule dispatch_serve [OF assms(1) system_supplies assms(2,3)])

theorem system_dispatch_witness:
  "\<exists>s :: net system. dispatch (system_members sample_zmq sample_servus sample_host sample_printf) [0] 0 1 []
      [(5, False)] False s = (s, Inr False) \<and> system_sockets s 0 = [5]"
proof -
  let ?s = "\<lparr>sys_objs = [0 \<mapsto> C_monitor \<lparr>mon_xpub = False, mon_socket = 5\<rparr> (\<lambda>e. (e, Inr ()))],
    sys_heap = Map.empty, sys_world = sample_world []\<rparr> :: net system"
  let ?M = "system_members sample_zmq sample_servus sample_host sample_printf"
  have o: "system_sockets ?s 0 = [5]" by (simp add: system_sockets_def component_sockets_def)
  have g: "gather ?M [0] ?s [] [] = ([5], [1])"
    by (simp add: system_members_def component_addSockets_def Monitor_addSockets_def Let_def)
  from system_dispatch [OF _ g, of "[False]" False ?s] o show ?thesis
    by (intro exI [of _ ?s]) simp
qed

end
