(* ===== verification/Json_Reader.thy ===== *)
theory Json_Reader
  imports Json_Writer
begin

text \<open>
  \<^verbatim>\<open>Json::Reader\<close>: the parser of JSON documents, with its optional comments, its error messages
  and its recovery from errors.

  A location is a pointer into the document: it is modelled by what is left of the document from
  there to its end, so that \<^verbatim>\<open>current_ == end_\<close> is the empty string. The values on the stack
  \<^verbatim>\<open>nodes_\<close> are pointers into the value that is built: a node is the path from the root. How a real
  is read is a parameter. The offsets a value keeps of its text are not modelled.
\<close>

unbundle bit_operations_syntax

section \<open>Nodes of a value\<close>

datatype step = Member string | Element "32 word"

type_synonym node = "step list"

text \<open>An operation on \<^verbatim>\<open>value[index]\<close>.\<close>

definition json_element :: "32 word \<Rightarrow> ('r json \<Rightarrow> exn + 'r json) \<Rightarrow> 'r json \<Rightarrow> exn + 'r json" where
  "json_element i f v =
     (case json_index i v of
        Inl e \<Rightarrow> Inl e
      | Inr v1 \<Rightarrow>
          (case j_data v1 of
             J_array es \<Rightarrow>
               (case f (the (map_of es i)) of
                  Inl e \<Rightarrow> Inl e
                | Inr x \<Rightarrow> Inr (Json (J_array (smap_put (<) i x es)) (j_comments v1)))
           | _ \<Rightarrow> Inr v1))"

fun at_node :: "node \<Rightarrow> ('r json \<Rightarrow> exn + 'r json) \<Rightarrow> 'r json \<Rightarrow> exn + 'r json" where
  "at_node [] f v = f v"
| "at_node (Member k # p) f v = json_member k (at_node p f) v"
| "at_node (Element i # p) f v = json_element i (at_node p f) v"

section \<open>Locations and tokens\<close>

type_synonym location = string

text \<open>The text between two locations.\<close>

definition span :: "location \<Rightarrow> location \<Rightarrow> string" where
  "span from until = take (length from - length until) from"

datatype token_type =
    tokenEndOfStream | tokenObjectBegin | tokenObjectEnd | tokenArrayBegin | tokenArrayEnd
  | tokenString | tokenNumber | tokenTrue | tokenFalse | tokenNull | tokenArraySeparator
  | tokenMemberSeparator | tokenComment | tokenError

record token =
  tk_type :: token_type
  tk_start :: location
  tk_end :: location

record error_info =
  ei_token :: token
  ei_message :: string
  ei_extra :: "location option"

record features =
  allowComments :: bool
  strictRoot :: bool
  allowDroppedNullPlaceholders :: bool
  allowNumericKeys :: bool

definition Features_all :: features where
  "Features_all = \<lparr>allowComments = True, strictRoot = False,
     allowDroppedNullPlaceholders = False, allowNumericKeys = False\<rparr>"

definition strictMode :: features where
  "strictMode = \<lparr>allowComments = False, strictRoot = True,
     allowDroppedNullPlaceholders = False, allowNumericKeys = False\<rparr>"

record 'r reader =
  rd_features :: features
  rd_errors :: "error_info list"
  rd_document :: location
  rd_current :: location
  rd_lastValueEnd :: "location option"
  rd_lastValue :: node
  rd_commentsBefore :: string
  rd_collectComments :: bool
  rd_nodes :: "node list"
  rd_root :: "'r json"

definition stackLimit :: nat where
  "stackLimit = 1000"

text \<open>The operations on values that the reader uses do not throw where it uses them.\<close>

definition update_node :: "node \<Rightarrow> ('r json \<Rightarrow> exn + 'r json) \<Rightarrow> 'r reader \<Rightarrow> 'r reader" where
  "update_node p f rd =
     (case at_node p f (rd_root rd) of Inl _ \<Rightarrow> rd | Inr v \<Rightarrow> rd\<lparr>rd_root := v\<rparr>)"

text \<open>\<^verbatim>\<open>currentValue()\<close>, with \<^verbatim>\<open>swapPayload\<close> of a new value: the comments stay.\<close>

definition currentValue :: "'r reader \<Rightarrow> node" where
  "currentValue rd = hd (rd_nodes rd)"

definition swapPayload :: "'r json_data \<Rightarrow> 'r reader \<Rightarrow> 'r reader" where
  "swapPayload d rd = update_node (currentValue rd) (\<lambda>v. Inr (Json d (j_comments v))) rd"

text \<open>\<^verbatim>\<open>nodes_.push(&currentValue()[key])\<close>: the element is created when it is missing.\<close>

definition push_node :: "step \<Rightarrow> 'r reader \<Rightarrow> 'r reader" where
  "push_node s rd =
     (let p = currentValue rd @ [s]
      in (update_node p Inr rd)\<lparr>rd_nodes := p # rd_nodes rd\<rparr>)"

definition pop_node :: "'r reader \<Rightarrow> 'r reader" where
  "pop_node rd = rd\<lparr>rd_nodes := tl (rd_nodes rd)\<rparr>"

section \<open>Characters\<close>

fun getNextChar :: "location \<Rightarrow> char \<times> location" where
  "getNextChar [] = (CHR 0x00, [])"
| "getNextChar (c # l) = (c, l)"

definition json_space :: "char \<Rightarrow> bool" where
  "json_space c \<longleftrightarrow> c \<in> {CHR 0x20, CHR 0x09, CHR 0x0D, CHR 0x0A}"

definition skipSpaces :: "location \<Rightarrow> location" where
  "skipSpaces l = dropWhile json_space l"

definition match_text :: "string \<Rightarrow> location \<Rightarrow> bool \<times> location" where
  "match_text pattern l =
     (if take (length pattern) l = pattern then (True, drop (length pattern) l) else (False, l))"

fun c_comment_body :: "location \<Rightarrow> location" where
  "c_comment_body (c # d # l) =
     (if c = CHR ''*'' \<and> d = CHR ''/'' then d # l else c_comment_body (d # l))"
| "c_comment_body l = l"

definition readCStyleComment :: "location \<Rightarrow> bool \<times> location" where
  "readCStyleComment l = (let (c, l1) = getNextChar (c_comment_body l) in (c = CHR ''/'', l1))"

fun readCppStyleComment :: "location \<Rightarrow> location" where
  "readCppStyleComment [] = []"
| "readCppStyleComment (c # l) =
     (if c = CHR 0x0A then l
      else if c = CHR 0x0D then (case l of d # l1 \<Rightarrow> (if d = CHR 0x0A then l1 else l) | [] \<Rightarrow> l)
      else readCppStyleComment l)"

definition skip_digits :: "location \<Rightarrow> location" where
  "skip_digits l = dropWhile is_digit l"

definition readNumber :: "location \<Rightarrow> location" where
  "readNumber l =
     (let l1 = skip_digits l;
          l2 = (case l1 of c # m \<Rightarrow> (if c = CHR ''.'' then skip_digits m else l1) | [] \<Rightarrow> l1)
      in case l2 of
           [] \<Rightarrow> l2
         | c # m \<Rightarrow>
             if c = CHR ''e'' \<or> c = CHR ''E''
             then skip_digits
                    (case m of
                       d # m1 \<Rightarrow> (if d = CHR ''+'' \<or> d = CHR ''-'' then m1 else m)
                     | [] \<Rightarrow> m)
             else l2)"

declare readCppStyleComment.simps(2) [simp del]

fun readString :: "location \<Rightarrow> bool \<times> location" where
  "readString [] = (False, [])"
| "readString (c # l) =
     (if c = CHR 0x5C then (case l of [] \<Rightarrow> (False, []) | _ # l1 \<Rightarrow> readString l1)
      else if c = CHR 0x22 then (True, l)
      else readString l)"

declare readString.simps(2) [simp del]

section \<open>Comments\<close>

definition containsNewLine :: "location \<Rightarrow> location \<Rightarrow> bool" where
  "containsNewLine from until = list_ex (\<lambda>c. c = CHR 0x0A \<or> c = CHR 0x0D) (span from until)"

fun normalizeEOL :: "string \<Rightarrow> string" where
  "normalizeEOL [] = []"
| "normalizeEOL (c # s) =
     (if c = CHR 0x0D
      then CHR 0x0A # (case s of d # t \<Rightarrow> (if d = CHR 0x0A then normalizeEOL t else normalizeEOL s)
                       | [] \<Rightarrow> [])
      else c # normalizeEOL s)"

definition addComment :: "location \<Rightarrow> location \<Rightarrow> placement \<Rightarrow> 'r reader \<Rightarrow> 'r reader" where
  "addComment from until place rd =
     (let normalized = normalizeEOL (span from until)
      in if place = commentAfterOnSameLine
         then update_node (rd_lastValue rd) (setComment normalized place) rd
         else rd\<lparr>rd_commentsBefore := rd_commentsBefore rd @ normalized\<rparr>)"

text \<open>The slash has been read. What follows it decides which kind of comment it is.\<close>

definition comment_end :: "location \<Rightarrow> char \<times> bool \<times> location" where
  "comment_end l =
     (let (c, l1) = getNextChar l
      in (c, if c = CHR ''*'' then readCStyleComment l1
             else if c = CHR ''/'' then (True, readCppStyleComment l1)
             else (False, l1)))"

definition readComment :: "'r reader \<Rightarrow> bool \<times> 'r reader" where
  "readComment rd =
     (let commentBegin = CHR ''/'' # rd_current rd;
          (c, successful, l) = comment_end (rd_current rd);
          rd1 = rd\<lparr>rd_current := l\<rparr>;
          place =
            (if rd_lastValueEnd rd \<noteq> None \<and> \<not> containsNewLine (the (rd_lastValueEnd rd)) commentBegin
                \<and> (c \<noteq> CHR ''*'' \<or> \<not> containsNewLine commentBegin l)
             then commentAfterOnSameLine else commentBefore)
      in if \<not> successful then (False, rd1)
         else if rd_collectComments rd then (True, addComment commentBegin l place rd1)
         else (True, rd1))"

section \<open>Tokens\<close>

definition scan_token :: "char \<Rightarrow> location \<Rightarrow> token_type \<times> bool \<times> location" where
  "scan_token c l =
     (if c = CHR ''{'' then (tokenObjectBegin, True, l)
      else if c = CHR ''}'' then (tokenObjectEnd, True, l)
      else if c = CHR ''['' then (tokenArrayBegin, True, l)
      else if c = CHR '']'' then (tokenArrayEnd, True, l)
      else if c = CHR 0x22 then (tokenString, readString l)
      else if is_digit c \<or> c = CHR ''-'' then (tokenNumber, True, readNumber l)
      else if c = CHR ''t'' then (tokenTrue, match_text ''rue'' l)
      else if c = CHR ''f'' then (tokenFalse, match_text ''alse'' l)
      else if c = CHR ''n'' then (tokenNull, match_text ''ull'' l)
      else if c = CHR '','' then (tokenArraySeparator, True, l)
      else if c = CHR '':'' then (tokenMemberSeparator, True, l)
      else if c = CHR 0x00 then (tokenEndOfStream, True, l)
      else (tokenError, False, l))"

definition readToken :: "'r reader \<Rightarrow> token \<times> 'r reader" where
  "readToken rd =
     (let start = skipSpaces (rd_current rd);
          (c, l) = getNextChar start;
          (ty, ok, rd1) =
            (if c = CHR ''/''
             then (case readComment (rd\<lparr>rd_current := l\<rparr>) of (ok, rd1) \<Rightarrow> (tokenComment, ok, rd1))
             else (case scan_token c l of (ty, ok, l1) \<Rightarrow> (ty, ok, rd\<lparr>rd_current := l1\<rparr>)))
      in (\<lparr>tk_type = (if ok then ty else tokenError), tk_start = start, tk_end = rd_current rd1\<rparr>, rd1))"


text \<open>Reading a token never goes back, and goes on unless the document has ended.\<close>

lemma length_dropWhile: "length (dropWhile P xs) \<le> length xs"
  by (rule length_dropWhile_le)

lemma match_text_length: "length (snd (match_text p l)) \<le> length l"
  by (simp add: match_text_def)

lemma c_comment_body_length: "length (c_comment_body l) \<le> length l"
  by (induction l rule: c_comment_body.induct) auto

lemma getNextChar_length: "length (snd (getNextChar l)) \<le> length l"
  by (cases l) simp_all

lemma readCStyleComment_length: "length (snd (readCStyleComment l)) \<le> length l"
  using c_comment_body_length [of l] getNextChar_length [of "c_comment_body l"]
  by (auto simp: readCStyleComment_def split: prod.splits)

lemma readCppStyleComment_length: "length (readCppStyleComment l) \<le> length l"
proof (induction l rule: readCppStyleComment.induct)
  case (2 c l)
  have "length (case l of d # l1 \<Rightarrow> (if d = CHR 0x0A then l1 else l) | [] \<Rightarrow> l) \<le> Suc (length l)"
    by (cases l) simp_all
  with 2 show ?case unfolding readCppStyleComment.simps(2) by (simp add: le_SucI)
qed simp

lemma readNumber_length: "length (readNumber l) \<le> length l"
proof -
  have d: "length (skip_digits l) \<le> length l" for l by (simp add: skip_digits_def length_dropWhile_le)
  define l2 where "l2 = (case skip_digits l of c # m \<Rightarrow>
      (if c = CHR ''.'' then skip_digits m else skip_digits l) | [] \<Rightarrow> skip_digits l)"
  have l2: "length l2 \<le> length l"
    using d [of l] d [of "tl (skip_digits l)"] by (auto simp: l2_def split: list.splits)
  have "length (readNumber l) \<le> length l2"
    using d [of "tl l2"] d [of "tl (tl l2)"]
    by (auto simp: readNumber_def l2_def [symmetric] Let_def split: list.splits)
  with l2 show ?thesis by simp
qed

lemma readString_length: "length (snd (readString l)) \<le> length l"
proof (induction l rule: readString.induct)
  case (2 c l)
  then show ?case by (subst readString.simps) (simp split: list.split add: le_SucI)
qed simp

lemma comment_end_length: "comment_end l = (c, ok, l') \<Longrightarrow> length l' \<le> length l"
  using getNextChar_length [of l] readCStyleComment_length [of "snd (getNextChar l)"]
    readCppStyleComment_length [of "snd (getNextChar l)"]
  by (auto simp: comment_end_def Let_def split: prod.splits if_splits)

lemma scan_token_length: "scan_token c l = (ty, ok, l') \<Longrightarrow> length l' \<le> length l"
  using readString_length [of l] readNumber_length [of l] match_text_length [of "''rue''" l]
    match_text_length [of "''alse''" l] match_text_length [of "''ull''" l]
  by (auto simp: scan_token_def split: if_splits)

lemma update_node_current [simp]:
  "rd_current (update_node p f rd) = rd_current rd" "rd_nodes (update_node p f rd) = rd_nodes rd"
  "rd_errors (update_node p f rd) = rd_errors rd" "rd_features (update_node p f rd) = rd_features rd"
  by (simp_all add: update_node_def split: sum.splits)

lemma readComment_length:
  assumes "readComment rd = (ok, rd')"
  shows "length (rd_current rd') \<le> length (rd_current rd)"
proof -
  obtain c k l where c: "comment_end (rd_current rd) = (c, k, l)" by (metis prod.exhaust)
  from comment_end_length [OF c] assms show ?thesis
    by (auto simp: readComment_def c Let_def addComment_def split: if_splits)
qed

lemma readToken_length:
  assumes "readToken rd = (t, rd')"
  shows "length (rd_current rd') \<le> length (rd_current rd) \<and>
    (tk_type t = tokenEndOfStream \<or> length (rd_current rd') < length (rd_current rd))"
proof -
  let ?s = "skipSpaces (rd_current rd)"
  have s: "length ?s \<le> length (rd_current rd)" by (simp add: skipSpaces_def length_dropWhile_le)
  show ?thesis
  proof (cases ?s)
    case Nil
    then show ?thesis
      using assms by (auto simp: readToken_def scan_token_def is_digit_def)
  next
    case (Cons c l)
    obtain ty ok l1 where sc: "scan_token c l = (ty, ok, l1)" by (metis prod.exhaust)
    obtain k rd1 where co: "readComment (rd\<lparr>rd_current := l\<rparr>) = (k, rd1)" by (metis prod.exhaust)
    have "length (rd_current rd') \<le> length l"
      using assms scan_token_length [OF sc] readComment_length [OF co]
      by (cases "c = CHR ''/''") (auto simp: readToken_def Cons sc co Let_def)
    with Cons s show ?thesis by simp
  qed
qed

text \<open>The loops that skip comments.\<close>

function skip_comments :: "'r reader \<Rightarrow> token \<times> 'r reader" where
  "skip_comments rd =
     (case readToken rd of
        (t, rd1) \<Rightarrow> if tk_type t = tokenComment then skip_comments rd1 else (t, rd1))"
  by auto
termination
  by (relation "measure (\<lambda>rd. length (rd_current rd))") (auto dest!: readToken_length [OF sym])

declare skip_comments.simps [simp del]

definition skipCommentTokens :: "'r reader \<Rightarrow> token \<times> 'r reader" where
  "skipCommentTokens rd =
     (if allowComments (rd_features rd) then skip_comments rd else readToken rd)"

section \<open>Errors\<close>

definition quoted :: "string \<Rightarrow> string" where
  "quoted s = CHR 0x27 # s @ [CHR 0x27]"

definition addError :: "string \<Rightarrow> token \<Rightarrow> location option \<Rightarrow> 'r reader \<Rightarrow> 'r reader" where
  "addError msg t extra rd =
     rd\<lparr>rd_errors := rd_errors rd @ [\<lparr>ei_token = t, ei_message = msg, ei_extra = extra\<rparr>]\<rparr>"

function skip_until :: "token_type \<Rightarrow> 'r reader \<Rightarrow> 'r reader" where
  "skip_until ty rd =
     (case readToken rd of
        (t, rd1) \<Rightarrow>
          if tk_type t = ty \<or> tk_type t = tokenEndOfStream then rd1 else skip_until ty rd1)"
  by auto
termination
  by (relation "measure (\<lambda>(_, rd). length (rd_current rd))") (auto dest!: readToken_length [OF sym])

declare skip_until.simps [simp del]

definition recoverFromError :: "token_type \<Rightarrow> 'r reader \<Rightarrow> 'r reader" where
  "recoverFromError ty rd =
     (let rd1 = skip_until ty rd
      in rd1\<lparr>rd_errors := take (length (rd_errors rd)) (rd_errors rd1)\<rparr>)"

definition addErrorAndRecover :: "string \<Rightarrow> token \<Rightarrow> token_type \<Rightarrow> 'r reader \<Rightarrow> 'r reader" where
  "addErrorAndRecover msg t ty rd = recoverFromError ty (addError msg t None rd)"

section \<open>Numbers\<close>

text \<open>\<open>None\<close>: the number does not fit and is read as a real.\<close>

fun decode_digits :: "64 word \<Rightarrow> 64 word \<Rightarrow> string \<Rightarrow> 64 word option" where
  "decode_digits maxIntegerValue v [] = Some v"
| "decode_digits maxIntegerValue v (c # cs) =
     (if \<not> is_digit c then None
      else
        let digit = word_of_nat (digit_value c); threshold = maxIntegerValue div 10
        in if threshold \<le> v \<and> (threshold < v \<or> cs \<noteq> [] \<or> maxIntegerValue mod 10 < digit)
           then None
           else decode_digits maxIntegerValue (v * 10 + digit) cs)"

definition decodeDouble ::
  "(string \<Rightarrow> 'r option) \<Rightarrow> token \<Rightarrow> 'r reader \<Rightarrow> 'r json_data option \<times> 'r reader" where
  "decodeDouble rdbl t rd =
     (let buffer = span (tk_start t) (tk_end t)
      in case rdbl buffer of
           None \<Rightarrow> (None, addError (quoted buffer @ '' is not a number.'') t None rd)
         | Some r \<Rightarrow> (Some (J_real r), rd))"

definition decodeNumber ::
  "(string \<Rightarrow> 'r option) \<Rightarrow> token \<Rightarrow> 'r reader \<Rightarrow> 'r json_data option \<times> 'r reader" where
  "decodeNumber rdbl t rd =
     (let chars = span (tk_start t) (tk_end t);
          isNegative = (chars \<noteq> [] \<and> hd chars = CHR ''-'');
          maxIntegerValue = (if isNegative then push_bit 63 1 else - 1)
      in case decode_digits maxIntegerValue 0 (if isNegative then tl chars else chars) of
           None \<Rightarrow> decodeDouble rdbl t rd
         | Some v \<Rightarrow>
             (Some (if isNegative \<and> v = maxIntegerValue then J_int minLargestInt
                    else if isNegative then J_int (- v)
                    else if v \<le> 0x7FFFFFFF then J_int v
                    else J_uint v), rd))"

section \<open>Strings\<close>

definition hex_value :: "char \<Rightarrow> nat option" where
  "hex_value c =
     (let n = of_char c :: nat
      in if 48 \<le> n \<and> n \<le> 57 then Some (n - 48)
         else if 97 \<le> n \<and> n \<le> 102 then Some (n - 97 + 10)
         else if 65 \<le> n \<and> n \<le> 70 then Some (n - 65 + 10)
         else None)"

text \<open>A failure is a message and what is left of the text of the token.\<close>

fun decode_hex :: "nat \<Rightarrow> 32 word \<Rightarrow> string \<Rightarrow> (string \<times> string) + 32 word \<times> string" where
  "decode_hex 0 unicode cs = Inr (unicode, cs)"
| "decode_hex (Suc n) unicode [] = Inr (unicode, [])"
| "decode_hex (Suc n) unicode (c # cs) =
     (case hex_value c of
        None \<Rightarrow> Inl (''Bad unicode escape sequence in string: hexadecimal digit expected.'', cs)
      | Some d \<Rightarrow> decode_hex n (unicode * 16 + word_of_nat d) cs)"

definition decodeUnicodeEscapeSequence ::
  "string \<Rightarrow> (string \<times> string) + 32 word \<times> string" where
  "decodeUnicodeEscapeSequence cs =
     (if length cs < 4
      then Inl (''Bad unicode escape sequence in string: four digits expected.'', cs)
      else decode_hex 4 0 cs)"

definition decodeUnicodeCodePoint ::
  "string \<Rightarrow> (string \<times> string) + 32 word \<times> string" where
  "decodeUnicodeCodePoint cs =
     (case decodeUnicodeEscapeSequence cs of
        Inl e \<Rightarrow> Inl e
      | Inr (unicode, cs1) \<Rightarrow>
          if 0xD800 \<le> unicode \<and> unicode \<le> 0xDBFF
          then
            (if length cs1 < 6
             then Inl (''additional six characters expected to parse unicode surrogate pair.'', cs1)
             else if cs1 ! 0 = CHR 0x5C \<and> cs1 ! 1 = CHR ''u''
             then (case decodeUnicodeEscapeSequence (drop 2 cs1) of
                     Inl e \<Rightarrow> Inl e
                   | Inr (surrogatePair, cs2) \<Rightarrow>
                       Inr (0x10000 + push_bit 10 (unicode AND 0x3FF) + (surrogatePair AND 0x3FF), cs2))
             else Inl (''expecting another '' @ CHR 0x5C # ''u token to begin the second half of a unicode surrogate pair'',
                       drop (if cs1 ! 0 = CHR 0x5C then 2 else 1) cs1))
          else Inr (unicode, cs1))"

definition byte_char :: "32 word \<Rightarrow> char" where
  "byte_char w = char_of (unat w)"

definition codePointToUTF8 :: "32 word \<Rightarrow> string" where
  "codePointToUTF8 cp =
     (if cp \<le> 0x7F then [byte_char cp]
      else if cp \<le> 0x7FF
      then [byte_char (0xC0 OR (0x1F AND drop_bit 6 cp)), byte_char (0x80 OR (0x3F AND cp))]
      else if cp \<le> 0xFFFF
      then [byte_char (0xE0 OR (0xF AND drop_bit 12 cp)),
            byte_char (0x80 OR (0x3F AND drop_bit 6 cp)), byte_char (0x80 OR (0x3F AND cp))]
      else if cp \<le> 0x10FFFF
      then [byte_char (0xF0 OR (0x7 AND drop_bit 18 cp)),
            byte_char (0x80 OR (0x3F AND drop_bit 12 cp)),
            byte_char (0x80 OR (0x3F AND drop_bit 6 cp)), byte_char (0x80 OR (0x3F AND cp))]
      else [])"

definition escaped_char :: "char \<Rightarrow> char option" where
  "escaped_char e =
     (if e = CHR 0x22 \<or> e = CHR ''/'' \<or> e = CHR 0x5C then Some e
      else if e = CHR ''b'' then Some (CHR 0x08)
      else if e = CHR ''f'' then Some (CHR 0x0C)
      else if e = CHR ''n'' then Some (CHR 0x0A)
      else if e = CHR ''r'' then Some (CHR 0x0D)
      else if e = CHR ''t'' then Some (CHR 0x09)
      else None)"

lemma decode_hex_length: "decode_hex n u cs = Inr (v, cs') \<Longrightarrow> length cs' \<le> length cs"
  by (induction n u cs rule: decode_hex.induct) (force split: option.splits)+

lemma decodeUnicodeEscape_length:
  "decodeUnicodeEscapeSequence cs = Inr (v, cs') \<Longrightarrow> length cs' \<le> length cs"
  by (auto simp: decodeUnicodeEscapeSequence_def split: if_splits dest: decode_hex_length)

lemma decodeUnicode_length:
  "decodeUnicodeCodePoint cs = Inr (v, cs') \<Longrightarrow> length cs' \<le> length cs"
  by (force simp: decodeUnicodeCodePoint_def split: sum.splits if_splits prod.splits
      dest!: decodeUnicodeEscape_length)

function decode_string :: "string \<Rightarrow> string \<Rightarrow> (string \<times> string) + string" where
  "decode_string [] decoded = Inr decoded"
| "decode_string (c # cs) decoded =
     (if c = CHR 0x22 then Inr decoded
      else if c = CHR 0x5C
      then
        (case cs of
           [] \<Rightarrow> Inl (''Empty escape sequence in string'', [])
         | e # es \<Rightarrow>
             if e = CHR ''u''
             then (case decodeUnicodeCodePoint es of
                     Inl err \<Rightarrow> Inl err
                   | Inr (unicode, es') \<Rightarrow> decode_string es' (decoded @ codePointToUTF8 unicode))
             else (case escaped_char e of
                     Some d \<Rightarrow> decode_string es (decoded @ [d])
                   | None \<Rightarrow> Inl (''Bad escape sequence in string'', es)))
      else decode_string cs (decoded @ [c]))"
  by pat_completeness auto
termination
  by (relation "measure (\<lambda>(cs, _). length cs)") (auto dest: decodeUnicode_length)

declare decode_string.simps(2) [simp del]

text \<open>The quotes are not decoded; where it fails is a location in the document.\<close>

definition decodeString :: "token \<Rightarrow> 'r reader \<Rightarrow> string option \<times> 'r reader" where
  "decodeString t rd =
     (let text = span (tk_start t) (tk_end t)
      in case decode_string (butlast (tl text)) [] of
           Inr s \<Rightarrow> (Some s, rd)
         | Inl (msg, rest) \<Rightarrow> (None, addError msg t (Some (rest @ last text # tk_end t)) rd))"


section \<open>Values\<close>

type_synonym ('r, 'a) reading = "('r reader, 'a) outcome option"

text \<open>The comments that were read belong before the value that follows.\<close>

definition attach_comments :: "'r reader \<Rightarrow> 'r reader" where
  "attach_comments rd =
     (if rd_collectComments rd \<and> rd_commentsBefore rd \<noteq> []
      then (update_node (currentValue rd) (setComment (rd_commentsBefore rd) commentBefore) rd)
             \<lparr>rd_commentsBefore := []\<rparr>
      else rd)"

definition value_read :: "'r reader \<Rightarrow> 'r reader" where
  "value_read rd =
     (if rd_collectComments rd
      then rd\<lparr>rd_lastValueEnd := Some (rd_current rd), rd_lastValue := currentValue rd\<rparr>
      else rd)"

definition finish_value :: "('r reader, bool) outcome \<Rightarrow> ('r reader, bool) outcome" where
  "finish_value r = and_then r (\<lambda>ok rd. (value_read rd, Inr ok))"

definition set_decoded :: "('d \<Rightarrow> 'r json_data) \<Rightarrow> 'd option \<times> 'r reader \<Rightarrow> ('r reader, bool) outcome" where
  "set_decoded mk x =
     (case x of (None, rd) \<Rightarrow> (rd, Inr False) | (Some d, rd) \<Rightarrow> (swapPayload (mk d) rd, Inr True))"

text \<open>The values that are one token; arrays and objects are read by the functions below.\<close>

definition read_simple :: "(string \<Rightarrow> 'r option) \<Rightarrow> token \<Rightarrow> 'r reader \<Rightarrow> ('r reader, bool) outcome" where
  "read_simple rdbl t rd =
     (case tk_type t of
        tokenNumber \<Rightarrow> finish_value (set_decoded id (decodeNumber rdbl t rd))
      | tokenString \<Rightarrow> finish_value (set_decoded J_string (decodeString t rd))
      | tokenTrue \<Rightarrow> finish_value (swapPayload (J_bool True) rd, Inr True)
      | tokenFalse \<Rightarrow> finish_value (swapPayload (J_bool False) rd, Inr True)
      | tokenNull \<Rightarrow> finish_value (swapPayload J_null rd, Inr True)
      | ty \<Rightarrow>
          if allowDroppedNullPlaceholders (rd_features rd)
            \<and> ty \<in> {tokenArraySeparator, tokenObjectEnd, tokenArrayEnd}
          then finish_value (swapPayload J_null (rd\<lparr>rd_current := tk_start t\<rparr>), Inr True)
          else (addError ''Syntax error: value, object or array expected.'' t None rd, Inr False))"

text \<open>The name of a member. A number is no C string: it makes \<^verbatim>\<open>asCString\<close> throw.\<close>

datatype member_name = Name string | No_name | Bad_name

definition read_name ::
  "(string \<Rightarrow> 'r option) \<Rightarrow> token \<Rightarrow> 'r reader \<Rightarrow> ('r reader, member_name) outcome" where
  "read_name rdbl t rd =
     (if tk_type t = tokenString
      then (case decodeString t rd of
              (None, rd1) \<Rightarrow> (rd1, Inr Bad_name)
            | (Some s, rd1) \<Rightarrow> (rd1, Inr (Name s)))
      else if tk_type t = tokenNumber \<and> allowNumericKeys (rd_features rd)
      then (case decodeNumber rdbl t rd of
              (None, rd1) \<Rightarrow> (rd1, Inr Bad_name)
            | (Some _, rd1) \<Rightarrow>
                (rd1, Inl (Logic_error ''in Json::Value::asCString(): requires stringValue'')))
      else (rd, Inr No_name))"

text \<open>What follows a value in an object and in an array; \<open>again\<close> is the next round of the loop.\<close>

definition after_member ::
  "('r reader \<Rightarrow> ('r, bool) reading) \<Rightarrow> ('r, bool) reading \<Rightarrow> ('r, bool) reading" where
  "after_member again r =
     (case r of
        None \<Rightarrow> None
      | Some (rd, Inl e) \<Rightarrow> Some (rd, Inl e)
      | Some (rd, Inr ok) \<Rightarrow>
          if \<not> ok then Some (recoverFromError tokenObjectEnd (pop_node rd), Inr False)
          else
            let (comma, rd1) = readToken (pop_node rd)
            in if tk_type comma \<notin> {tokenObjectEnd, tokenArraySeparator, tokenComment}
               then Some (addErrorAndRecover (''Missing '' @ quoted '','' @ '' or '' @ quoted ''}'' @ '' in object declaration'')
                            comma tokenObjectEnd rd1, Inr False)
               else
                 let (comma1, rd2) =
                       (if tk_type comma = tokenComment then skip_comments rd1 else (comma, rd1))
                 in if tk_type comma1 = tokenObjectEnd then Some (rd2, Inr True) else again rd2)"

definition after_element ::
  "('r reader \<Rightarrow> ('r, bool) reading) \<Rightarrow> ('r, bool) reading \<Rightarrow> ('r, bool) reading" where
  "after_element again r =
     (case r of
        None \<Rightarrow> None
      | Some (rd, Inl e) \<Rightarrow> Some (rd, Inl e)
      | Some (rd, Inr ok) \<Rightarrow>
          if \<not> ok then Some (recoverFromError tokenArrayEnd (pop_node rd), Inr False)
          else
            let (t, rd1) = skip_comments (pop_node rd)
            in if tk_type t = tokenArrayEnd then Some (rd1, Inr True)
               else if tk_type t \<noteq> tokenArraySeparator
               then Some (addErrorAndRecover (''Missing '' @ quoted '','' @ '' or '' @ quoted '']'' @ '' in array declaration'')
                            t tokenArrayEnd rd1, Inr False)
               else again rd1)"

text \<open>
  \<^verbatim>\<open>readObject\<close> and \<^verbatim>\<open>readArray\<close> after their first token. The first argument of the functions
  bounds the depth of their calls; \<open>None\<close> when it is not enough.
\<close>

fun
  readValue :: "(string \<Rightarrow> 'r option) \<Rightarrow> nat \<Rightarrow> 'r reader \<Rightarrow> ('r, bool) reading" and
  read_members :: "(string \<Rightarrow> 'r option) \<Rightarrow> nat \<Rightarrow> string \<Rightarrow> 'r reader \<Rightarrow> ('r, bool) reading" and
  read_elements :: "(string \<Rightarrow> 'r option) \<Rightarrow> nat \<Rightarrow> 32 word \<Rightarrow> 'r reader \<Rightarrow> ('r, bool) reading"
where
  "readValue rdbl 0 rd = None"
| "readValue rdbl (Suc n) rd =
     (if stackLimit < length (rd_nodes rd)
      then Some (rd, Inl (Runtime_error ''Exceeded stackLimit in readValue().''))
      else
        let (t, rd1) = skipCommentTokens rd; rd2 = attach_comments rd1
        in if tk_type t = tokenObjectBegin
           then map_option finish_value (read_members rdbl n [] (swapPayload (J_object []) rd2))
           else if tk_type t = tokenArrayBegin
           then
             let rd3 = swapPayload (J_array []) rd2; l = skipSpaces (rd_current rd3);
                 rd4 = rd3\<lparr>rd_current := l\<rparr>
             in if l \<noteq> [] \<and> hd l = CHR '']''
                then Some (finish_value (snd (readToken rd4), Inr True))
                else map_option finish_value (read_elements rdbl n 0 rd4)
           else Some (read_simple rdbl t rd2))"
| "read_members rdbl 0 name rd = None"
| "read_members rdbl (Suc n) name rd =
     (let (t, rd1) = skip_comments rd
      in if tk_type t = tokenObjectEnd \<and> name = [] then Some (rd1, Inr True)
         else
           (case read_name rdbl t rd1 of
              (rd2, Inl e) \<Rightarrow> Some (rd2, Inl e)
            | (rd2, Inr Bad_name) \<Rightarrow> Some (recoverFromError tokenObjectEnd rd2, Inr False)
            | (rd2, Inr No_name) \<Rightarrow>
                Some (addErrorAndRecover (''Missing '' @ quoted ''}'' @ '' or object member name'') t tokenObjectEnd rd2, Inr False)
            | (rd2, Inr (Name name1)) \<Rightarrow>
                let (colon, rd3) = readToken rd2
                in if tk_type colon \<noteq> tokenMemberSeparator
                   then Some (addErrorAndRecover (''Missing '' @ quoted '':'' @ '' after object member name'') colon
                                tokenObjectEnd rd3, Inr False)
                   else
                     after_member (read_members rdbl n name1)
                       (readValue rdbl n (push_node (Member name1) rd3))))"
| "read_elements rdbl 0 i rd = None"
| "read_elements rdbl (Suc n) i rd =
     (if i = 0x7FFFFFFF then Some (rd, Inl (Undefined ''index overflow''))
      else
        after_element (read_elements rdbl n (i + 1)) (readValue rdbl n (push_node (Element i) rd)))"

section \<open>Documents\<close>

definition Reader_new :: "'r json \<Rightarrow> features \<Rightarrow> 'r reader" where
  "Reader_new root features =
     \<lparr>rd_features = features, rd_errors = [], rd_document = [], rd_current = [],
      rd_lastValueEnd = None, rd_lastValue = [], rd_commentsBefore = [],
      rd_collectComments = False, rd_nodes = [], rd_root = root\<rparr>"

definition start_reader :: "location \<Rightarrow> 'r json \<Rightarrow> bool \<Rightarrow> 'r reader \<Rightarrow> 'r reader" where
  "start_reader doc root collectComments rd =
     rd\<lparr>rd_errors := [], rd_document := doc, rd_current := doc, rd_lastValueEnd := None,
        rd_lastValue := [], rd_commentsBefore := [],
        rd_collectComments := collectComments \<and> allowComments (rd_features rd),
        rd_nodes := [[]], rd_root := root\<rparr>"

text \<open>A document of \<open>n\<close> characters needs no deeper calls than \<open>2 * n + 1\<close>.\<close>

definition reader_fuel :: "location \<Rightarrow> nat" where
  "reader_fuel doc = 2 * length doc + 1"

definition Reader_parse ::
  "(string \<Rightarrow> 'r option) \<Rightarrow> location \<Rightarrow> 'r json \<Rightarrow> bool \<Rightarrow> 'r reader \<Rightarrow> ('r, bool) reading" where
  "Reader_parse rdbl doc root collectComments rd =
     (case readValue rdbl (reader_fuel doc) (start_reader doc root collectComments rd) of
        None \<Rightarrow> None
      | Some (rd1, Inl e) \<Rightarrow> Some (rd1, Inl e)
      | Some (rd1, Inr successful) \<Rightarrow>
          let (t, rd2) = skipCommentTokens rd1;
              rd3 = (if rd_collectComments rd2 \<and> rd_commentsBefore rd2 \<noteq> []
                     then update_node [] (setComment (rd_commentsBefore rd2) commentAfter) rd2
                     else rd2)
          in if strictRoot (rd_features rd3) \<and> \<not> isArray (rd_root rd3) \<and> \<not> isObject (rd_root rd3)
             then Some (addError ''A valid JSON document must be either an array or an object value.''
                          \<lparr>tk_type = tokenError, tk_start = doc, tk_end = []\<rparr> None rd3, Inr False)
             else Some (rd3, Inr successful))"

text \<open>
  A document given as a string is copied up to its capacity: \<open>spare\<close> is what memory has after the
  end of the string. A document from a stream ends at the first byte \<^verbatim>\<open>(char)EOF\<close>.
\<close>

definition parse_string ::
  "(string \<Rightarrow> 'r option) \<Rightarrow> string \<Rightarrow> string \<Rightarrow> 'r json \<Rightarrow> bool \<Rightarrow> 'r reader \<Rightarrow> ('r, bool) reading" where
  "parse_string rdbl document spare root collectComments rd =
     Reader_parse rdbl (document @ spare) root collectComments rd"

definition parse_stream ::
  "(string \<Rightarrow> 'r option) \<Rightarrow> string \<Rightarrow> 'r json \<Rightarrow> bool \<Rightarrow> 'r reader \<Rightarrow> ('r, bool) reading" where
  "parse_stream rdbl input root collectComments rd =
     Reader_parse rdbl (takeWhile (\<lambda>c. c \<noteq> CHR 0xFF) input) root collectComments rd"

definition good :: "'r reader \<Rightarrow> bool" where
  "good rd \<longleftrightarrow> rd_errors rd = []"

section \<open>Error messages\<close>

function line_of :: "location \<Rightarrow> location \<Rightarrow> location \<Rightarrow> nat \<Rightarrow> nat \<times> location" where
  "line_of [] loc lastLineStart line = (line, lastLineStart)"
| "line_of (c # l) loc lastLineStart line =
     (if length (c # l) \<le> length loc then (line, lastLineStart)
      else if c = CHR 0x0D
      then
        let l1 = (case l of [] \<Rightarrow> [] | d # m \<Rightarrow> if d = CHR 0x0A then m else l)
        in line_of l1 loc l1 (line + 1)
      else if c = CHR 0x0A then line_of l loc l (line + 1)
      else line_of l loc lastLineStart line)"
  by pat_completeness auto
termination
  by (relation "measure (\<lambda>(l, _). length l)") (auto split: list.split)

definition getLocationLineAndColumn :: "location \<Rightarrow> location \<Rightarrow> nat \<times> int" where
  "getLocationLineAndColumn doc loc =
     (case line_of doc loc doc 0 of
        (line, lastLineStart) \<Rightarrow> (line + 1, int (length lastLineStart) - int (length loc) + 1))"

definition location_text :: "location \<Rightarrow> location \<Rightarrow> string" where
  "location_text doc loc =
     (case getLocationLineAndColumn doc loc of
        (line, column) \<Rightarrow> ''Line '' @ decimal line @ '', Column '' @ show_int column)"

definition getFormattedErrorMessages :: "'r reader \<Rightarrow> string" where
  "getFormattedErrorMessages rd =
     concat (map (\<lambda>error.
         ''* '' @ location_text (rd_document rd) (tk_start (ei_token error)) @ [CHR 0x0A] @
         ''  '' @ ei_message error @ [CHR 0x0A] @
         (case ei_extra error of
            None \<Rightarrow> []
          | Some loc \<Rightarrow> ''See '' @ location_text (rd_document rd) loc @ '' for detail.'' @ [CHR 0x0A]))
       (rd_errors rd))"

record structured_error =
  offset_start :: nat
  offset_limit :: nat
  se_message :: string

definition getStructuredErrors :: "'r reader \<Rightarrow> structured_error list" where
  "getStructuredErrors rd =
     map (\<lambda>error.
         \<lparr>offset_start = length (rd_document rd) - length (tk_start (ei_token error)),
          offset_limit = length (rd_document rd) - length (tk_end (ei_token error)),
          se_message = ei_message error\<rparr>)
       (rd_errors rd)"

text \<open>
  \<^verbatim>\<open>pushError\<close> reports an error of the caller for a value that was read: \<open>start\<close> and \<open>limit\<close> are the
  offsets the value keeps. Without a second value the end of the token is counted from the end of
  the document, and points behind it.
\<close>

definition pushed_error :: "nat \<Rightarrow> location \<Rightarrow> string \<Rightarrow> location option \<Rightarrow> 'r reader \<Rightarrow> 'r reader" where
  "pushed_error start until msg extra rd =
     addError msg \<lparr>tk_type = tokenError, tk_start = drop start (rd_document rd), tk_end = until\<rparr> extra rd"

definition pushError :: "nat \<Rightarrow> nat \<Rightarrow> string \<Rightarrow> 'r reader \<Rightarrow> ('r reader, bool) outcome" where
  "pushError start limit msg rd =
     (let n = length (rd_document rd)
      in if n < start \<or> n < limit then (rd, Inr False)
         else if 0 < limit then (rd, Inl (Undefined ''pointer behind the end of the document''))
         else (pushed_error start [] msg None rd, Inr True))"

definition pushError_extra ::
  "nat \<Rightarrow> nat \<Rightarrow> string \<Rightarrow> nat \<Rightarrow> nat \<Rightarrow> 'r reader \<Rightarrow> ('r reader, bool) outcome" where
  "pushError_extra start limit msg extra_start extra_limit rd =
     (let n = length (rd_document rd); at = (\<lambda>i. drop i (rd_document rd))
      in if n < start \<or> n < limit \<or> n < extra_limit then (rd, Inr False)
         else if n < extra_start then (rd, Inl (Undefined ''pointer behind the end of the document''))
         else (pushed_error start (at limit) msg (Some (at extra_start)) rd, Inr True))"

lemma pushError_reported:
  assumes "start \<le> length (rd_document rd)" and "limit \<le> length (rd_document rd)"
    and "extra_start \<le> extra_limit" and "extra_limit \<le> length (rd_document rd)"
  shows "\<exists>rd'. pushError_extra start limit msg extra_start extra_limit rd = (rd', Inr True) \<and>
      getStructuredErrors rd' = getStructuredErrors rd @
        [\<lparr>offset_start = start, offset_limit = limit, se_message = msg\<rparr>] \<and>
      (0 < limit \<longrightarrow> isl (snd (pushError start limit msg rd)))"
  using assms
  by (auto simp: pushError_extra_def pushError_def pushed_error_def addError_def getStructuredErrors_def
      Let_def intro!: exI)

section \<open>Reading ends\<close>

lemma readToken_start: "readToken rd = (t, rd') \<Longrightarrow> length (tk_start t) \<le> length (rd_current rd)"
  by (auto simp: readToken_def skipSpaces_def length_dropWhile_le Let_def split: prod.splits)

lemma skip_comments_length:
  "skip_comments rd = (t, rd') \<Longrightarrow> length (rd_current rd') \<le> length (rd_current rd) \<and>
    length (tk_start t) \<le> length (rd_current rd) \<and>
    (tk_type t = tokenEndOfStream \<or> length (rd_current rd') < length (rd_current rd))"
proof (induction rd rule: skip_comments.induct)
  case (1 rd)
  obtain t1 rd1 where r: "readToken rd = (t1, rd1)" by (metis prod.exhaust)
  from "1.IH" [OF r [symmetric]] "1.prems" readToken_length [OF r] readToken_start [OF r] r
  show ?case by (subst (asm) skip_comments.simps) (auto split: if_splits)
qed

lemma skipCommentTokens_length:
  "skipCommentTokens rd = (t, rd') \<Longrightarrow> length (rd_current rd') \<le> length (rd_current rd) \<and>
    length (tk_start t) \<le> length (rd_current rd) \<and>
    (tk_type t = tokenEndOfStream \<or> length (rd_current rd') < length (rd_current rd))"
  using skip_comments_length [of rd t rd'] readToken_length [of rd t rd'] readToken_start [of rd t rd']
  by (auto simp: skipCommentTokens_def split: if_splits)

lemma skip_until_length: "length (rd_current (skip_until ty rd)) \<le> length (rd_current rd)"
proof (induction ty rd rule: skip_until.induct)
  case (1 ty rd)
  obtain t1 rd1 where r: "readToken rd = (t1, rd1)" by (metis prod.exhaust)
  from "1.IH" [OF r [symmetric]] readToken_length [OF r] r
  show ?case by (subst skip_until.simps) (auto split: if_splits)
qed

lemma reader_current [simp]:
  "rd_current (swapPayload d rd) = rd_current rd"
  "rd_current (push_node s rd) = rd_current rd"
  "rd_current (pop_node rd) = rd_current rd"
  "rd_current (attach_comments rd) = rd_current rd"
  "rd_current (value_read rd) = rd_current rd"
  "rd_current (addError m t x rd) = rd_current rd"
  by (simp_all add: swapPayload_def push_node_def pop_node_def attach_comments_def value_read_def
      addError_def Let_def)

lemma recoverFromError_length:
  "length (rd_current (recoverFromError ty rd)) \<le> length (rd_current rd)"
  "length (rd_current (addErrorAndRecover m t ty rd)) \<le> length (rd_current rd)"
  using skip_until_length [of ty rd] skip_until_length [of ty "addError m t None rd"]
  by (simp_all add: recoverFromError_def addErrorAndRecover_def Let_def)

lemma finish_value_fst [simp]: "rd_current (fst (finish_value r)) = rd_current (fst r)"
  by (cases r; cases "snd r") (auto simp: finish_value_def)

lemma decode_current:
  "decodeNumber rdbl t rd = (d, rd') \<Longrightarrow> rd_current rd' = rd_current rd"
  "decodeString t rd = (s, rd') \<Longrightarrow> rd_current rd' = rd_current rd"
  by (auto simp: decodeNumber_def decodeDouble_def decodeString_def Let_def
      split: option.splits sum.splits if_splits)

lemma set_decoded_current [simp]: "rd_current (fst (set_decoded mk x)) = rd_current (snd x)"
  by (auto simp: set_decoded_def split: prod.split option.split)

lemma read_simple_length:
  "length (tk_start t) \<le> n \<Longrightarrow> length (rd_current rd) \<le> n \<Longrightarrow>
   length (rd_current (fst (read_simple rdbl t rd))) \<le> n"
proof -
  have "rd_current (snd (decodeNumber rdbl t rd)) = rd_current rd"
    "rd_current (snd (decodeString t rd)) = rd_current rd"
    using decode_current by (metis prod.collapse)+
  moreover assume "length (tk_start t) \<le> n" "length (rd_current rd) \<le> n"
  ultimately show ?thesis
    by (cases "tk_type t") (simp_all add: read_simple_def)
qed

lemma read_name_current: "rd_current (fst (read_name rdbl t rd)) = rd_current rd"
  by (auto simp: read_name_def dest: decode_current split: prod.splits option.splits)

text \<open>What a reading function leaves is no longer than what it was given.\<close>

definition ends_within :: "nat \<Rightarrow> ('r, 'a) reading \<Rightarrow> bool" where
  "ends_within n r \<longleftrightarrow> (\<exists>rd x. r = Some (rd, x) \<and> length (rd_current rd) \<le> n)"

lemma ends_within_Some [simp]: "ends_within n (Some y) \<longleftrightarrow> length (rd_current (fst y)) \<le> n"
  by (cases y) (simp add: ends_within_def)

lemma ends_within_map [simp]: "ends_within n (map_option finish_value r) = ends_within n r"
  by (cases r) (simp_all add: ends_within_def [of n None])

lemma ends_withinE:
  assumes "ends_within n r"
  obtains rd x where "r = Some (rd, x)" and "length (rd_current rd) \<le> n"
  using assms by (auto simp: ends_within_def)

lemma ends_within_mono: "ends_within n r \<Longrightarrow> n \<le> m \<Longrightarrow> ends_within m r"
  by (force simp: ends_within_def)

lemma after_member_ends:
  assumes "ends_within k r" and "\<And>rd. length (rd_current rd) < k \<Longrightarrow> ends_within k (again rd)"
  shows "ends_within k (after_member again r)"
proof -
  obtain rd x where r: "r = Some (rd, x)" and l: "length (rd_current rd) \<le> k"
    using assms(1) by (rule ends_withinE)
  obtain comma rd1 where k: "readToken (pop_node rd) = (comma, rd1)" by (metis prod.exhaust)
  note l1 = readToken_length [OF k]
  obtain comma1 rd2 where k1: "skip_comments rd1 = (comma1, rd2)" by (metis prod.exhaust)
  note l2 = skip_comments_length [OF k1]
  have "ends_within k (after_member again (Some (rd, Inr True)))"
  proof (cases "tk_type comma \<in> {tokenObjectEnd, tokenArraySeparator, tokenComment}")
    case True
    with l l1 have "length (rd_current rd1) < k" by auto
    moreover from this l2 have "length (rd_current rd2) < k" by simp
    ultimately show ?thesis
      using True assms(2) [of rd1] assms(2) [of rd2] by (auto simp: after_member_def k k1)
  next
    case False
    with l l1 show ?thesis
      by (auto simp: after_member_def k intro: order.trans [OF recoverFromError_length(2)])
  qed
  then show ?thesis
    using l by (cases x rule: sum.exhaust)
      (auto simp: after_member_def r intro: order.trans [OF recoverFromError_length(1)])
qed

lemma after_element_ends:
  assumes "ends_within k r" and "\<And>rd. length (rd_current rd) < k \<Longrightarrow> ends_within k (again rd)"
  shows "ends_within k (after_element again r)"
proof -
  obtain rd x where r: "r = Some (rd, x)" and l: "length (rd_current rd) \<le> k"
    using assms(1) by (rule ends_withinE)
  obtain t rd1 where k: "skip_comments (pop_node rd) = (t, rd1)" by (metis prod.exhaust)
  note l1 = skip_comments_length [OF k]
  have "ends_within k (after_element again (Some (rd, Inr True)))"
    using l l1 assms(2) [of rd1]
    by (auto simp: after_element_def k intro: order.trans [OF recoverFromError_length(2)])
  then show ?thesis
    using l by (cases x rule: sum.exhaust)
      (auto simp: after_element_def r intro: order.trans [OF recoverFromError_length(1)])
qed

lemma reading_ends:
  "2 * length (rd_current rd) + 1 \<le> n \<Longrightarrow> ends_within (length (rd_current rd)) (readValue rdbl n rd)"
  "2 * length (rd_current rd) + 2 \<le> n \<Longrightarrow> ends_within (length (rd_current rd)) (read_members rdbl n name rd)"
  "2 * length (rd_current rd) + 2 \<le> n \<Longrightarrow> ends_within (length (rd_current rd)) (read_elements rdbl n i rd)"
proof (induction n arbitrary: rd name i)
  case (Suc n)
  note IH = Suc.IH
  {
    case 1
    then have n: "2 * length (rd_current rd) + 1 \<le> Suc n" .
    obtain t rd1 where t: "skipCommentTokens rd = (t, rd1)" by (metis prod.exhaust)
    note l = skipCommentTokens_length [OF t]
    let ?k = "length (rd_current rd)"
    show ?case
    proof (cases "tk_type t = tokenObjectBegin \<or> tk_type t = tokenArrayBegin")
      case False
      with l show ?thesis by (auto simp: t intro: read_simple_length)
    next
      case True
      with l have lt: "length (rd_current rd1) < ?k" by auto
      have m: "ends_within ?k (read_members rdbl n [] (swapPayload (J_object []) (attach_comments rd1)))"
        using lt n by (intro ends_within_mono [OF IH(2)]) simp_all
      let ?l = "skipSpaces (rd_current rd1)"
      let ?rd = "swapPayload (J_array []) (attach_comments rd1)\<lparr>rd_current := ?l\<rparr>"
      have s: "length ?l \<le> length (rd_current rd1)" by (simp add: skipSpaces_def length_dropWhile_le)
      then have e: "ends_within ?k (read_elements rdbl n 0 ?rd)"
        using lt n by (intro ends_within_mono [OF IH(3)]) simp_all
      have "length (rd_current (snd (readToken ?rd))) \<le> ?k"
        using readToken_length [of ?rd "fst (readToken ?rd)" "snd (readToken ?rd)"] s lt by simp
      with m e True show ?thesis by (auto simp: t Let_def)
    qed
  next
    case 2
    let ?k = "length (rd_current rd)"
    obtain t rd1 where t: "skip_comments rd = (t, rd1)" by (metis prod.exhaust)
    note l1 = skip_comments_length [OF t]
    obtain rd2 y where nm: "read_name rdbl t rd1 = (rd2, y)" by (metis prod.exhaust)
    with read_name_current [of rdbl t rd1] have l2: "rd_current rd2 = rd_current rd1" by simp
    obtain colon rd3 where c: "readToken rd2 = (colon, rd3)" by (metis prod.exhaust)
    note l3 = readToken_length [OF c]
    have "ends_within ?k (after_member (read_members rdbl n name1)
        (readValue rdbl n (push_node (Member name1) rd3)))" for name1
      using 2 l1 l2 l3
      by (intro after_member_ends ends_within_mono [OF IH(1)] ends_within_mono [OF IH(2)]) simp_all
    then show ?case
      using l1 l2 l3
      by (auto simp: t nm c intro: order.trans [OF recoverFromError_length(1)]
          order.trans [OF recoverFromError_length(2)] split: sum.split member_name.split)
  next
    case 3
    have "ends_within (length (rd_current rd)) (after_element (read_elements rdbl n (i + 1))
        (readValue rdbl n (push_node (Element i) rd)))"
      using 3
      by (intro after_element_ends ends_within_mono [OF IH(1)] ends_within_mono [OF IH(3)]) simp_all
    then show ?case by simp
  }
qed simp_all


text \<open>Parsing ends, whatever the document.\<close>

lemma Reader_parse_ends: "\<exists>rd' r. Reader_parse rdbl doc root collectComments rd = Some (rd', r)"
proof -
  let ?rd = "start_reader doc root collectComments rd"
  have "ends_within (length (rd_current ?rd)) (readValue rdbl (reader_fuel doc) ?rd)"
    by (rule reading_ends) (simp add: reader_fuel_def start_reader_def)
  then obtain rd1 x where "readValue rdbl (reader_fuel doc) ?rd = Some (rd1, x)"
    by (rule ends_withinE)
  then show ?thesis by (cases x) (auto simp: Reader_parse_def Let_def split: prod.split)
qed

end
