(* ===== verification/Json_Fast_Writer.thy ===== *)
theory Json_Fast_Writer
  imports Json_Writer
begin

text \<open>
  \<^verbatim>\<open>Json::FastWriter\<close>, which writes a value on one line and without its comments.
\<close>

record fast_writer =
  fw_yaml :: bool
  fw_dropNull :: bool
  fw_omitLF :: bool

definition FastWriter_new :: fast_writer where
  "FastWriter_new = \<lparr>fw_yaml = False, fw_dropNull = False, fw_omitLF = False\<rparr>"

definition enableYAMLCompatibility :: "fast_writer \<Rightarrow> fast_writer" where
  "enableYAMLCompatibility fw = fw\<lparr>fw_yaml := True\<rparr>"

definition dropNullPlaceholders :: "fast_writer \<Rightarrow> fast_writer" where
  "dropNullPlaceholders fw = fw\<lparr>fw_dropNull := True\<rparr>"

definition omitEndingLineFeed :: "fast_writer \<Rightarrow> fast_writer" where
  "omitEndingLineFeed fw = fw\<lparr>fw_omitLF := True\<rparr>"

lemma array_children_Nil [simp]: "array_children [] (json_size (Json (J_array []) c)) = []"
  by (simp add: array_children_def json_size_def)

lemma list_size_children_size:
  "list_size (array_children es (json_size (Json (J_array es) c))) < Suc (size (J_array es))"
proof (cases "es = []")
  case False
  then show ?thesis by (rule less_SucI [OF list_size_children])
qed simp

text \<open>What \<^verbatim>\<open>writeValue\<close> appends to the document.\<close>

function
  fast_value :: "'r printf \<Rightarrow> fast_writer \<Rightarrow> 'r json \<Rightarrow> string" and
  fast_elements :: "'r printf \<Rightarrow> fast_writer \<Rightarrow> 'r json list \<Rightarrow> string" and
  fast_members :: "'r printf \<Rightarrow> fast_writer \<Rightarrow> (string \<times> 'r json) list \<Rightarrow> string"
where
  "fast_value real fw (Json d c) =
     (case d of
        J_null \<Rightarrow> if fw_dropNull fw then [] else ''null''
      | J_int i \<Rightarrow> valueToString_int i
      | J_uint u \<Rightarrow> valueToString_uint u
      | J_real r \<Rightarrow> valueToString_real real r
      | J_string s \<Rightarrow> valueToQuotedStringN s
      | J_bool b \<Rightarrow> valueToString_bool b
      | J_array es \<Rightarrow>
          ''['' @ fast_elements real fw (array_children es (json_size (Json d c))) @ '']''
      | J_object ms \<Rightarrow> ''{'' @ fast_members real fw ms @ ''}'')"
| "fast_elements real fw [] = []"
| "fast_elements real fw (v # vs) =
     fast_value real fw v @ (if vs = [] then [] else '','' @ fast_elements real fw vs)"
| "fast_members real fw [] = []"
| "fast_members real fw ((name, v) # ms) =
     valueToQuotedStringN name @ (if fw_yaml fw then '': '' else '':'') @ fast_value real fw v @
     (if ms = [] then [] else '','' @ fast_members real fw ms)"
  by pat_completeness auto
termination fast_value
  by (relation "measures
     [\<lambda>x. case x of
        Inl (_, _, v) \<Rightarrow> size v
      | Inr (Inl (_, _, vs)) \<Rightarrow> list_size vs
      | Inr (Inr (_, _, ms)) \<Rightarrow> list_size (map snd ms),
      \<lambda>x. case x of
        Inl _ \<Rightarrow> 0
      | Inr (Inl (_, _, vs)) \<Rightarrow> Suc (length vs)
      | Inr (Inr (_, _, ms)) \<Rightarrow> Suc (length ms)]")
    (use list_size_children_size list_size_members_less in \<open>simp_all add: max_cases\<close>)

definition FastWriter_write :: "'r printf \<Rightarrow> fast_writer \<Rightarrow> 'r json \<Rightarrow> string" where
  "FastWriter_write real fw root =
     fast_value real fw root @ (if fw_omitLF fw then [] else [CHR 0x0A])"

end
