(* ===== verification/Json_Scan.thy ===== *)
theory Json_Scan
  imports Json_Reader Json_Fast_Writer
begin

text \<open>
  How \<^verbatim>\<open>Json::Reader\<close> scans and decodes what the writers write: numbers, quoted strings, words
  and punctuation, each followed by a character that ends it.
\<close>

unbundle bit_operations_syntax

section \<open>Scanning what the writer writes\<close>

definition delimited :: "location \<Rightarrow> bool" where
  "delimited l \<longleftrightarrow> l = [] \<or> hd l \<in> set ('',]} '' @ [CHR 0x09, CHR 0x0A, CHR 0x0D, CHR 0x00])"

definition all_digits :: "string \<Rightarrow> bool" where
  "all_digits ds \<longleftrightarrow> (\<forall>c \<in> set ds. is_digit c)"

lemma delimited_char:
  "delimited (c # l) \<Longrightarrow> \<not> is_digit c \<and> c \<noteq> CHR ''.'' \<and> c \<noteq> CHR ''e'' \<and> c \<noteq> CHR ''E''"
  by (auto simp: delimited_def is_digit_def)

lemma skip_digits_append:
  "all_digits ds \<Longrightarrow> delimited l \<Longrightarrow> skip_digits (ds @ l) = l"
proof (induction ds)
  case Nil
  then show ?case using delimited_char by (cases l) (auto simp: skip_digits_def)
qed (simp_all add: skip_digits_def all_digits_def)

lemma readNumber_digits:
  assumes "all_digits ds" and "delimited l"
  shows "readNumber (ds @ l) = l"
proof (cases l)
  case Nil
  then show ?thesis using skip_digits_append [OF assms] by (simp add: readNumber_def)
next
  case (Cons c m)
  then show ?thesis
    using skip_digits_append [OF assms] delimited_char [of c m] assms(2) by (simp add: readNumber_def)
qed

lemma span_append [simp]: "span (s @ l) l = s"
  by (simp add: span_def)

lemma decode_digits_value:
  assumes "all_digits ds" and "100 \<le> unat m"
    and "unat v * 10 ^ length ds + decimal_value ds \<le> unat m"
  shows "decode_digits m v ds = Some (word_of_nat (unat v * 10 ^ length ds + decimal_value ds))"
  using assms
proof (induction ds arbitrary: v)
  case Nil
  then show ?case by (simp add: decimal_value_def)
next
  case (Cons c cs)
  let ?d = "digit_value c" and ?L = "length cs"
  have c: "is_digit c" and cs: "all_digits cs" using Cons.prems(1) by (simp_all add: all_digits_def)
  have d: "?d < 10" using c unfolding digit_value_def is_digit_def by linarith
  have dv: "decimal_value (c # cs) = ?d * 10 ^ ?L + decimal_value cs"
  proof -
    have "foldl (\<lambda>v c. 10 * v + digit_value c) a xs = a * 10 ^ length xs + decimal_value xs" for a xs
    proof (induction xs rule: rev_induct)
      case (snoc x xs)
      then show ?case by (simp add: algebra_simps)
    qed (simp add: decimal_value_def)
    from this [of ?d cs] show ?thesis by (simp add: decimal_value_def)
  qed
  have total: "(unat v * 10 + ?d) * 10 ^ ?L + decimal_value cs \<le> unat m"
    using Cons.prems(3) dv by (simp add: algebra_simps)
  then have step: "(unat v * 10 + ?d) * 10 ^ ?L \<le> unat m" by simp
  then have small: "unat v * 10 + ?d \<le> unat m"
    by (metis dual_order.trans le_add1 mult.right_neutral mult_le_mono2 one_le_numeral one_le_power)
  have ud: "unat (word_of_nat ?d :: 64 word) = ?d" using d by (simp add: unat_of_nat)
  have th: "unat (m div 10) = unat m div 10" "unat (m mod 10) = unat m mod 10"
    by (simp_all add: unat_div unat_mod)
  have le: "unat v \<le> unat m div 10" using small by linarith
  have no: "\<not> (m div 10 \<le> v \<and> (m div 10 < v \<or> cs \<noteq> [] \<or> m mod 10 < word_of_nat ?d))"
  proof
    assume a: "m div 10 \<le> v \<and> (m div 10 < v \<or> cs \<noteq> [] \<or> m mod 10 < word_of_nat ?d)"
    then have eq: "unat v = unat m div 10" using le th by (simp add: word_le_nat_alt)
    from a consider "m div 10 < v" | "cs \<noteq> []" | "m mod 10 < word_of_nat ?d" by blast
    then show False
    proof cases
      case 1
      with eq th show False by (simp add: word_less_nat_alt)
    next
      case 2
      then have "(10 :: nat) \<le> 10 ^ ?L" by (cases cs) simp_all
      from mult_le_mono2 [OF this, of "unat v * 10 + ?d"] step
      have "(unat v * 10 + ?d) * 10 \<le> unat m" by (rule order.trans)
      moreover have "unat m < 10 * unat v + 10" unfolding eq by simp
      moreover have "(q * 10 + d) * 10 \<le> k \<Longrightarrow> k < 10 * q + 10 \<Longrightarrow> 100 \<le> k \<Longrightarrow> False"
        for q d k :: nat by (simp add: algebra_simps)
      ultimately show False using Cons.prems(2) by blast
    next
      case 3
      then have "unat m mod 10 < ?d" using th ud by (simp add: word_less_nat_alt)
      moreover have "unat m = 10 * (unat m div 10) + unat m mod 10" by simp
      ultimately show False using eq small by linarith
    qed
  qed
  have uv: "unat (v * 10 + word_of_nat ?d) = unat v * 10 + ?d"
  proof -
    have "unat v * 10 + ?d < 2 ^ 64" using small unsigned_less [of m, where ?'a = nat] by simp
    then show ?thesis using ud by (simp add: unat_word_ariths)
  qed
  have "decode_digits m (v * 10 + word_of_nat ?d) cs =
      Some (word_of_nat ((unat v * 10 + ?d) * 10 ^ ?L + decimal_value cs))"
    using Cons.IH [OF cs Cons.prems(2), of "v * 10 + word_of_nat ?d"] total uv by simp
  moreover have "(unat v * 10 + ?d) * 10 ^ ?L + decimal_value cs =
      unat v * 10 ^ length (c # cs) + decimal_value (c # cs)"
    using dv by (simp add: algebra_simps)
  ultimately show ?case using c no by (simp add: Let_def)
qed

lemma decode_decimal:
  assumes "n \<le> unat m" and "100 \<le> unat m"
  shows "decode_digits m 0 (decimal n) = Some (word_of_nat n)"
  using decode_digits_value [of "decimal n" m 0] assms
  by (simp add: all_digits_def decimal_digits)

text \<open>Quoted strings.\<close>

lemma readString_plain: "c \<noteq> CHR 0x22 \<Longrightarrow> c \<noteq> CHR 0x5C \<Longrightarrow> readString (c # l) = readString l"
  by (simp add: readString.simps(2))

lemma readString_escape: "readString (CHR 0x5C # c # l) = readString l"
  by (simp add: readString.simps(2))

lemma of_char_hex: "n < 16 \<Longrightarrow> (of_char (hex_digit n) :: nat) = (if n < 10 then 48 + n else 55 + n)"
  by (simp add: hex_digit_def)

lemma hex_digit_plain: "n < 16 \<Longrightarrow> hex_digit n \<noteq> CHR 0x22 \<and> hex_digit n \<noteq> CHR 0x5C"
  using of_char_hex [of n] by (auto split: if_splits)

lemma readString_hex4: "readString (hex4 n @ l) = readString l"
  by (simp add: hex4_def readString_plain hex_digit_plain)

lemma readString_quote_char: "readString (quote_char c @ l) = readString l"
proof (cases "isControlCharacter c \<or> c = CHR 0x00")
  case True
  then show ?thesis by (auto simp: quote_char_def readString_escape readString_hex4)
next
  case False
  then show ?thesis by (simp add: quote_char_def readString_escape readString_plain)
qed

lemma readString_quoted: "readString (concat (map quote_char s) @ CHR 0x22 # l) = (True, l)"
  by (induction s) (simp_all add: readString_quote_char readString.simps(2) [of "CHR 0x22"])

lemma hex_value_hex: "n < 16 \<Longrightarrow> hex_value (hex_digit n) = Some n"
  by (simp add: hex_value_def of_char_hex)

lemma decode_hex4:
  assumes "n < 128"
  shows "decodeUnicodeCodePoint (hex4 n @ t) = Inr (word_of_nat n, t)"
proof -
  have h: "(word_of_nat (n div 16 mod 16) * 16 + word_of_nat (n mod 16) :: 32 word) = word_of_nat n"
  proof -
    have "(word_of_nat (n div 16 mod 16) * 16 + word_of_nat (n mod 16) :: 32 word) =
        word_of_nat ((n div 16 mod 16) * 16 + n mod 16)"
      by (simp only: of_nat_add of_nat_mult of_nat_numeral)
    also have "(n div 16 mod 16) * 16 + n mod 16 = n" using assms by simp
    finally show ?thesis .
  qed
  have z: "n div 4096 mod 16 = 0" "n div 256 mod 16 = 0" using assms by simp_all
  have "decode_hex (Suc (Suc (Suc (Suc 0)))) 0 (hex4 n @ t) = Inr (word_of_nat n, t)"
    using h z by (simp add: hex4_def hex_value_hex)
  moreover have "Suc (Suc (Suc (Suc 0))) = 4" by simp
  ultimately have "decode_hex 4 0 (hex4 n @ t) = Inr (word_of_nat n, t)" by (simp only:)
  then have "decodeUnicodeEscapeSequence (hex4 n @ t) = Inr (word_of_nat n, t)"
    by (simp add: decodeUnicodeEscapeSequence_def hex4_def)
  moreover have "\<not> 0xD800 \<le> (word_of_nat n :: 32 word)"
    using assms by (simp add: word_le_nat_alt unat_of_nat)
  ultimately show ?thesis by (simp add: decodeUnicodeCodePoint_def)
qed

lemma utf8_small: "n < 128 \<Longrightarrow> codePointToUTF8 (word_of_nat n) = [char_of n]"
  by (simp add: codePointToUTF8_def word_le_nat_alt byte_char_def unat_of_nat)

lemma decode_quote_char: "decode_string (quote_char c @ t) a = decode_string t (a @ [c])"
proof (cases "isControlCharacter c \<or> c = CHR 0x00")
  case True
  then have n: "(of_char c :: nat) < 128" by (auto simp: isControlCharacter_def)
  have "decode_string (CHR 0x5C # CHR ''u'' # hex4 (of_char c) @ t) a = decode_string t (a @ [c])"
    using decode_hex4 [OF n] utf8_small [OF n] by (simp add: decode_string.simps(2))
  then show ?thesis
    using True by (auto simp: quote_char_def decode_string.simps(2) [of "CHR 0x5C"] escaped_char_def)
next
  case False
  then show ?thesis
    by (auto simp: quote_char_def decode_string.simps(2) escaped_char_def)
qed

lemma decode_quoted: "decode_string (concat (map quote_char s)) a = Inr (a @ s)"
  by (induction s arbitrary: a) (simp_all add: decode_quote_char)

section \<open>The values that are read back\<close>

text \<open>
  A number that is not negative and above the range of \<^verbatim>\<open>int\<close> is read as unsigned, any other
  integer as signed. An array that has holes is read with null in their place. Comments are not
  written.
\<close>

definition json_normal_int :: "64 word \<Rightarrow> 'r json_data" where
  "json_normal_int i = (if 2 ^ 31 \<le> sint i then J_uint i else J_int i)"

definition json_normal_uint :: "64 word \<Rightarrow> 'r json_data" where
  "json_normal_uint u = (if uint u < 2 ^ 31 then J_int u else J_uint u)"

definition json_indexed :: "'r json list \<Rightarrow> (32 word \<times> 'r json) list" where
  "json_indexed vs = map (\<lambda>(i, v). (word_of_nat i, v)) (enumerate 0 vs)"

lemma size_child_less:
  "x \<in> set (array_children es (json_size (Json (J_array es) c))) \<Longrightarrow> size x < Suc (size (J_array es))"
  using list_size_children_size [of es c] by (simp only: list_size_less)

lemma size_member_less: "x \<in> set ms \<Longrightarrow> size (snd x) < Suc (size (J_object ms))"
  using list_size_members_less [of ms] by (simp only: list_size_less) simp

function json_normal :: "'r json \<Rightarrow> 'r json" where
  "json_normal (Json d c) = json_of
     (case d of
        J_int i \<Rightarrow> json_normal_int i
      | J_uint u \<Rightarrow> json_normal_uint u
      | J_array es \<Rightarrow> J_array (json_indexed (map json_normal (array_children es (json_size (Json d c)))))
      | J_object ms \<Rightarrow> J_object (map (\<lambda>m. (fst m, json_normal (snd m))) ms)
      | _ \<Rightarrow> d)"
  by pat_completeness auto
termination
  by (relation "measure size") (use size_child_less size_member_less in \<open>fastforce+\<close>)

text \<open>No reals, objects in the order of their keys, and arrays whose number of elements fits an \<^verbatim>\<open>int\<close>.\<close>

fun json_plain :: "'r json \<Rightarrow> bool" and json_plain_data :: "'r json_data \<Rightarrow> bool" where
  "json_plain (Json d c) = json_plain_data d"
| "json_plain_data (J_real r) = False"
| "json_plain_data (J_array es) \<longleftrightarrow>
     uint (json_size (Json (J_array es) no_comments)) < 2 ^ 31 \<and> (\<forall>e \<in> set es. json_plain (snd e))"
| "json_plain_data (J_object ms) \<longleftrightarrow> smap_ok (<) ms \<and> (\<forall>m \<in> set ms. json_plain (snd m))"
| "json_plain_data _ = True"

fun json_depth :: "'r json \<Rightarrow> nat" and data_depth :: "'r json_data \<Rightarrow> nat" where
  "json_depth (Json d c) = data_depth d"
| "data_depth (J_array es) = foldr (\<lambda>e m. max (Suc (json_depth (snd e))) m) es 0"
| "data_depth (J_object ms) = foldr (\<lambda>e m. max (Suc (json_depth (snd e))) m) ms 0"
| "data_depth _ = 0"

section \<open>Tokens of what the writer writes\<close>

definition scans :: "location \<Rightarrow> token_type \<Rightarrow> location \<Rightarrow> location \<Rightarrow> bool" where
  "scans l ty start l' \<longleftrightarrow>
     (\<exists>ws c m. l = ws @ c # m \<and> start = c # m \<and> (\<forall>x \<in> set ws. json_space x) \<and>
        \<not> json_space c \<and> c \<noteq> CHR ''/'' \<and> scan_token c m = (ty, True, l') \<and> ty \<noteq> tokenComment)"

lemma skipSpaces_append: "\<forall>x \<in> set ws. json_space x \<Longrightarrow> skipSpaces (ws @ l) = skipSpaces l"
  by (simp add: skipSpaces_def)

lemma skipSpaces_nonspace [simp]: "\<not> json_space c \<Longrightarrow> skipSpaces (c # l) = c # l"
  by (simp add: skipSpaces_def)

lemma scans_readToken:
  assumes "scans (rd_current rd) ty start l"
  shows "readToken rd = (\<lparr>tk_type = ty, tk_start = start, tk_end = l\<rparr>, rd\<lparr>rd_current := l\<rparr>)"
    and "skip_comments rd = (\<lparr>tk_type = ty, tk_start = start, tk_end = l\<rparr>, rd\<lparr>rd_current := l\<rparr>)"
    and "skipCommentTokens rd = (\<lparr>tk_type = ty, tk_start = start, tk_end = l\<rparr>, rd\<lparr>rd_current := l\<rparr>)"
proof -
  from assms obtain ws c m where s: "rd_current rd = ws @ c # m" "start = c # m" "\<forall>x \<in> set ws. json_space x"
    "\<not> json_space c" "c \<noteq> CHR ''/''" "scan_token c m = (ty, True, l)" "ty \<noteq> tokenComment"
    by (auto simp: scans_def)
  show r: "readToken rd = (\<lparr>tk_type = ty, tk_start = start, tk_end = l\<rparr>, rd\<lparr>rd_current := l\<rparr>)"
    by (simp add: readToken_def s skipSpaces_append)
  show c: "skip_comments rd = (\<lparr>tk_type = ty, tk_start = start, tk_end = l\<rparr>, rd\<lparr>rd_current := l\<rparr>)"
    by (subst skip_comments.simps) (simp add: r s(7))
  show "skipCommentTokens rd = (\<lparr>tk_type = ty, tk_start = start, tk_end = l\<rparr>, rd\<lparr>rd_current := l\<rparr>)"
    by (simp add: skipCommentTokens_def r c)
qed

lemma scansI:
  "\<forall>x \<in> set ws. json_space x \<Longrightarrow> \<not> json_space c \<Longrightarrow> c \<noteq> CHR ''/'' \<Longrightarrow>
   scan_token c m = (ty, True, l) \<Longrightarrow> ty \<noteq> tokenComment \<Longrightarrow> scans (ws @ c # m) ty (c # m) l"
  by (auto simp: scans_def)

lemma is_digit_facts:
  "is_digit c \<Longrightarrow> \<not> json_space c" "is_digit c \<Longrightarrow> c \<noteq> CHR ''/''" "is_digit c \<Longrightarrow> c \<noteq> CHR ''-''"
  "is_digit c \<Longrightarrow> c \<noteq> CHR '']''"
  by (auto simp: is_digit_def json_space_def)

lemma scan_digit: "is_digit c \<Longrightarrow> scan_token c m = (tokenNumber, True, readNumber m)"
  by (auto simp: scan_token_def is_digit_def)

definition number_text :: "string \<Rightarrow> bool" where
  "number_text s \<longleftrightarrow> (\<exists>n. s = decimal n \<or> s = CHR ''-'' # decimal n)"

lemma scans_number:
  assumes "\<forall>x \<in> set ws. json_space x" and "number_text s" and "delimited l"
  shows "scans (ws @ s @ l) tokenNumber (s @ l) l"
proof -
  obtain n where n: "s = decimal n \<or> s = CHR ''-'' # decimal n" using assms(2) by (auto simp: number_text_def)
  have a: "all_digits (decimal n)" by (simp add: all_digits_def decimal_digits)
  from n show ?thesis
  proof
    assume s: "s = decimal n"
    obtain c cs where c: "decimal n = c # cs" by (cases "decimal n") auto
    with a have "is_digit c" "all_digits cs" by (simp_all add: all_digits_def)
    with assms s c show ?thesis
      by (simp add: scansI scan_digit is_digit_facts readNumber_digits)
  next
    assume s: "s = CHR ''-'' # decimal n"
    have "scan_token CHR ''-'' (decimal n @ l) = (tokenNumber, True, l)"
      using readNumber_digits [OF a assms(3)] by (simp add: scan_token_def)
    with assms(1) s show ?thesis
      using scansI [of ws "CHR ''-''" "decimal n @ l"] by (simp add: json_space_def)
  qed
qed

lemma scans_string:
  assumes "\<forall>x \<in> set ws. json_space x"
  shows "scans (ws @ valueToQuotedStringN s @ l) tokenString (valueToQuotedStringN s @ l) l"
  using scansI [OF assms, of "CHR 0x22" "concat (map quote_char s) @ CHR 0x22 # l" tokenString l]
  by (simp add: valueToQuotedStringN_eq scan_token_def readString_quoted json_space_def is_digit_def)

lemma scans_word:
  assumes "\<forall>x \<in> set ws. json_space x"
  shows "scans (ws @ ''null'' @ l) tokenNull (''null'' @ l) l"
    and "scans (ws @ ''true'' @ l) tokenTrue (''true'' @ l) l"
    and "scans (ws @ ''false'' @ l) tokenFalse (''false'' @ l) l"
  using scansI [OF assms, of "CHR ''n''" "''ull'' @ l" tokenNull l]
    scansI [OF assms, of "CHR ''t''" "''rue'' @ l" tokenTrue l]
    scansI [OF assms, of "CHR ''f''" "''alse'' @ l" tokenFalse l]
  by (simp_all add: scan_token_def match_text_def json_space_def is_digit_def)

lemma scans_punct:
  assumes "\<forall>x \<in> set ws. json_space x"
  shows "scans (ws @ CHR ''{'' # l) tokenObjectBegin (CHR ''{'' # l) l"
    and "scans (ws @ CHR ''}'' # l) tokenObjectEnd (CHR ''}'' # l) l"
    and "scans (ws @ CHR ''['' # l) tokenArrayBegin (CHR ''['' # l) l"
    and "scans (ws @ CHR '']'' # l) tokenArrayEnd (CHR '']'' # l) l"
    and "scans (ws @ CHR '','' # l) tokenArraySeparator (CHR '','' # l) l"
    and "scans (ws @ CHR '':'' # l) tokenMemberSeparator (CHR '':'' # l) l"
  by (auto intro!: scansI [OF assms] simp: scan_token_def json_space_def is_digit_def)

lemmas scans_punct_here = scans_punct [of "[]", simplified]

section \<open>Decoding\<close>

lemma decode_natural:
  "decode_digits (- 1) 0 (decimal (unat i)) = Some i"
proof -
  have "unat (- 1 :: 64 word) = 2 ^ 64 - 1"
    by (simp add: unsigned_minus_1_eq_mask mask_eq_exp_minus_1)
  moreover have "unat i < 2 ^ 64" using unsigned_less [of i, where ?'a = nat] by simp
  ultimately show ?thesis using decode_decimal [of "unat i" "- 1"] by simp
qed

lemma decimal_not_minus: "decimal n \<noteq> [] \<and> hd (decimal n) \<noteq> CHR ''-''"
proof -
  have "is_digit (hd (decimal n))" using decimal_digits hd_in_set decimal_nonempty by blast
  then show ?thesis by (auto simp: is_digit_def)
qed

lemma decodeNumber_natural:
  assumes "span (tk_start t) (tk_end t) = decimal (unat i)"
  shows "decodeNumber rdbl t rd = (Some (json_normal_uint i), rd)"
  using decimal_not_minus [of "unat i"] decode_natural [of i]
  by (simp add: decodeNumber_def assms json_normal_uint_def word_le_def word_le_nat_alt word_less_def)

lemma decodeNumber_negative:
  assumes "span (tk_start t) (tk_end t) = CHR ''-'' # decimal (nat (- sint i))" and "sint i < 0"
  shows "decodeNumber rdbl t rd = (Some (J_int i), rd)"
proof -
  let ?n = "nat (- sint i)"
  have b: "- (2 ^ 63) \<le> sint i" using sint_greater_eq [of i] by simp
  have u: "unat (push_bit 63 1 :: 64 word) = 2 ^ 63" by simp
  have "decode_digits (push_bit 63 1) 0 (decimal ?n) = Some (word_of_nat ?n)"
    using b by (intro decode_decimal) simp_all
  moreover have neg: "- (word_of_nat ?n :: 64 word) = i"
  proof -
    have "(word_of_nat ?n :: 64 word) = word_of_int (- sint i)" using assms(2) by simp
    then show ?thesis by (simp del: of_int_minus add: of_int_minus [symmetric])
  qed
  moreover have "i = minLargestInt" if "word_of_nat ?n = (push_bit 63 1 :: 64 word)"
  proof -
    have "- (push_bit 63 1 :: 64 word) = push_bit 63 1" by simp
    with that neg show ?thesis by (simp add: minLargestInt_def)
  qed
  ultimately show ?thesis by (auto simp: decodeNumber_def assms(1) Let_def)
qed

lemma normal_int_nonneg: "0 \<le> sint i \<Longrightarrow> json_normal_int i = json_normal_uint i"
  using unat_of_sint(1) [of i]
  by (auto simp: json_normal_int_def json_normal_uint_def uint_nat)

lemma decodeNumber_int:
  assumes "span (tk_start t) (tk_end t) = valueToString_int i"
  shows "decodeNumber rdbl t rd = (Some (json_normal_int i), rd)"
proof (cases "sint i < 0")
  case True
  with assms show ?thesis
    using decodeNumber_negative [of t i]
    by (simp add: valueToString_int_correct show_int_def json_normal_int_def)
next
  case False
  then have n: "nat (sint i) = unat i" using unat_of_sint(1) [of i] by simp
  with False assms have "span (tk_start t) (tk_end t) = decimal (unat i)"
    by (simp add: valueToString_int_correct show_int_def)
  from decodeNumber_natural [OF this] False show ?thesis by (simp add: normal_int_nonneg)
qed

lemma number_text_int: "number_text (valueToString_int i)"
  by (auto simp: valueToString_int_correct show_int_def number_text_def)

lemma valueToString_uint_decimal: "valueToString_uint u = decimal (unat u)"
  by (simp add: valueToString_uint_def uintToString_decimal)

lemma number_text_uint: "number_text (valueToString_uint u)"
  by (auto simp: valueToString_uint_decimal number_text_def)

lemma decodeString_quoted:
  "tk_start t = valueToQuotedStringN s @ l \<Longrightarrow> tk_end t = l \<Longrightarrow> decodeString t rd = (Some s, rd)"
proof -
  assume "tk_start t = valueToQuotedStringN s @ l" "tk_end t = l"
  then have "span (tk_start t) (tk_end t) = CHR 0x22 # concat (map quote_char s) @ [CHR 0x22]"
    by (simp only: span_append valueToQuotedStringN_eq)
  then show ?thesis by (simp add: decodeString_def decode_quoted butlast_append)
qed

end
