(* ===== verification/Json_Render.thy ===== *)
theory Json_Render
  imports Json_Scan
begin

text \<open>
  Texts of a value: any text with white space between its tokens. \<^verbatim>\<open>Json::Reader\<close> reads every text of a
  value as that value. The proof is an induction over the text; \<open>reads_value\<close>, \<open>reads_elements\<close> and
  \<open>reads_members\<close> say what the reader does with the text of a value, of the rest of an array and of
  the rest of an object.
\<close>

section \<open>Texts of a value\<close>

definition spaces :: "string \<Rightarrow> bool" where
  "spaces ws \<longleftrightarrow> (\<forall>x \<in> set ws. json_space x)"

lemma spaces_simps [simp]:
  "spaces []" "spaces (x # ws) \<longleftrightarrow> json_space x \<and> spaces ws" "spaces (ws @ ws') \<longleftrightarrow> spaces ws \<and> spaces ws'"
  by (auto simp: spaces_def)

abbreviation children_of :: "(32 word \<times> 'r json) list \<Rightarrow> 'r json list" where
  "children_of es \<equiv> array_children es (json_size (Json (J_array es) no_comments))"

fun compound :: "'r json_data \<Rightarrow> bool" where
  "compound (J_array es) = True"
| "compound (J_object ms) = True"
| "compound _ = False"

text \<open>
  Between the tokens is white space of \<open>W\<close>, after the name of a member the text \<open>colon\<close>; \<open>sc\<close> is the text
  of what is neither an array nor an object.
\<close>

inductive
  renders_value :: "(string \<Rightarrow> bool) \<Rightarrow> string \<Rightarrow> ('r json_data \<Rightarrow> string) \<Rightarrow> 'r json \<Rightarrow> string \<Rightarrow> bool" and
  renders_elements ::
    "(string \<Rightarrow> bool) \<Rightarrow> string \<Rightarrow> ('r json_data \<Rightarrow> string) \<Rightarrow> 'r json list \<Rightarrow> string \<Rightarrow> bool" and
  renders_members ::
    "(string \<Rightarrow> bool) \<Rightarrow> string \<Rightarrow> ('r json_data \<Rightarrow> string) \<Rightarrow> (string \<times> 'r json) list \<Rightarrow> string \<Rightarrow> bool"
  for W colon sc
where
  scalar: "\<not> compound d \<Longrightarrow> renders_value W colon sc (Json d c) (sc d)"
| array_empty: "children_of es = [] \<Longrightarrow> W ws \<Longrightarrow> renders_value W colon sc (Json (J_array es) c) (''['' @ ws @ '']'')"
| array: "renders_elements W colon sc (children_of es) t \<Longrightarrow> W ws \<Longrightarrow>
    renders_value W colon sc (Json (J_array es) c) (''['' @ ws @ t @ '']'')"
| object_empty: "W ws \<Longrightarrow> renders_value W colon sc (Json (J_object []) c) (''{'' @ ws @ ''}'')"
| object: "renders_members W colon sc ms t \<Longrightarrow> W ws \<Longrightarrow>
    renders_value W colon sc (Json (J_object ms) c) (''{'' @ ws @ t @ ''}'')"
| element_last: "renders_value W colon sc v t \<Longrightarrow> W ws \<Longrightarrow> renders_elements W colon sc [v] (t @ ws)"
| element: "renders_value W colon sc v t \<Longrightarrow> W ws \<Longrightarrow> W ws' \<Longrightarrow> renders_elements W colon sc vs ts \<Longrightarrow>
    renders_elements W colon sc (v # vs) (t @ ws @ '','' @ ws' @ ts)"
| member_last: "renders_value W colon sc v t \<Longrightarrow> W ws' \<Longrightarrow> W ws \<Longrightarrow>
    renders_members W colon sc [(k, v)] (valueToQuotedStringN k @ colon @ ws' @ t @ ws)"
| member: "renders_value W colon sc v t \<Longrightarrow> W ws1 \<Longrightarrow> W ws \<Longrightarrow> W ws' \<Longrightarrow> renders_members W colon sc ms ts \<Longrightarrow>
    renders_members W colon sc ((k, v) # ms)
      (valueToQuotedStringN k @ colon @ ws1 @ t @ ws @ '','' @ ws' @ ts)"

lemma renders_nonempty:
  "renders_elements W colon sc vs t \<Longrightarrow> vs \<noteq> []" "renders_members W colon sc ms s \<Longrightarrow> ms \<noteq> []"
  by (auto elim: renders_elements.cases renders_members.cases)

text \<open>What a reader has to be given.\<close>

definition readable :: "(string \<Rightarrow> bool) \<Rightarrow> string \<Rightarrow> ('r json_data \<Rightarrow> string) \<Rightarrow> bool" where
  "readable W colon sc \<longleftrightarrow>
     (\<forall>ws. W ws \<longrightarrow> spaces ws) \<and> (\<exists>w1 w2. colon = w1 @ '':'' @ w2 \<and> spaces w1 \<and> spaces w2) \<and>
     sc J_null = ''null'' \<and> (\<forall>i. sc (J_int i) = valueToString_int i) \<and>
     (\<forall>u. sc (J_uint u) = valueToString_uint u) \<and> (\<forall>s. sc (J_string s) = valueToQuotedStringN s) \<and>
     (\<forall>b. sc (J_bool b) = valueToString_bool b)"

section \<open>Updates of nodes\<close>

definition json_found :: "('k \<times> 'r json) list \<Rightarrow> 'k \<Rightarrow> 'r json" where
  "json_found m k = (case map_of m k of None \<Rightarrow> nullSingleton | Some x \<Rightarrow> x)"

lemma found_put: "json_found (smap_put (<) k x m) k = x" for k :: "'k::linorder"
  by (simp add: json_found_def asc.lookup_put)

lemma json_member_eq:
  "json_member k f v =
    (case object_members v of
       Inl e \<Rightarrow> Inl e
     | Inr (ms, c) \<Rightarrow>
         (case f (json_found ms k) of
            Inl e \<Rightarrow> Inl e
          | Inr x \<Rightarrow> Inr (Json (J_object (smap_put (<) k x ms)) c)))"
  by (auto simp: json_member_def resolveReference_def json_found_def asc.lookup_put smap_put_put
      split: sum.splits option.splits)

lemma json_element_eq:
  "json_element i f v =
    (case array_elements v of
       Inl e \<Rightarrow> Inl e
     | Inr (es, c) \<Rightarrow>
         (case f (json_found es i) of
            Inl e \<Rightarrow> Inl e
          | Inr x \<Rightarrow> Inr (Json (J_array (smap_put (<) i x es)) c)))"
  by (auto simp: json_element_def json_index_def json_found_def asc.lookup_put smap_put_put
      split: sum.splits option.splits)

lemma at_node_append: "at_node (p @ q) f = at_node p (at_node q f)"
proof (induction p)
  case (Cons s p)
  show ?case
  proof (rule ext)
    show "at_node ((s # p) @ q) f r = at_node (s # p) (at_node q f) r" for r
      using Cons by (cases s) simp_all
  qed
qed (rule ext, simp)

text \<open>Two updates of a node are one update.\<close>

lemma at_node_twice:
  "at_node p f r = Inr r' \<Longrightarrow>
   at_node p g r' = at_node p (\<lambda>u. case f u of Inl e \<Rightarrow> Inl e | Inr w \<Rightarrow> g w) r"
proof (induction p arbitrary: r r')
  case (Cons s p)
  show ?case
  proof (cases s)
    case (Member k)
    from Cons.prems obtain ms c x where m: "object_members r = Inr (ms, c)"
      "at_node p f (json_found ms k) = Inr x" "r' = Json (J_object (smap_put (<) k x ms)) c"
      by (auto simp: Member json_member_eq split: sum.splits)
    from Cons.IH [OF m(2)] m show ?thesis
      by (simp add: Member json_member_eq object_members_def [of "Json _ _"] found_put smap_put_put
          split: sum.split)
  next
    case (Element i)
    from Cons.prems obtain es c x where m: "array_elements r = Inr (es, c)"
      "at_node p f (json_found es i) = Inr x" "r' = Json (J_array (smap_put (<) i x es)) c"
      by (auto simp: Element json_element_eq split: sum.splits)
    from Cons.IH [OF m(2)] m show ?thesis
      by (simp add: Element json_element_eq array_elements_def [of "Json _ _"] found_put smap_put_put
          split: sum.split)
  qed
qed simp

lemma at_node_total:
  "at_node p f r = Inr r' \<Longrightarrow> (\<And>u. \<not> isl (g u)) \<Longrightarrow> \<exists>r''. at_node p g r = Inr r''"
proof (induction p arbitrary: r r')
  case Nil
  then show ?case by (metis at_node.simps(1) isl_def obj_sumE)
next
  case (Cons s p)
  then show ?case
    by (cases s) (fastforce simp: json_member_eq json_element_eq split: sum.splits)+
qed

text \<open>\<open>put_node p u r r'\<close>: \<open>r'\<close> is \<open>r\<close> with \<open>u\<close> at the node \<open>p\<close>.\<close>

definition put_node :: "node \<Rightarrow> 'r json \<Rightarrow> 'r json \<Rightarrow> 'r json \<Rightarrow> bool" where
  "put_node p u r r' \<longleftrightarrow> at_node p (\<lambda>_. Inr u) r = Inr r'"

lemma put_node_again:
  assumes "put_node p u r r1"
  obtains r2 where "put_node p w r r2"
  using at_node_total [of p "\<lambda>_. Inr u" r r1 "\<lambda>_. Inr w"] assms by (auto simp: put_node_def)

lemma at_put_node:
  "put_node p u r r1 \<Longrightarrow> f u = Inr w \<Longrightarrow> at_node p f r1 = at_node p (\<lambda>_. Inr w) r"
  by (simp add: put_node_def at_node_twice)

lemma put_node_Nil: "put_node [] u r r' \<longleftrightarrow> r' = u"
  by (auto simp: put_node_def)

text \<open>A node below an object or an array, with a key above the keys it has.\<close>

definition put_below :: "step \<Rightarrow> 'r json \<Rightarrow> 'r json \<Rightarrow> 'r json" where
  "put_below s x u =
     (case (s, u) of
        (Member k, Json (J_object ms) c) \<Rightarrow> Json (J_object (ms @ [(k, x)])) c
      | (Element i, Json (J_array es) c) \<Rightarrow> Json (J_array (es @ [(i, x)])) c
      | _ \<Rightarrow> u)"

definition fresh_below :: "step \<Rightarrow> 'r json \<Rightarrow> bool" where
  "fresh_below s u \<longleftrightarrow>
     (case (s, u) of
        (Member k, Json (J_object ms) c) \<Rightarrow> \<forall>a \<in> fst ` set ms. a < k
      | (Element i, Json (J_array es) c) \<Rightarrow> \<forall>a \<in> fst ` set es. a < i
      | _ \<Rightarrow> False)"

lemma found_fresh: "\<forall>a \<in> fst ` set m. a < k \<Longrightarrow> json_found m k = nullSingleton" for k :: "'k::linorder"
  by (auto simp: json_found_def split: option.split dest!: map_of_SomeD)

lemma at_below:
  assumes "fresh_below s u" and "f nullSingleton = Inr x"
  shows "at_node [s] f u = Inr (put_below s x u)"
  using assms
  by (auto simp: fresh_below_def put_below_def json_member_eq json_element_eq object_members_def
      array_elements_def found_fresh smap_put_above split: step.splits json.splits json_data.splits)

lemma put_below_put:
  assumes "put_node p u r r1" and "fresh_below s u"
  shows "put_node (p @ [s]) x r1 r2 \<longleftrightarrow> put_node p (put_below s x u) r r2"
  using at_put_node [where f = "at_node [s] (\<lambda>_. Inr x)", OF assms(1) at_below [OF assms(2) refl]]
  by (simp add: put_node_def at_node_append)

section \<open>Reading what was written\<close>

text \<open>Only the location, the value and what was read last change.\<close>

definition agrees :: "'r reader \<Rightarrow> 'r reader \<Rightarrow> location \<Rightarrow> 'r json \<Rightarrow> bool" where
  "agrees rd rd' l r \<longleftrightarrow>
     rd_current rd' = l \<and> rd_root rd' = r \<and> rd_nodes rd' = rd_nodes rd \<and>
     rd_commentsBefore rd' = rd_commentsBefore rd \<and> rd_errors rd' = rd_errors rd \<and>
     rd_features rd' = rd_features rd \<and> rd_collectComments rd' = rd_collectComments rd"

lemma agrees_simps [simp]:
  "agrees rd (value_read rd') l r = agrees rd rd' l r"
  "agrees rd (rd\<lparr>rd_current := l, rd_root := r\<rparr>) l r"
  by (simp_all add: agrees_def value_read_def)

text \<open>Setting the current value.\<close>

lemma swap_put:
  assumes "put_node (currentValue rd) u r (rd_root rd)"
  obtains r' where "swapPayload d rd = rd\<lparr>rd_root := r'\<rparr>"
    and "put_node (currentValue rd) (Json d (j_comments u)) r r'"
proof -
  obtain r' where r': "put_node (currentValue rd) (Json d (j_comments u)) r r'"
    using put_node_again [OF assms] by blast
  have "at_node (currentValue rd) (\<lambda>v. Inr (Json d (j_comments v))) (rd_root rd) = Inr r'"
    using at_put_node [OF assms, of "\<lambda>v. Inr (Json d (j_comments v))"] r' by (simp add: put_node_def)
  then have "swapPayload d rd = rd\<lparr>rd_root := r'\<rparr>" by (simp add: swapPayload_def update_node_def)
  with r' that show ?thesis by blast
qed

text \<open>Entering an element that is not there yet.\<close>

lemma push_put:
  assumes "put_node (currentValue rd) u r (rd_root rd)" and "fresh_below s u"
  obtains r' where "push_node s rd = rd\<lparr>rd_root := r', rd_nodes := (currentValue rd @ [s]) # rd_nodes rd\<rparr>"
    and "put_node (currentValue rd @ [s]) nullSingleton (rd_root rd) r'"
proof -
  obtain r' where r': "put_node (currentValue rd) (put_below s nullSingleton u) r r'"
    using put_node_again [OF assms(1)] by blast
  then have p: "put_node (currentValue rd @ [s]) nullSingleton (rd_root rd) r'"
    using put_below_put [OF assms] by blast
  have "at_node (currentValue rd @ [s]) Inr (rd_root rd) = Inr r'"
    using at_put_node [where f = "at_node [s] Inr", OF assms(1) at_below [OF assms(2) refl]] r'
    by (simp add: at_node_append put_node_def)
  then show ?thesis using that p by (simp add: push_node_def update_node_def)
qed

text \<open>Values of one token.\<close>

definition simple_data :: "token \<Rightarrow> 'r reader \<Rightarrow> (string \<Rightarrow> 'r option) \<Rightarrow> 'r json_data \<Rightarrow> bool" where
  "simple_data t rd rdbl d \<longleftrightarrow> read_simple rdbl t rd = finish_value (swapPayload d rd, Inr True)"

lemma finish_value_Inr [simp]: "finish_value (rd, Inr ok) = (value_read rd, Inr ok)"
  by (simp add: finish_value_def)

lemma readValue_simple:
  assumes "scans (rd_current rd) ty start l" and "ty \<noteq> tokenObjectBegin" and "ty \<noteq> tokenArrayBegin"
    and "simple_data \<lparr>tk_type = ty, tk_start = start, tk_end = l\<rparr> (rd\<lparr>rd_current := l\<rparr>) rdbl d"
    and "rd_commentsBefore rd = []" and "length (rd_nodes rd) \<le> stackLimit" and "0 < n"
    and "put_node (currentValue rd) u r (rd_root rd)"
  shows "\<exists>rd' r'. readValue rdbl n rd = Some (rd', Inr True) \<and> agrees rd rd' l r' \<and>
    put_node (currentValue rd) (Json d (j_comments u)) r r'"
proof -
  obtain m where n: "n = Suc m" using assms(7) by (cases n) auto
  let ?rd = "rd\<lparr>rd_current := l\<rparr>"
  have "put_node (currentValue ?rd) u r (rd_root ?rd)" using assms(8) by (simp add: currentValue_def)
  then obtain r' where s: "swapPayload d ?rd = ?rd\<lparr>rd_root := r'\<rparr>"
    and p: "put_node (currentValue ?rd) (Json d (j_comments u)) r r'" by (rule swap_put)
  have "attach_comments ?rd = ?rd" using assms(5) by (simp add: attach_comments_def)
  then have "readValue rdbl n rd = Some (value_read (?rd\<lparr>rd_root := r'\<rparr>), Inr True)"
    using assms(2-4,6) scans_readToken(3) [OF assms(1)] s by (simp add: n simple_data_def)
  moreover have "agrees rd (value_read (?rd\<lparr>rd_root := r'\<rparr>)) l r'" by simp
  ultimately show ?thesis using p by (auto simp: currentValue_def intro!: exI [of _ r'])
qed


text \<open>The claims of the induction: a value, the rest of an array, the rest of an object.\<close>

definition reads_value :: "(string \<Rightarrow> 'r option) \<Rightarrow> 'r json \<Rightarrow> string \<Rightarrow> bool" where
  "reads_value rdbl v t \<longleftrightarrow>
     (\<forall>n rd ws rest u r.
        2 * length (rd_current rd) + 1 \<le> n \<and> rd_current rd = ws @ t @ rest \<and>
        spaces ws \<and> delimited rest \<and> rd_commentsBefore rd = [] \<and>
        length (rd_nodes rd) + json_depth v \<le> stackLimit \<and>
        put_node (currentValue rd) u r (rd_root rd) \<longrightarrow>
        (\<exists>rd' r'. readValue rdbl n rd = Some (rd', Inr True) \<and> agrees rd rd' rest r' \<and>
           put_node (currentValue rd) (Json (j_data (json_normal v)) (j_comments u)) r r'))"

definition reads_elements :: "(string \<Rightarrow> 'r option) \<Rightarrow> 'r json list \<Rightarrow> string \<Rightarrow> bool" where
  "reads_elements rdbl vs t \<longleftrightarrow>
     (\<forall>n rd ws rest read c r.
        2 * length (rd_current rd) + 2 \<le> n \<and>
        rd_current rd = ws @ t @ CHR '']'' # rest \<and> spaces ws \<and>
        rd_commentsBefore rd = [] \<and> length read + length vs < 2 ^ 31 \<and>
        (\<forall>v \<in> set vs. length (rd_nodes rd) + 1 + json_depth v \<le> stackLimit) \<and>
        put_node (currentValue rd) (Json (J_array (json_indexed read)) c) r (rd_root rd) \<longrightarrow>
        (\<exists>rd' r'. read_elements rdbl n (word_of_nat (length read)) rd = Some (rd', Inr True) \<and>
           agrees rd rd' rest r' \<and>
           put_node (currentValue rd) (Json (J_array (json_indexed (read @ map json_normal vs))) c) r r'))"

definition normal_members :: "(string \<times> 'r json) list \<Rightarrow> (string \<times> 'r json) list" where
  "normal_members ms = map (\<lambda>m. (fst m, json_normal (snd m))) ms"

definition reads_members :: "(string \<Rightarrow> 'r option) \<Rightarrow> (string \<times> 'r json) list \<Rightarrow> string \<Rightarrow> bool" where
  "reads_members rdbl ms t \<longleftrightarrow>
     (\<forall>n rd ws rest name read c r.
        2 * length (rd_current rd) + 2 \<le> n \<and>
        rd_current rd = ws @ t @ CHR ''}'' # rest \<and> spaces ws \<and>
        rd_commentsBefore rd = [] \<and> smap_ok (<) (read @ normal_members ms) \<and>
        (\<forall>m \<in> set ms. length (rd_nodes rd) + 1 + json_depth (snd m) \<le> stackLimit) \<and>
        put_node (currentValue rd) (Json (J_object read) c) r (rd_root rd) \<longrightarrow>
        (\<exists>rd' r'. read_members rdbl n name rd = Some (rd', Inr True) \<and> agrees rd rd' rest r' \<and>
           put_node (currentValue rd) (Json (J_object (read @ normal_members ms)) c) r r'))"

lemma pop_push_current:
  "agrees (rd\<lparr>rd_root := a, rd_nodes := p # rd_nodes rd\<rparr>) rd' l r \<Longrightarrow> agrees rd (pop_node rd') l r"
  by (simp add: agrees_def pop_node_def)

lemma indexed_snoc: "json_indexed (vs @ [v]) = json_indexed vs @ [(word_of_nat (length vs), v)]"
  by (simp add: json_indexed_def enumerate_append_eq)

lemma indexed_below:
  assumes "length vs < 2 ^ 31" and "a \<in> fst ` set (json_indexed vs)"
  shows "a < word_of_nat (length vs)"
proof -
  obtain i where i: "i < length vs" "a = word_of_nat i"
    using assms(2) by (auto simp: json_indexed_def in_set_enumerate_eq)
  then show ?thesis
    using assms(1) unat_of_nat32 [of i] unat_of_nat32 [of "length vs"] by (simp add: word_less_nat_alt)
qed

lemma small_index: "Suc k < 2 ^ 31 \<Longrightarrow> (word_of_nat k :: 32 word) \<noteq> 0x7FFFFFFF"
  using unat_of_nat32 [of k] by auto

lemma normal_comments [simp]: "Json (j_data (json_normal v)) no_comments = json_normal v"
  by (cases v) (simp add: json_of_def)

lemma null_comments [simp]: "j_comments nullSingleton = no_comments"
  by (simp add: nullSingleton_def json_of_def)

lemma delimited_spaces:
  "spaces ws \<Longrightarrow> x \<in> set '',]}'' \<Longrightarrow> delimited (ws @ x # l)"
  by (cases ws) (auto simp: delimited_def json_space_def)

text \<open>Reading one element: what the loops of arrays and objects share.\<close>

lemma read_child:
  assumes V: "reads_value rdbl v t"
    and len: "2 * length (rd_current rd) + 1 \<le> n" and cur: "rd_current rd = ws @ t @ rest"
    and ws: "spaces ws" and dl: "delimited rest" and nc: "rd_commentsBefore rd = []"
    and dp: "length (rd_nodes rd) + 1 + json_depth v \<le> stackLimit"
    and put: "put_node (currentValue rd) u r (rd_root rd)" and fr: "fresh_below s u"
  obtains rd2 r2 where "readValue rdbl n (push_node s rd) = Some (rd2, Inr True)"
    and "agrees rd (pop_node rd2) rest r2"
    and "put_node (currentValue rd) (put_below s (json_normal v) u) r r2"
proof -
  obtain r1 where push: "push_node s rd = rd\<lparr>rd_root := r1, rd_nodes := (currentValue rd @ [s]) # rd_nodes rd\<rparr>"
    and p1: "put_node (currentValue rd @ [s]) nullSingleton (rd_root rd) r1"
    using push_put [OF put fr] by blast
  let ?rd = "rd\<lparr>rd_root := r1, rd_nodes := (currentValue rd @ [s]) # rd_nodes rd\<rparr>"
  have cv: "currentValue ?rd = currentValue rd @ [s]" by (simp add: currentValue_def)
  have "\<exists>rd' r'. readValue rdbl n ?rd = Some (rd', Inr True) \<and> agrees ?rd rd' rest r' \<and>
      put_node (currentValue ?rd) (Json (j_data (json_normal v)) (j_comments nullSingleton)) (rd_root rd) r'"
    using V len cur ws dl nc dp p1 unfolding reads_value_def cv
    by (elim allE [of _ n] allE [of _ ?rd] allE [of _ ws] allE [of _ rest] allE [of _ nullSingleton]
        allE [of _ "rd_root rd"]) (simp add: cv)
  then obtain rd' r' where rd': "readValue rdbl n ?rd = Some (rd', Inr True)" "agrees ?rd rd' rest r'"
    "put_node (currentValue rd @ [s]) (json_normal v) (rd_root rd) r'"
    by (auto simp: cv)
  then show ?thesis
    using that [of rd' r'] push put_below_put [OF put fr] pop_push_current by metis
qed

lemma reads_elements_Cons:
  fixes rdbl :: "string \<Rightarrow> 'r option"
  assumes V: "reads_value rdbl v t" and E: "vs \<noteq> [] \<Longrightarrow> reads_elements rdbl vs ts"
    and sp: "spaces w" "spaces w'"
  shows "reads_elements rdbl (v # vs) (t @ w @ (if vs = [] then [] else '','' @ w' @ ts))"
  unfolding reads_elements_def
proof (intro allI impI, elim conjE)
  fix n and rd :: "'r reader" and ws rest "read" c r
  assume len: "2 * length (rd_current rd) + 2 \<le> n"
    and cur: "rd_current rd = ws @ (t @ w @ (if vs = [] then [] else '','' @ w' @ ts)) @ CHR '']'' # rest"
    and ws: "spaces ws"
    and nc: "rd_commentsBefore rd = []" and size: "length read + length (v # vs) < 2 ^ 31"
    and dp: "\<forall>v \<in> set (v # vs). length (rd_nodes rd) + 1 + json_depth v \<le> stackLimit"
    and put: "put_node (currentValue rd) (Json (J_array (json_indexed read)) c) r (rd_root rd)"
  let ?i = "word_of_nat (length read) :: 32 word"
  let ?rest = "w @ (if vs = [] then CHR '']'' # rest else CHR '','' # w' @ ts @ CHR '']'' # rest)"
  have dl: "delimited ?rest" using sp(1) by (simp add: delimited_spaces)
  obtain m where n: "n = Suc m" using len by (cases n) auto
  have i: "?i \<noteq> 0x7FFFFFFF" using size by (intro small_index) simp
  have fr: "fresh_below (Element ?i) (Json (J_array (json_indexed read)) c)"
    using indexed_below [of "read"] size by (simp add: fresh_below_def)
  obtain rd2 r2 where v: "readValue rdbl m (push_node (Element ?i) rd) = Some (rd2, Inr True)"
    and ag: "agrees rd (pop_node rd2) ?rest r2"
    and p2: "put_node (currentValue rd) (put_below (Element ?i) (json_normal v) (Json (J_array (json_indexed read)) c)) r r2"
    by (rule read_child [OF V, of rd m ws ?rest _ r "Element ?i"]) (use len cur ws dl nc dp put fr n in auto)
  have p2': "put_node (currentValue rd) (Json (J_array (json_indexed (read @ [json_normal v]))) c) r r2"
    using p2 by (simp add: put_below_def indexed_snoc)
  have cur2: "rd_current (pop_node rd2) = ?rest" using ag by (simp add: agrees_def)
  show "\<exists>rd' r'. read_elements rdbl n ?i rd = Some (rd', Inr True) \<and> agrees rd rd' rest r' \<and>
      put_node (currentValue rd) (Json (J_array (json_indexed (read @ map json_normal (v # vs)))) c) r r'"
  proof (cases "vs = []")
    case True
    with cur2 scans_readToken(2) [of "pop_node rd2", OF _]
    have "skip_comments (pop_node rd2) =
        (\<lparr>tk_type = tokenArrayEnd, tk_start = CHR '']'' # rest, tk_end = rest\<rparr>, (pop_node rd2)\<lparr>rd_current := rest\<rparr>)"
      by (simp add: scans_punct [folded spaces_def, OF sp(1)])
    then have "read_elements rdbl n ?i rd = Some ((pop_node rd2)\<lparr>rd_current := rest\<rparr>, Inr True)"
      using i v by (simp add: n after_element_def)
    moreover have "agrees rd ((pop_node rd2)\<lparr>rd_current := rest\<rparr>) rest r2" using ag by (simp add: agrees_def)
    ultimately show ?thesis using p2' True by auto
  next
    case False
    let ?l = "w' @ ts @ CHR '']'' # rest"
    let ?rd = "(pop_node rd2)\<lparr>rd_current := ?l\<rparr>"
    have "skip_comments (pop_node rd2) =
        (\<lparr>tk_type = tokenArraySeparator, tk_start = CHR '','' # ?l, tk_end = ?l\<rparr>, ?rd)"
      using cur2 False scans_readToken(2) [of "pop_node rd2"] by (simp add: scans_punct [folded spaces_def, OF sp(1)])
    then have "read_elements rdbl n ?i rd = read_elements rdbl m (word_of_nat (length (read @ [json_normal v]))) ?rd"
      using i v by (simp add: n after_element_def add.commute)
    moreover have "\<exists>rd' r'. read_elements rdbl m (word_of_nat (length (read @ [json_normal v]))) ?rd = Some (rd', Inr True) \<and>
        agrees ?rd rd' rest r' \<and>
        put_node (currentValue ?rd) (Json (J_array (json_indexed ((read @ [json_normal v]) @ map json_normal vs))) c) r r'"
      using E [OF False] unfolding reads_elements_def
      by (elim allE [of _ m] allE [of _ ?rd] allE [of _ w'] allE [of _ rest] allE [of _ "read @ [json_normal v]"] allE [of _ c] allE [of _ r])
        (use len cur nc size dp p2' ag n False sp in \<open>auto simp: agrees_def currentValue_def\<close>)
    ultimately show ?thesis using ag by (auto simp: agrees_def currentValue_def)
  qed
qed

lemma smap_ok_append:
  "smap_ok (<) (xs @ (k, x) # ys) \<Longrightarrow> \<forall>a \<in> fst ` set xs. a < k" for k :: "'k::linorder"
  by (auto simp: smap_ok_def sorted_wrt_append)

lemma read_member_name:
  assumes "scans (rd_current rd) tokenString (valueToQuotedStringN k @ l) l"
    and "scans l tokenMemberSeparator (CHR '':'' # m) m"
  shows "read_members rdbl (Suc n) name rd =
    after_member (read_members rdbl n k) (readValue rdbl n (push_node (Member k) (rd\<lparr>rd_current := m\<rparr>)))"
proof -
  have "readToken (rd\<lparr>rd_current := l\<rparr>) =
      (\<lparr>tk_type = tokenMemberSeparator, tk_start = CHR '':'' # m, tk_end = m\<rparr>, rd\<lparr>rd_current := m\<rparr>)"
    using scans_readToken(1) [of "rd\<lparr>rd_current := l\<rparr>"] assms(2) by simp
  then show ?thesis
    by (simp add: scans_readToken(2) [OF assms(1)] read_name_def decodeString_quoted)
qed

lemma reads_members_Cons:
  fixes rdbl :: "string \<Rightarrow> 'r option"
  assumes V: "reads_value rdbl v t" and M: "ms \<noteq> [] \<Longrightarrow> reads_members rdbl ms ts"
    and sp: "spaces w" "spaces w1" "spaces w2" "spaces w'"
  shows "reads_members rdbl ((k, v) # ms)
    (valueToQuotedStringN k @ w1 @ '':'' @ w2 @ t @ w @ (if ms = [] then [] else '','' @ w' @ ts))"
  unfolding reads_members_def
proof (intro allI impI, elim conjE)
  fix n and rd :: "'r reader" and ws rest name "read" c r
  assume len: "2 * length (rd_current rd) + 2 \<le> n"
    and cur: "rd_current rd = ws @ (valueToQuotedStringN k @ w1 @ '':'' @ w2 @ t @ w @
      (if ms = [] then [] else '','' @ w' @ ts)) @ CHR ''}'' # rest" and ws: "spaces ws"
    and nc: "rd_commentsBefore rd = []" and ok: "smap_ok (<) (read @ normal_members ((k, v) # ms))"
    and dp: "\<forall>m \<in> set ((k, v) # ms). length (rd_nodes rd) + 1 + json_depth (snd m) \<le> stackLimit"
    and put: "put_node (currentValue rd) (Json (J_object read) c) r (rd_root rd)"
  let ?rest = "w @ (if ms = [] then CHR ''}'' # rest else CHR '','' # w' @ ts @ CHR ''}'' # rest)"
  have dl: "delimited ?rest" using sp(1) by (simp add: delimited_spaces)
  let ?l = "w2 @ t @ ?rest" and ?q = "valueToQuotedStringN k"
  obtain m where n: "n = Suc m" using len by (cases n) auto
  have c1: "rd_current rd = ws @ ?q @ w1 @ CHR '':'' # ?l" using cur by auto
  have step: "read_members rdbl n name rd =
      after_member (read_members rdbl m k) (readValue rdbl m (push_node (Member k) (rd\<lparr>rd_current := ?l\<rparr>)))"
    unfolding n using scans_string [folded spaces_def, OF ws, of k "w1 @ CHR '':'' # ?l"]
      scans_punct(6) [folded spaces_def, OF sp(2), of ?l] c1
    by (intro read_member_name) simp_all
  let ?rd1 = "rd\<lparr>rd_current := ?l\<rparr>"
  have fr: "fresh_below (Member k) (Json (J_object read) c)"
    using smap_ok_append [of "read" k "json_normal v" "normal_members ms"] ok
    by (simp add: fresh_below_def normal_members_def)
  obtain rd2 r2 where v: "readValue rdbl m (push_node (Member k) ?rd1) = Some (rd2, Inr True)"
    and ag1: "agrees ?rd1 (pop_node rd2) ?rest r2"
    and p2: "put_node (currentValue ?rd1) (put_below (Member k) (json_normal v) (Json (J_object read) c)) r r2"
    by (rule read_child [OF V, of ?rd1 m w2 ?rest _ r "Member k"])
      (use len c1 nc dp put fr n sp dl in \<open>auto simp: currentValue_def\<close>)
  have ag: "agrees rd (pop_node rd2) ?rest r2" using ag1 by (simp add: agrees_def)
  have p2': "put_node (currentValue rd) (Json (J_object (read @ [(k, json_normal v)])) c) r r2"
    using p2 by (simp add: put_below_def currentValue_def)
  have cur2: "rd_current (pop_node rd2) = ?rest" using ag by (simp add: agrees_def)
  show "\<exists>rd' r'. read_members rdbl n name rd = Some (rd', Inr True) \<and> agrees rd rd' rest r' \<and>
      put_node (currentValue rd) (Json (J_object (read @ normal_members ((k, v) # ms))) c) r r'"
  proof (cases "ms = []")
    case True
    then have "readToken (pop_node rd2) =
        (\<lparr>tk_type = tokenObjectEnd, tk_start = CHR ''}'' # rest, tk_end = rest\<rparr>, (pop_node rd2)\<lparr>rd_current := rest\<rparr>)"
      using cur2 scans_readToken(1) [of "pop_node rd2"] by (simp add: scans_punct [folded spaces_def, OF sp(1)])
    then have "read_members rdbl n name rd = Some ((pop_node rd2)\<lparr>rd_current := rest\<rparr>, Inr True)"
      by (simp add: step v after_member_def)
    moreover have "agrees rd ((pop_node rd2)\<lparr>rd_current := rest\<rparr>) rest r2" using ag by (simp add: agrees_def)
    ultimately show ?thesis using p2' True by (auto simp: normal_members_def)
  next
    case False
    let ?m = "w' @ ts @ CHR ''}'' # rest"
    let ?rd = "(pop_node rd2)\<lparr>rd_current := ?m\<rparr>"
    have "readToken (pop_node rd2) =
        (\<lparr>tk_type = tokenArraySeparator, tk_start = CHR '','' # ?m, tk_end = ?m\<rparr>, ?rd)"
      using cur2 False scans_readToken(1) [of "pop_node rd2"] by (simp add: scans_punct [folded spaces_def, OF sp(1)])
    then have "read_members rdbl n name rd = read_members rdbl m k ?rd"
      by (simp add: step v after_member_def)
    moreover have "\<exists>rd' r'. read_members rdbl m k ?rd = Some (rd', Inr True) \<and> agrees ?rd rd' rest r' \<and>
        put_node (currentValue ?rd) (Json (J_object ((read @ [(k, json_normal v)]) @ normal_members ms)) c) r r'"
      using M [OF False] unfolding reads_members_def
      by (elim allE [of _ m] allE [of _ ?rd] allE [of _ w'] allE [of _ rest] allE [of _ k] allE [of _ "read @ [(k, json_normal v)]"]
          allE [of _ c] allE [of _ r])
        (use len c1 nc ok dp p2' ag n False sp in \<open>auto simp: agrees_def currentValue_def normal_members_def\<close>)
    ultimately show ?thesis using ag by (auto simp: agrees_def currentValue_def normal_members_def)
  qed
qed

text \<open>Values of one token.\<close>

lemma reads_simple:
  assumes "\<And>ws rest. spaces ws \<Longrightarrow> delimited rest \<Longrightarrow> scans (ws @ t @ rest) ty (t @ rest) rest"
    and "ty \<noteq> tokenObjectBegin" and "ty \<noteq> tokenArrayBegin"
    and "\<And>(rd :: 'r reader) rest. simple_data
      \<lparr>tk_type = ty, tk_start = t @ rest, tk_end = rest\<rparr> rd rdbl (j_data (json_normal v))"
  shows "reads_value rdbl v t"
  unfolding reads_value_def
proof (intro allI impI, elim conjE)
  fix n and rd :: "'r reader" and ws rest u r
  assume "2 * length (rd_current rd) + 1 \<le> n" and cur: "rd_current rd = ws @ t @ rest"
    and "spaces ws" and "delimited rest" and "rd_commentsBefore rd = []"
    and "length (rd_nodes rd) + json_depth v \<le> stackLimit" and "put_node (currentValue rd) u r (rd_root rd)"
  then show "\<exists>rd' r'. readValue rdbl n rd = Some (rd', Inr True) \<and> agrees rd rd' rest r' \<and>
      put_node (currentValue rd) (Json (j_data (json_normal v)) (j_comments u)) r r'"
    using assms by (intro readValue_simple [of rd ty "t @ rest"]) simp_all
qed

lemma simple_dataI:
  "tk_type t = tokenNumber \<Longrightarrow> decodeNumber rdbl t rd = (Some d, rd) \<Longrightarrow> simple_data t rd rdbl d"
  "tk_type t = tokenString \<Longrightarrow> decodeString t rd = (Some s, rd) \<Longrightarrow> simple_data t rd rdbl (J_string s)"
  "tk_type t = tokenTrue \<Longrightarrow> simple_data t rd rdbl (J_bool True)"
  "tk_type t = tokenFalse \<Longrightarrow> simple_data t rd rdbl (J_bool False)"
  "tk_type t = tokenNull \<Longrightarrow> simple_data t rd rdbl J_null"
  by (simp_all add: simple_data_def read_simple_def set_decoded_def)

lemma number_text_decimal: "number_text (decimal n)"
  by (auto simp: number_text_def)

lemma reads_scalars:
  "reads_value rdbl (Json J_null c) ''null''"
  "reads_value rdbl (Json (J_int i) c) (valueToString_int i)"
  "reads_value rdbl (Json (J_uint w) c) (valueToString_uint w)"
  "reads_value rdbl (Json (J_string s) c) (valueToQuotedStringN s)"
  "reads_value rdbl (Json (J_bool b) c) (valueToString_bool b)"
proof -
  show "reads_value rdbl (Json J_null c) ''null''"
    by (rule reads_simple [where ty = tokenNull])
      (auto simp: json_of_def spaces_def intro: simple_dataI scans_word(1) [simplified])
  show "reads_value rdbl (Json (J_int i) c) (valueToString_int i)"
    by (rule reads_simple [where ty = tokenNumber])
      (simp_all add: json_of_def spaces_def simple_dataI(1) decodeNumber_int scans_number number_text_int)
  show "reads_value rdbl (Json (J_uint w) c) (valueToString_uint w)"
    by (rule reads_simple [where ty = tokenNumber])
      (simp_all add: json_of_def spaces_def simple_dataI(1) decodeNumber_natural scans_number number_text_decimal
        valueToString_uint_decimal)
  show "reads_value rdbl (Json (J_string s) c) (valueToQuotedStringN s)"
    by (rule reads_simple [where ty = tokenString])
      (simp_all add: json_of_def spaces_def simple_dataI(2) decodeString_quoted scans_string)
  show "reads_value rdbl (Json (J_bool b) c) (valueToString_bool b)"
    by (cases b; rule reads_simple [where ty = "if b then tokenTrue else tokenFalse"])
      (auto simp: json_of_def spaces_def valueToString_bool_def intro: simple_dataI scans_word(2,3) [simplified])
qed

text \<open>A text starts with a character that is neither a space nor a bracket that closes.\<close>

definition starts_value :: "string \<Rightarrow> bool" where
  "starts_value s \<longleftrightarrow> s \<noteq> [] \<and> \<not> json_space (hd s) \<and> hd s \<noteq> CHR '']''"

lemma starts_number: "number_text s \<Longrightarrow> starts_value s"
proof -
  assume "number_text s"
  then obtain n where "s = decimal n \<or> s = CHR ''-'' # decimal n" by (auto simp: number_text_def)
  moreover have "is_digit (hd (decimal n))" using decimal_digits hd_in_set decimal_nonempty by blast
  ultimately show ?thesis by (auto simp: starts_value_def is_digit_def json_space_def)
qed

lemma starts_scalar:
  assumes "readable W colon sc" and "\<not> compound d" and "json_plain_data d"
  shows "starts_value (sc d)"
  using assms starts_number [OF number_text_int] starts_number [OF number_text_uint]
  by (cases d) (simp_all add: readable_def starts_value_def json_space_def valueToQuotedStringN_eq valueToString_bool_def)

lemma renders_starts:
  "renders_value W colon sc v t \<Longrightarrow> readable W colon sc \<Longrightarrow> json_plain v \<Longrightarrow> starts_value t"
  by (induction rule: renders_value.cases) (simp_all add: starts_scalar, simp_all add: starts_value_def json_space_def)

lemma starts_append: "starts_value t \<Longrightarrow> starts_value (t @ l)"
  by (cases t) (simp_all add: starts_value_def)

lemma elements_start:
  "renders_elements W colon sc vs t \<Longrightarrow> readable W colon sc \<Longrightarrow> \<forall>v \<in> set vs. json_plain v \<Longrightarrow> starts_value t"
proof (induction rule: renders_elements.cases)
  case (element_last w t ws)
  then show ?case using starts_append [OF renders_starts [of W colon sc w]] by simp
next
  case (element w t ws ws' us ts)
  then show ?case using starts_append [OF renders_starts [of W colon sc w]] by simp
qed

lemma skip_to_start: "spaces ws \<Longrightarrow> starts_value t \<Longrightarrow> skipSpaces (ws @ t @ l) = t @ l"
  unfolding spaces_def by (cases t) (simp_all add: skipSpaces_append skipSpaces_nonspace starts_value_def)

lemma depth_child: "e \<in> set es \<Longrightarrow> Suc (json_depth (snd e)) \<le> foldr (\<lambda>e m. max (Suc (json_depth (snd e))) m) es 0"
  by (induction es) auto

lemma array_child:
  assumes "x \<in> set (array_children es (json_size (Json (J_array es) c)))"
  shows "x = nullSingleton \<or> (\<exists>i. (i, x) \<in> set es)" and "es \<noteq> []"
proof -
  from assms have "\<exists>k. x = nullSingleton \<or> map_of es k = Some x"
    by (auto simp: array_children_def split: option.splits)
  then show "x = nullSingleton \<or> (\<exists>i. (i, x) \<in> set es)" by (auto dest: map_of_SomeD)
  show "es \<noteq> []" using assms by auto
qed

lemma depth_array_child:
  assumes "x \<in> set (array_children es (json_size (Json (J_array es) c)))"
  shows "Suc (json_depth x) \<le> json_depth (Json (J_array es) c)"
proof -
  obtain e es' where es: "es = e # es'" using array_child(2) [OF assms] by (cases es) auto
  have "Suc 0 \<le> json_depth (Json (J_array es) c)" by (simp add: es)
  moreover have "json_depth (nullSingleton :: 'b json) = 0" by (simp add: nullSingleton_def json_of_def)
  ultimately show ?thesis
    using array_child(1) [OF assms] depth_child [of _ es]
    by (auto simp: nullSingleton_def json_of_def)
qed

lemma plain_array_child:
  "json_plain (Json (J_array es) c) \<Longrightarrow> x \<in> set (array_children es (json_size (Json (J_array es) c))) \<Longrightarrow> json_plain x"
  using array_child(1) [of x es c] by (auto simp: nullSingleton_def json_of_def)

lemma length_array_children:
  assumes "json_plain (Json (J_array es) c)"
  shows "length (array_children es (json_size (Json (J_array es) c))) < 2 ^ 31"
proof -
  define k where "k = json_size (Json (J_array es) c)"
  have "uint k < 2 ^ 31" using assms by (simp add: k_def json_size_def)
  then have "unat k < 2 ^ 31" by (simp only: unat_eq_nat_uint nat_less_iff [OF uint_ge_0]) simp
  then show ?thesis unfolding k_def [symmetric] by (simp add: array_children_def)
qed

lemma reads_array:
  fixes rdbl :: "string \<Rightarrow> 'r option"
  assumes pl: "json_plain (Json (J_array es) c)"
    and E: "children_of es \<noteq> [] \<Longrightarrow> reads_elements rdbl (children_of es) t \<and> starts_value t"
    and T: "children_of es = [] \<Longrightarrow> t = []" and sp: "spaces w"
  shows "reads_value rdbl (Json (J_array es) c) (''['' @ w @ t @ '']'')"
  unfolding reads_value_def
proof (intro allI impI, elim conjE)
  fix n and rd :: "'r reader" and ws rest u r
  assume len: "2 * length (rd_current rd) + 1 \<le> n"
    and cur: "rd_current rd = ws @ (''['' @ w @ t @ '']'') @ rest"
    and ws: "spaces ws" and nc: "rd_commentsBefore rd = []"
    and dp: "length (rd_nodes rd) + json_depth (Json (J_array es) c) \<le> stackLimit"
    and put: "put_node (currentValue rd) u r (rd_root rd)"
  define vs where "vs = children_of es"
  note E = E [folded vs_def] and T = T [folded vs_def]
  have few: "length vs < 2 ^ 31" and deep: "\<forall>v \<in> set vs. Suc (json_depth v) \<le> json_depth (Json (J_array es) c)"
    using length_array_children [OF pl] depth_array_child [of _ es c] by (auto simp: vs_def json_size_def)
  have normal: "j_data (json_normal (Json (J_array es) c)) = J_array (json_indexed (map json_normal vs))"
    by (simp add: vs_def json_of_def json_size_def)
  let ?l = "t @ CHR '']'' # rest"
  have c1: "rd_current rd = ws @ CHR ''['' # w @ ?l" using cur by simp
  obtain m where n: "n = Suc m" using len by (cases n) auto
  let ?rd = "rd\<lparr>rd_current := w @ ?l\<rparr>"
  have put1: "put_node (currentValue ?rd) u r (rd_root ?rd)" using put by (simp add: currentValue_def)
  obtain r1 where sw: "swapPayload (J_array []) ?rd = ?rd\<lparr>rd_root := r1\<rparr>"
    and p1: "put_node (currentValue ?rd) (Json (J_array []) (j_comments u)) r r1"
    by (rule swap_put [OF put1])
  have st: "skipSpaces (w @ ?l) = ?l"
  proof (cases "vs = []")
    case True
    then show ?thesis using T sp by (simp add: spaces_def skipSpaces_append json_space_def)
  qed (use skip_to_start [OF sp] E in blast)
  let ?rd1 = "rd\<lparr>rd_root := r1, rd_current := ?l\<rparr>"
  have read: "readValue rdbl n rd =
      (if hd ?l = CHR '']'' then Some (finish_value (snd (readToken ?rd1), Inr True))
       else map_option finish_value (read_elements rdbl m 0 ?rd1))"
    using scans_readToken(3) [of rd] scans_punct(3) [folded spaces_def, OF ws, of "w @ ?l"] c1 nc dp sw st
    by (simp add: n attach_comments_def)
  show "\<exists>rd' r'. readValue rdbl n rd = Some (rd', Inr True) \<and> agrees rd rd' rest r' \<and>
      put_node (currentValue rd) (Json (j_data (json_normal (Json (J_array es) c))) (j_comments u)) r r'"
  proof (cases "vs = []")
    case True
    then have "readToken ?rd1 = (\<lparr>tk_type = tokenArrayEnd, tk_start = CHR '']'' # rest, tk_end = rest\<rparr>,
        rd\<lparr>rd_root := r1, rd_current := rest\<rparr>)"
      using T scans_readToken(1) [of ?rd1] scans_punct_here(4) [of rest] by simp
    with read True T have "readValue rdbl n rd = Some (value_read (rd\<lparr>rd_root := r1, rd_current := rest\<rparr>), Inr True)"
      by simp
    with p1 True show ?thesis
      by (auto simp: normal agrees_def currentValue_def json_indexed_def value_read_def simp del: json_normal.simps intro!: exI [of _ r1])
  next
    case False
    then have "hd ?l \<noteq> CHR '']''" using E by (auto simp: starts_value_def)
    with read have read1: "readValue rdbl n rd = map_option finish_value (read_elements rdbl m 0 ?rd1)"
      by simp
    have lim: "\<forall>v \<in> set vs. length (rd_nodes ?rd1) + 1 + json_depth v \<le> stackLimit"
      using dp deep by (fastforce simp del: json_depth.simps)
    have p2: "put_node (currentValue ?rd1) (Json (J_array (json_indexed [])) (j_comments u)) r (rd_root ?rd1)"
      using p1 by (simp add: currentValue_def json_indexed_def)
    have "\<exists>rd' r'. read_elements rdbl m (word_of_nat (length [])) ?rd1 = Some (rd', Inr True) \<and>
        agrees ?rd1 rd' rest r' \<and>
        put_node (currentValue ?rd1) (Json (J_array (json_indexed ([] @ map json_normal vs))) (j_comments u)) r r'"
      using E [OF False, THEN conjunct1] unfolding reads_elements_def
      by (elim allE [of _ m] allE [of _ ?rd1] allE [of _ "[]"] allE [of _ rest] allE [of _ "[]"]
          allE [of _ "j_comments u"] allE [of _ r])
        (use len c1 nc p2 n few lim in simp)
    then obtain rd' r' where e: "read_elements rdbl m (word_of_nat (length [])) ?rd1 = Some (rd', Inr True)"
      and ag: "agrees ?rd1 rd' rest r'"
      and p: "put_node (currentValue ?rd1) (Json (J_array (json_indexed ([] @ map json_normal vs))) (j_comments u)) r r'"
      by blast
    have "readValue rdbl n rd = Some (value_read rd', Inr True)" using read1 e by simp
    moreover have "agrees rd (value_read rd') rest r'" using ag by (simp add: agrees_def value_read_def)
    ultimately show ?thesis using p by (auto simp: normal currentValue_def simp del: json_normal.simps)
  qed
qed

lemma reads_object_empty:
  fixes rdbl :: "string \<Rightarrow> 'r option"
  assumes sp: "spaces w"
  shows "reads_value rdbl (Json (J_object []) c) (''{'' @ w @ ''}'')"
  unfolding reads_value_def
proof (intro allI impI, elim conjE)
  fix n and rd :: "'r reader" and ws rest u r
  assume len: "2 * length (rd_current rd) + 1 \<le> n"
    and cur: "rd_current rd = ws @ (''{'' @ w @ ''}'') @ rest"
    and ws: "spaces ws" and nc: "rd_commentsBefore rd = []" and dp: "length (rd_nodes rd) + json_depth (Json (J_object []) c) \<le> stackLimit"
    and put: "put_node (currentValue rd) u r (rd_root rd)"
  let ?l = "w @ CHR ''}'' # rest"
  have c1: "rd_current rd = ws @ CHR ''{'' # ?l" using cur by simp
  obtain m where n: "n = Suc (Suc m)" using len c1 by (cases n; cases "n - 1") auto
  let ?rd = "rd\<lparr>rd_current := ?l\<rparr>"
  have put1: "put_node (currentValue ?rd) u r (rd_root ?rd)" using put by (simp add: currentValue_def)
  obtain r1 where sw: "swapPayload (J_object []) ?rd = ?rd\<lparr>rd_root := r1\<rparr>"
    and p1: "put_node (currentValue ?rd) (Json (J_object []) (j_comments u)) r r1"
    by (rule swap_put [OF put1])
  let ?rd1 = "rd\<lparr>rd_current := ?l, rd_root := r1\<rparr>"
  have "readValue rdbl n rd = map_option finish_value (read_members rdbl (Suc m) [] ?rd1)"
    using scans_readToken(3) [of rd] scans_punct(1) [folded spaces_def, OF ws, of ?l] c1 nc dp sw
    by (simp add: n attach_comments_def)
  moreover have "skip_comments ?rd1 = (\<lparr>tk_type = tokenObjectEnd, tk_start = CHR ''}'' # rest, tk_end = rest\<rparr>,
      ?rd1\<lparr>rd_current := rest\<rparr>)"
    using scans_readToken(2) [of ?rd1] scans_punct(2) [folded spaces_def, OF sp, of rest] by simp
  ultimately have "readValue rdbl n rd = Some (value_read (?rd1\<lparr>rd_current := rest\<rparr>), Inr True)"
    by simp
  with p1 show "\<exists>rd' r'. readValue rdbl n rd = Some (rd', Inr True) \<and> agrees rd rd' rest r' \<and>
      put_node (currentValue rd) (Json (j_data (json_normal (Json (J_object []) c))) (j_comments u)) r r'"
    by (auto simp: agrees_def currentValue_def json_of_def value_read_def intro!: exI [of _ r1])
qed

lemma reads_object:
  fixes rdbl :: "string \<Rightarrow> 'r option"
  assumes ok: "smap_ok (<) ms" and M: "reads_members rdbl ms t" and sp: "spaces w"
  shows "reads_value rdbl (Json (J_object ms) c) (''{'' @ w @ t @ ''}'')"
  unfolding reads_value_def
proof (intro allI impI, elim conjE)
  fix n and rd :: "'r reader" and ws rest u r
  assume len: "2 * length (rd_current rd) + 1 \<le> n"
    and cur: "rd_current rd = ws @ (''{'' @ w @ t @ ''}'') @ rest"
    and ws: "spaces ws" and nc: "rd_commentsBefore rd = []"
    and dp: "length (rd_nodes rd) + json_depth (Json (J_object ms) c) \<le> stackLimit"
    and put: "put_node (currentValue rd) u r (rd_root rd)"
  let ?l = "w @ t @ CHR ''}'' # rest"
  have c1: "rd_current rd = ws @ CHR ''{'' # ?l" using cur by simp
  obtain m where n: "n = Suc (Suc m)" using len c1 by (cases n; cases "n - 1") auto
  let ?rd = "rd\<lparr>rd_current := ?l\<rparr>"
  have put1: "put_node (currentValue ?rd) u r (rd_root ?rd)" using put by (simp add: currentValue_def)
  obtain r1 where sw: "swapPayload (J_object []) ?rd = ?rd\<lparr>rd_root := r1\<rparr>"
    and p1: "put_node (currentValue ?rd) (Json (J_object []) (j_comments u)) r r1"
    by (rule swap_put [OF put1])
  let ?rd1 = "rd\<lparr>rd_current := ?l, rd_root := r1\<rparr>"
  have read: "readValue rdbl n rd = map_option finish_value (read_members rdbl (Suc m) [] ?rd1)"
    using scans_readToken(3) [of rd] scans_punct(1) [folded spaces_def, OF ws, of ?l] c1 nc dp sw
    by (simp add: n attach_comments_def)
  have deep: "\<forall>m \<in> set ms. length (rd_nodes ?rd1) + 1 + json_depth (snd m) \<le> stackLimit"
    using dp depth_child [of _ ms] by fastforce
  have keys: "smap_ok (<) ([] @ normal_members ms)"
    using ok by (simp add: normal_members_def smap_ok_def comp_def)
  have "\<exists>rd' r'. read_members rdbl (Suc m) [] ?rd1 = Some (rd', Inr True) \<and> agrees ?rd1 rd' rest r' \<and>
      put_node (currentValue ?rd1) (Json (J_object ([] @ normal_members ms)) (j_comments u)) r r'"
    using M unfolding reads_members_def
    by (elim allE [of _ "Suc m"] allE [of _ ?rd1] allE [of _ w] allE [of _ rest] allE [of _ "[]"] allE [of _ "[]"]
        allE [of _ "j_comments u"] allE [of _ r])
      (use len c1 nc p1 n deep keys sp in \<open>simp add: currentValue_def\<close>)
  then show "\<exists>rd' r'. readValue rdbl n rd = Some (rd', Inr True) \<and> agrees rd rd' rest r' \<and>
      put_node (currentValue rd) (Json (j_data (json_normal (Json (J_object ms) c))) (j_comments u)) r r'"
    by (auto simp: read agrees_def currentValue_def json_of_def value_read_def normal_members_def)
qed

lemma plain_children: "json_plain (Json (J_array es) c) \<Longrightarrow> \<forall>v \<in> set (children_of es). json_plain v"
  using plain_array_child [of es no_comments] by (auto simp: json_size_def)

text \<open>Every text of a value is read as the value.\<close>

lemma readable_spaces: "readable W colon sc \<Longrightarrow> W ws \<Longrightarrow> spaces ws"
  by (simp add: readable_def)

lemma reads_scalar:
  assumes "readable W colon sc" and "\<not> compound d" and "json_plain_data d"
  shows "reads_value rdbl (Json d c) (sc d)"
  using assms by (cases d) (simp_all add: readable_def reads_scalars)

lemma reads:
  assumes R: "readable W colon sc"
  shows "renders_value W colon sc v t \<Longrightarrow> json_plain v \<longrightarrow> reads_value rdbl v t"
    and "renders_elements W colon sc vs s \<Longrightarrow> (\<forall>v \<in> set vs. json_plain v) \<longrightarrow> reads_elements rdbl vs s"
    and "renders_members W colon sc ms q \<Longrightarrow> (\<forall>m \<in> set ms. json_plain (snd m)) \<longrightarrow> reads_members rdbl ms q"
proof (induction rule: renders_value_renders_elements_renders_members.inducts)
  case (scalar d c)
  then show ?case using reads_scalar [OF R] by simp
next
  case (array_empty es ws c)
  then show ?case using reads_array [of es c rdbl "[]" ws] R by (simp add: readable_def)
next
  case (array es t ws c)
  show ?case
  proof
    assume p: "json_plain (Json (J_array es) c)"
    then have "reads_elements rdbl (children_of es) t" using array plain_children by blast
    with array p show "reads_value rdbl (Json (J_array es) c) (''['' @ ws @ t @ '']'')"
      using elements_start [OF array(1) R plain_children [OF p]] renders_nonempty(1) [OF array(1)] R
      by (intro reads_array) (auto simp: readable_def)
  qed
next
  case (object_empty ws c)
  then show ?case using reads_object_empty [of ws rdbl c] readable_spaces [OF R] by simp
next
  case (object ms t ws c)
  then show ?case using reads_object [of ms rdbl t ws c] R by (auto simp: readable_def)
next
  case (element_last v t ws)
  then show ?case using reads_elements_Cons [of rdbl v t "[]" _ ws "[]"] R by (simp add: readable_def)
next
  case (element v t ws ws' vs ts)
  then have "reads_elements rdbl (v # vs) (t @ ws @ (if vs = [] then [] else '','' @ ws' @ ts))"
    if "\<forall>v \<in> set (v # vs). json_plain v" using that R by (intro reads_elements_Cons) (auto simp: readable_def)
  moreover have "vs \<noteq> []" using element renders_nonempty(1) by blast
  ultimately show ?case by auto
next
  case (member_last v t ws' ws k)
  obtain w1 w2 where c: "colon = w1 @ '':'' @ w2" "spaces w1" "spaces w2" using R by (auto simp: readable_def)
  from member_last c show ?case
    using reads_members_Cons [of rdbl v t "[]" _ ws w1 "w2 @ ws'" "[]" k] R by (simp add: readable_def)
next
  case (member v t ws1 ws ws' ms ts k)
  obtain w1 w2 where c: "colon = w1 @ '':'' @ w2" "spaces w1" "spaces w2" using R by (auto simp: readable_def)
  have "reads_members rdbl ((k, v) # ms)
      (valueToQuotedStringN k @ w1 @ '':'' @ (w2 @ ws1) @ t @ ws @ (if ms = [] then [] else '','' @ ws' @ ts))"
    if "\<forall>m \<in> set ((k, v) # ms). json_plain (snd m)"
    using that member c R by (intro reads_members_Cons) (auto simp: readable_def)
  moreover have "ms \<noteq> []" using member renders_nonempty(2) by blast
  ultimately show ?case by (auto simp: c)
qed

end
