(* ===== verification/Json_Roundtrip.thy ===== *)
theory Json_Roundtrip
  imports Json_Render
begin

text \<open>
  What \<^verbatim>\<open>Json::FastWriter\<close> writes is a text of the value, and \<^verbatim>\<open>Json::Reader\<close> reads back every text of a
  value, also with white space around it.
\<close>

section \<open>Writing and reading\<close>

lemma skip_at_end:
  assumes "skipSpaces (rd_current rd) = [] \<or> hd (skipSpaces (rd_current rd)) = CHR 0x00"
  shows "\<exists>t l. skipCommentTokens rd = (t, rd\<lparr>rd_current := l\<rparr>)"
proof -
  obtain l where "getNextChar (skipSpaces (rd_current rd)) = (CHR 0x00, l)"
    using assms by (cases "skipSpaces (rd_current rd)") auto
  then have r: "\<exists>t. readToken rd = (t, rd\<lparr>rd_current := l\<rparr>) \<and> tk_type t = tokenEndOfStream"
    by (simp add: readToken_def scan_token_def is_digit_def)
  then have "skip_comments rd = readToken rd" by (subst skip_comments.simps) auto
  with r show ?thesis by (auto simp: skipCommentTokens_def)
qed

lemma reads_valueD:
  assumes "reads_value rdbl v t" and "2 * length (rd_current rd) + 1 \<le> n"
    and "rd_current rd = ws @ t @ rest" and "spaces ws"
    and "delimited rest" and "rd_commentsBefore rd = []"
    and "length (rd_nodes rd) + json_depth v \<le> stackLimit"
    and "put_node (currentValue rd) u r (rd_root rd)"
  obtains rd' r' where "readValue rdbl n rd = Some (rd', Inr True)" and "agrees rd rd' rest r'"
    and "put_node (currentValue rd) (Json (j_data (json_normal v)) (j_comments u)) r r'"
  using assms unfolding reads_value_def by blast

lemma normal_root:
  "isArray (Json (j_data (json_normal v)) c) = isArray v" "isObject (Json (j_data (json_normal v)) c) = isObject v"
proof -
  obtain d c' where v: "v = Json d c'" by (cases v)
  show "isArray (Json (j_data (json_normal v)) c) = isArray v" "isObject (Json (j_data (json_normal v)) c) = isObject v"
    by (cases d; simp add: v isArray_def isObject_def json_type_def json_of_def json_normal_int_def json_normal_uint_def)+
qed

lemma delimited_end: "spaces ws \<Longrightarrow> l = [] \<or> hd l = CHR 0x00 \<Longrightarrow> delimited (ws @ l)"
  by (cases ws; cases l) (auto simp: delimited_def json_space_def)

lemma parse_text:
  fixes rdbl :: "string \<Rightarrow> 'r option"
  assumes R: "readable W colon sc" and t: "renders_value W colon sc v t" and pl: "json_plain v" and dp: "json_depth v < stackLimit"
    and strict: "strictRoot (rd_features rd) \<Longrightarrow> isArray v \<or> isObject v"
    and w: "spaces w" "spaces w'" and spare: "spare = [] \<or> hd spare = CHR 0x00"
  shows "\<exists>rd'. parse_string rdbl (w @ t @ w') spare root collectComments rd = Some (rd', Inr True) \<and>
    rd_root rd' = Json (j_data (json_normal v)) (j_comments root) \<and> good rd'"
proof -
  let ?doc = "w @ t @ w' @ spare"
  let ?rd = "start_reader ?doc root collectComments rd"
  have cv: "currentValue ?rd = []" by (simp add: start_reader_def currentValue_def)
  have st: "2 * length (rd_current ?rd) + 1 \<le> reader_fuel ?doc" "rd_current ?rd = w @ t @ (w' @ spare)"
    "rd_commentsBefore ?rd = []" "length (rd_nodes ?rd) + json_depth v \<le> stackLimit"
    "put_node (currentValue ?rd) root root (rd_root ?rd)"
    using dp unfolding cv put_node_Nil by (simp_all add: start_reader_def reader_fuel_def)
  obtain rd1 r1 where r: "readValue rdbl (reader_fuel ?doc) ?rd = Some (rd1, Inr True)"
    and ag1: "agrees ?rd rd1 (w' @ spare) r1"
    and p: "put_node (currentValue ?rd) (Json (j_data (json_normal v)) (j_comments root)) root r1"
    by (rule reads_valueD [OF mp [OF reads(1) [OF R t] pl] st(1,2) w(1) delimited_end [OF w(2) spare] st(3-5)])
  have ag: "agrees ?rd rd1 (w' @ spare) (Json (j_data (json_normal v)) (j_comments root))"
    using ag1 p by (simp add: cv put_node_Nil)
  have "skipSpaces (w' @ spare) = spare"
    using w(2) spare by (cases spare) (auto simp: spaces_def skipSpaces_append skipSpaces_def json_space_def)
  with spare ag have "skipSpaces (rd_current rd1) = [] \<or> hd (skipSpaces (rd_current rd1)) = CHR 0x00"
    by (auto simp: agrees_def)
  from skip_at_end [OF this] obtain tk l where "skipCommentTokens rd1 = (tk, rd1\<lparr>rd_current := l\<rparr>)" by blast
  moreover have f: "rd_commentsBefore rd1 = []" "rd_errors rd1 = []" "rd_features rd1 = rd_features rd"
    "rd_root rd1 = Json (j_data (json_normal v)) (j_comments root)"
    using ag by (simp_all add: agrees_def start_reader_def)
  ultimately have "parse_string rdbl (w @ t @ w') spare root collectComments rd =
      Some (rd1\<lparr>rd_current := l\<rparr>, Inr True)"
    using r strict by (auto simp: parse_string_def Reader_parse_def normal_root Let_def)
  with f show ?thesis by (auto simp: good_def)
qed

text \<open>The fast writer puts no white space between tokens, and what it writes is the only such text.\<close>

definition no_space :: "string \<Rightarrow> bool" where
  "no_space ws \<longleftrightarrow> ws = []"

lemma no_space [simp]: "no_space []" and no_spaceD: "no_space ws \<Longrightarrow> ws = []"
  by (simp_all add: no_space_def)

definition fast_colon :: "fast_writer \<Rightarrow> string" where
  "fast_colon fw = (if fw_yaml fw then '': '' else '':'')"

definition fast_scalar :: "'r printf \<Rightarrow> fast_writer \<Rightarrow> 'r json_data \<Rightarrow> string" where
  "fast_scalar real fw d = fast_value real fw (Json d no_comments)"

lemma fast_scalar:
  "\<not> compound d \<Longrightarrow> fast_scalar real fw d = fast_value real fw (Json d c)"
  by (cases d) (simp_all add: fast_scalar_def)

lemma fast_readable:
  assumes "\<not> fw_dropNull fw"
  shows "readable no_space (fast_colon fw) (fast_scalar real fw)"
proof -
  have "fast_colon fw = [] @ '':'' @ (if fw_yaml fw then '' '' else []) \<and>
      spaces [] \<and> spaces (if fw_yaml fw then '' '' else [])"
    by (simp add: fast_colon_def json_space_def)
  then have "\<exists>w1 w2. fast_colon fw = w1 @ '':'' @ w2 \<and> spaces w1 \<and> spaces w2" by blast
  with assms show ?thesis by (simp add: readable_def fast_scalar_def no_space_def)
qed

lemma fast_renders:
  "renders_value no_space (fast_colon fw) (fast_scalar real fw) v (fast_value real fw v)"
  "vs \<noteq> [] \<Longrightarrow> renders_elements no_space (fast_colon fw) (fast_scalar real fw) vs (fast_elements real fw vs)"
  "ms \<noteq> [] \<Longrightarrow> renders_members no_space (fast_colon fw) (fast_scalar real fw) ms (fast_members real fw ms)"
proof (induction real fw v and real fw vs and real fw ms
    rule: fast_value_fast_elements_fast_members.induct)
  case (1 real fw d c)
  show ?case
  proof (cases d)
    case (J_array es)
    define vs where "vs = children_of es"
    have ch: "array_children es (json_size (Json (J_array es) c)) = vs" by (simp add: vs_def json_size_def)
    have "fast_value real fw (Json d c) = ''['' @ fast_elements real fw vs @ '']''"
      unfolding ch [symmetric] by (simp add: J_array)
    then show ?thesis
      using array_empty [of es no_space "[]"] array [of no_space _ _ es _ "[]"] 1(1) [OF J_array]
      unfolding J_array ch vs_def [symmetric] by (cases "vs = []") simp_all
  next
    case (J_object ms)
    show ?thesis
      using object_empty [of no_space "[]"] object [of no_space _ _ ms _ "[]"] 1(2) [OF J_object]
      by (cases "ms = []") (auto simp: J_object)
  qed (use scalar [of d no_space "fast_colon fw" "fast_scalar real fw" c] fast_scalar [of d real fw c] in simp_all)
next
  case (3 real fw v vs)
  then show ?case
    using element_last [of no_space _ _ v _ "[]"] element [of no_space _ _ v _ "[]" "[]" vs]
    by (cases "vs = []") simp_all
next
  case (5 real fw name v ms)
  then show ?case
    using member_last [of no_space "fast_colon fw" _ v _ "[]" "[]" name]
      member [of no_space "fast_colon fw" _ v _ "[]" "[]" "[]" ms _ name]
    by (cases "ms = []") (simp_all add: fast_colon_def)
qed simp_all

lemma fast_unique:
  "renders_value no_space (fast_colon fw) (fast_scalar real fw) v t \<Longrightarrow> t = fast_value real fw v"
  "renders_elements no_space (fast_colon fw) (fast_scalar real fw) vs s \<Longrightarrow> s = fast_elements real fw vs"
  "renders_members no_space (fast_colon fw) (fast_scalar real fw) ms q \<Longrightarrow> q = fast_members real fw ms"
proof (induction rule: renders_value_renders_elements_renders_members.inducts)
  case (scalar d c)
  then show ?case by (rule fast_scalar)
next
  case (element v t ws ws' vs ts)
  moreover have "vs \<noteq> []" using element renders_nonempty(1) by blast
  ultimately show ?case by (cases vs) (auto dest!: no_spaceD)
next
  case (member v t ws1 ws ws' ms ts k)
  moreover have "ms \<noteq> []" using member renders_nonempty(2) by blast
  ultimately show ?case by (cases ms) (auto simp: fast_colon_def dest!: no_spaceD)
qed (auto simp: fast_colon_def json_size_def dest!: no_spaceD)

text \<open>C12: what the fast writer writes is read back: the reader succeeds without an error
  and yields the value that was written, for every value without reals whose nesting stays below
  the stack limit of the reader, with its integers in the type the reader gives them, null in the
  holes of its arrays and without its comments. This holds for all options of the writer that keep
  null values, all options of the reader that allow the root, and whatever follows the document in
  memory, if that starts with the NUL that ends the string.\<close>

theorem json_roundtrip:
  fixes rdbl :: "string \<Rightarrow> 'r option"
  assumes "json_plain v" and "json_depth v < stackLimit" and "\<not> fw_dropNull fw"
    and "strictRoot (rd_features rd) \<Longrightarrow> isArray v \<or> isObject v"
    and "spare = [] \<or> hd spare = CHR 0x00"
  shows "\<exists>rd'. parse_string rdbl (FastWriter_write real fw v) spare root collectComments rd =
      Some (rd', Inr True) \<and>
    rd_root rd' = Json (j_data (json_normal v)) (j_comments root) \<and> good rd'"
proof -
  have lf: "spaces (if fw_omitLF fw then [] else [CHR 0x0A])" by (simp add: json_space_def)
  show ?thesis
    using parse_text [where w = "[]", OF fast_readable [OF assms(3)] fast_renders(1) assms(1,2,4) _ lf assms(5)]
    by (simp add: FastWriter_write_def)
qed

definition sample_json :: "unit json" where
  "sample_json = json_of (J_object
     [(''a'', json_of (J_array [(0, json_of (J_int 1)), (1, json_of (J_string [CHR 0x22, CHR 0x00]))])),
      (''b'', json_of (J_uint 5))])"

theorem json_roundtrip_witness:
  "\<exists>rd'. parse_string (\<lambda>_. None) (FastWriter_write (plain_printf (\<lambda>_. [])) FastWriter_new sample_json) [CHR 0x00, CHR ''x''] nullSingleton
      True (Reader_new nullSingleton strictMode) = Some (rd', Inr True) \<and>
    rd_root rd' = Json (j_data (json_normal sample_json)) no_comments \<and> good rd'"
  using json_roundtrip [of sample_json FastWriter_new "Reader_new nullSingleton strictMode" "[CHR 0x00, CHR ''x'']"
      "\<lambda>_. None" "plain_printf (\<lambda>_. [])" nullSingleton True]
  by (simp add: sample_json_def json_of_def stackLimit_def FastWriter_new_def isObject_def json_type_def
      json_size_def)

end
