(* ===== verification/Json_Compare.thy ===== *)
theory Json_Compare
  imports Json_Writer
begin

text \<open>
  Comparison of JSON values: \<^verbatim>\<open>operator<\<close>, \<^verbatim>\<open>operator==\<close> and \<^verbatim>\<open>compare\<close> of \<^verbatim>\<open>Json::Value\<close>. Arrays and
  objects compare as the maps they are: by their number of entries, and then entry by entry,
  index or name first. How reals compare is a parameter.
\<close>

section \<open>The operators\<close>

fun type_index :: "value_type \<Rightarrow> int" where
  "type_index nullValue = 0"
| "type_index intValue = 1"
| "type_index uintValue = 2"
| "type_index realValue = 3"
| "type_index stringValue = 4"
| "type_index booleanValue = 5"
| "type_index arrayValue = 6"
| "type_index objectValue = 7"

text \<open>\<^verbatim>\<open>memcmp\<close> of the common length decides first, then the lengths.\<close>

fun memcmp :: "string \<Rightarrow> string \<Rightarrow> int" where
  "memcmp (c # s) (d # t) =
     (if c = d then memcmp s t else if (of_char c :: nat) < of_char d then - 1 else 1)"
| "memcmp _ _ = 0"

definition string_less :: "string \<Rightarrow> string \<Rightarrow> bool" where
  "string_less s t =
     (let comp = memcmp s t
      in if comp < 0 then True else if 0 < comp then False else length s < length t)"

definition string_equal :: "string \<Rightarrow> string \<Rightarrow> bool" where
  "string_equal s t \<longleftrightarrow> length s = length t \<and> memcmp s t = 0"

text \<open>\<^verbatim>\<open>int(size() - other.size())\<close>: the difference of two 64-bit sizes, cut to 32 bits.\<close>

definition size_delta :: "nat \<Rightarrow> nat \<Rightarrow> int" where
  "size_delta m n = sint (ucast (word_of_nat m - word_of_nat n :: 64 word) :: 32 word)"

abbreviation (input) entries_size :: "('k \<times> 'r json) list \<Rightarrow> nat" where
  "entries_size \<equiv> size_list (size_prod (\<lambda>_. 0) size)"

lemma data_size: "size (j_data v) < size v"
  by (cases v) simp

text \<open>
  \<^verbatim>\<open>std::map\<close> compares lexicographically. The pairs compare by their first component, and by
  their second when the first ones are equivalent.
\<close>

function
  json_less :: "('r \<Rightarrow> 'r \<Rightarrow> bool) \<Rightarrow> 'r json \<Rightarrow> 'r json \<Rightarrow> bool" and
  data_less :: "('r \<Rightarrow> 'r \<Rightarrow> bool) \<Rightarrow> 'r json_data \<Rightarrow> 'r json_data \<Rightarrow> bool" and
  elements_less :: "('r \<Rightarrow> 'r \<Rightarrow> bool) \<Rightarrow> (32 word \<times> 'r json) list \<Rightarrow> (32 word \<times> 'r json) list \<Rightarrow> bool" and
  members_less :: "('r \<Rightarrow> 'r \<Rightarrow> bool) \<Rightarrow> (string \<times> 'r json) list \<Rightarrow> (string \<times> 'r json) list \<Rightarrow> bool"
where
  "json_less rl (Json d c) w =
     (let typeDelta = type_index (json_type (Json d c)) - type_index (json_type w)
      in if typeDelta \<noteq> 0 then typeDelta < 0 else data_less rl d (j_data w))"
| "data_less rl (J_int i) e = (case e of J_int j \<Rightarrow> i <s j | _ \<Rightarrow> False)"
| "data_less rl (J_uint i) e = (case e of J_uint j \<Rightarrow> i < j | _ \<Rightarrow> False)"
| "data_less rl (J_real x) e = (case e of J_real y \<Rightarrow> rl x y | _ \<Rightarrow> False)"
| "data_less rl (J_bool x) e = (case e of J_bool y \<Rightarrow> \<not> x \<and> y | _ \<Rightarrow> False)"
| "data_less rl (J_string s) e = (case e of J_string t \<Rightarrow> string_less s t | _ \<Rightarrow> False)"
| "data_less rl (J_array es) e =
     (case e of
        J_array fs \<Rightarrow>
          (let delta = size_delta (length es) (length fs)
           in if delta \<noteq> 0 then delta < 0 else elements_less rl es fs)
      | _ \<Rightarrow> False)"
| "data_less rl (J_object ms) e =
     (case e of
        J_object ns \<Rightarrow>
          (let delta = size_delta (length ms) (length ns)
           in if delta \<noteq> 0 then delta < 0 else members_less rl ms ns)
      | _ \<Rightarrow> False)"
| "data_less rl J_null e = False"
| "elements_less rl [] fs = (fs \<noteq> [])"
| "elements_less rl ((i, v) # es) fs =
     (case fs of
        [] \<Rightarrow> False
      | (j, w) # gs \<Rightarrow>
          if i < j \<or> \<not> j < i \<and> json_less rl v w then True
          else if j < i \<or> \<not> i < j \<and> json_less rl w v then False
          else elements_less rl es gs)"
| "members_less rl [] fs = (fs \<noteq> [])"
| "members_less rl ((i, v) # es) fs =
     (case fs of
        [] \<Rightarrow> False
      | (j, w) # gs \<Rightarrow>
          if string_less i j \<or> \<not> string_less j i \<and> json_less rl v w then True
          else if string_less j i \<or> \<not> string_less i j \<and> json_less rl w v then False
          else members_less rl es gs)"
  by pat_completeness auto
termination
  by (relation "measure (\<lambda>x. case x of
      Inl (Inl (_, v, w)) \<Rightarrow> size v + size w
    | Inl (Inr (_, d, e)) \<Rightarrow> size d + size e
    | Inr (Inl (_, es, fs)) \<Rightarrow> entries_size es + entries_size fs
    | Inr (Inr (_, ms, ns)) \<Rightarrow> entries_size ms + entries_size ns)")
    (auto simp: less_Suc_eq data_size)

declare json_less.simps [simp del]

fun
  json_equal :: "('r \<Rightarrow> 'r \<Rightarrow> bool) \<Rightarrow> 'r json \<Rightarrow> 'r json \<Rightarrow> bool" and
  data_equal :: "('r \<Rightarrow> 'r \<Rightarrow> bool) \<Rightarrow> 'r json_data \<Rightarrow> 'r json_data \<Rightarrow> bool" and
  elements_equal :: "('r \<Rightarrow> 'r \<Rightarrow> bool) \<Rightarrow> (32 word \<times> 'r json) list \<Rightarrow> (32 word \<times> 'r json) list \<Rightarrow> bool" and
  members_equal :: "('r \<Rightarrow> 'r \<Rightarrow> bool) \<Rightarrow> (string \<times> 'r json) list \<Rightarrow> (string \<times> 'r json) list \<Rightarrow> bool"
where
  "json_equal re (Json d c) w =
     (if json_type (Json d c) \<noteq> json_type w then False else data_equal re d (j_data w))"
| "data_equal re (J_int i) e = (case e of J_int j \<Rightarrow> i = j | _ \<Rightarrow> False)"
| "data_equal re (J_uint i) e = (case e of J_uint j \<Rightarrow> i = j | _ \<Rightarrow> False)"
| "data_equal re (J_real x) e = (case e of J_real y \<Rightarrow> re x y | _ \<Rightarrow> False)"
| "data_equal re (J_bool x) e = (case e of J_bool y \<Rightarrow> x = y | _ \<Rightarrow> False)"
| "data_equal re (J_string s) e = (case e of J_string t \<Rightarrow> string_equal s t | _ \<Rightarrow> False)"
| "data_equal re (J_array es) e =
     (case e of J_array fs \<Rightarrow> length es = length fs \<and> elements_equal re es fs | _ \<Rightarrow> False)"
| "data_equal re (J_object ms) e =
     (case e of J_object ns \<Rightarrow> length ms = length ns \<and> members_equal re ms ns | _ \<Rightarrow> False)"
| "data_equal re J_null e = (e = J_null)"
| "elements_equal re [] fs = True"
| "elements_equal re ((i, v) # es) fs =
     (case fs of [] \<Rightarrow> False | (j, w) # gs \<Rightarrow> i = j \<and> json_equal re v w \<and> elements_equal re es gs)"
| "members_equal re [] fs = True"
| "members_equal re ((i, v) # es) fs =
     (case fs of [] \<Rightarrow> False | (j, w) # gs \<Rightarrow> string_equal i j \<and> json_equal re v w \<and> members_equal re es gs)"

definition json_greater :: "('r \<Rightarrow> 'r \<Rightarrow> bool) \<Rightarrow> 'r json \<Rightarrow> 'r json \<Rightarrow> bool" where
  "json_greater rl v w \<longleftrightarrow> json_less rl w v"

definition json_less_eq :: "('r \<Rightarrow> 'r \<Rightarrow> bool) \<Rightarrow> 'r json \<Rightarrow> 'r json \<Rightarrow> bool" where
  "json_less_eq rl v w \<longleftrightarrow> \<not> json_less rl w v"

definition json_greater_eq :: "('r \<Rightarrow> 'r \<Rightarrow> bool) \<Rightarrow> 'r json \<Rightarrow> 'r json \<Rightarrow> bool" where
  "json_greater_eq rl v w \<longleftrightarrow> \<not> json_less rl v w"

definition json_compare :: "('r \<Rightarrow> 'r \<Rightarrow> bool) \<Rightarrow> 'r json \<Rightarrow> 'r json \<Rightarrow> int" where
  "json_compare rl v w = (if json_less rl v w then - 1 else if json_greater rl v w then 1 else 0)"

section \<open>Strings\<close>

lemma Nil_less [simp]: "[] < xs \<longleftrightarrow> xs \<noteq> []" for xs :: "'a :: linorder list"
  by (cases xs) simp_all

lemma memcmp_less: "memcmp s t < 0 \<or> memcmp s t = 0 \<and> length s < length t \<longleftrightarrow> s < t"
  by (induction s t rule: memcmp.induct) (auto simp: less_char_def [symmetric])

lemma memcmp_greater: "0 < memcmp s t \<or> memcmp s t = 0 \<and> length t < length s \<longleftrightarrow> t < s"
  by (induction s t rule: memcmp.induct) (auto simp: less_char_def [symmetric])

lemma string_less [simp]: "string_less s t \<longleftrightarrow> s < t"
  using memcmp_less [of s t] by (auto simp: string_less_def Let_def)

lemma memcmp_refl [simp]: "memcmp s s = 0"
  by (induction s) simp_all

lemma string_equal [simp]: "string_equal s t \<longleftrightarrow> s = t"
  using memcmp_less [of s t] memcmp_greater [of s t] by (auto simp: string_equal_def) 


section \<open>Lexicographic comparison\<close>

definition pair_less :: "('k \<Rightarrow> 'k \<Rightarrow> bool) \<Rightarrow> ('v \<Rightarrow> 'v \<Rightarrow> bool) \<Rightarrow> 'k \<times> 'v \<Rightarrow> 'k \<times> 'v \<Rightarrow> bool" where
  "pair_less kl vl p q \<longleftrightarrow> kl (fst p) (fst q) \<or> \<not> kl (fst q) (fst p) \<and> vl (snd p) (snd q)"

fun lex_less :: "('a \<Rightarrow> 'a \<Rightarrow> bool) \<Rightarrow> 'a list \<Rightarrow> 'a list \<Rightarrow> bool" where
  "lex_less l [] ys \<longleftrightarrow> ys \<noteq> []"
| "lex_less l (x # xs) [] \<longleftrightarrow> False"
| "lex_less l (x # xs) (y # ys) \<longleftrightarrow> l x y \<or> \<not> l y x \<and> lex_less l xs ys"

lemma elements_less: "elements_less rl es fs = lex_less (pair_less (<) (json_less rl)) es fs"
proof (induction es arbitrary: fs)
  case (Cons p es)
  note IH = Cons.IH
  obtain i v where p: "p = (i, v)" by (cases p)
  show ?case
  proof (cases fs)
    case (Cons q gs)
    obtain j w where "q = (j, w)" by (cases q)
    then show ?thesis by (simp add: p Cons IH pair_less_def)
  qed (simp add: p)
qed simp

lemma members_less: "members_less rl es fs = lex_less (pair_less (<) (json_less rl)) es fs"
proof (induction es arbitrary: fs)
  case (Cons p es)
  note IH = Cons.IH
  obtain i v where p: "p = (i, v)" by (cases p)
  show ?case
  proof (cases fs)
    case (Cons q gs)
    obtain j w where "q = (j, w)" by (cases q)
    then show ?thesis by (simp add: p Cons IH pair_less_def)
  qed (simp add: p)
qed simp

text \<open>Exactly one of less, equal and greater.\<close>

definition trichotomy :: "bool \<Rightarrow> bool \<Rightarrow> bool \<Rightarrow> bool" where
  "trichotomy l e g \<longleftrightarrow> (l \<and> \<not> e \<and> \<not> g) \<or> (\<not> l \<and> e \<and> \<not> g) \<or> (\<not> l \<and> \<not> e \<and> g)"

lemma trichotomyD:
  assumes "trichotomy l e g"
  shows "l \<longleftrightarrow> \<not> e \<and> \<not> g" and "g \<longleftrightarrow> \<not> l \<and> \<not> e" and "e \<longleftrightarrow> \<not> l \<and> \<not> g"
  using assms by (auto simp: trichotomy_def)

lemma pair_trichotomy:
  fixes i j :: "'k :: linorder"
  assumes "trichotomy (vl v w) e (vl w v)"
  shows "trichotomy (pair_less (<) vl (i, v) (j, w)) (i = j \<and> e) (pair_less (<) vl (j, w) (i, v))"
  using assms by (cases i j rule: linorder_cases) (auto simp: trichotomy_def pair_less_def)

lemma lex_trichotomy:
  assumes "\<And>x y. x \<in> set xs \<Longrightarrow> y \<in> set ys \<Longrightarrow> trichotomy (l x y) (f x = f y) (l y x)"
  shows "trichotomy (lex_less l xs ys) (map f xs = map f ys) (lex_less l ys xs)"
  using assms
proof (induction xs arbitrary: ys)
  case Nil
  then show ?case by (cases ys) (simp_all add: trichotomy_def)
next
  case (Cons x xs)
  show ?case
  proof (cases ys)
    case (Cons y zs)
    with Cons.prems have "trichotomy (l x y) (f x = f y) (l y x)" by simp
    moreover have "trichotomy (lex_less l xs zs) (map f xs = map f zs) (lex_less l zs xs)"
      by (rule Cons.IH) (simp add: Cons.prems Cons)
    ultimately show ?thesis by (auto simp: trichotomy_def Cons)
  qed (simp add: trichotomy_def)
qed

text \<open>What is less than another value is less than a third one, or that is less than the other.\<close>

definition between :: "('a \<Rightarrow> 'a \<Rightarrow> bool) \<Rightarrow> 'a \<Rightarrow> 'a \<Rightarrow> 'a \<Rightarrow> bool" where
  "between l x y z \<longleftrightarrow> (l x z \<longrightarrow> l x y \<or> l y z) \<and> (l y x \<longrightarrow> l y z \<or> l z x) \<and> (l z y \<longrightarrow> l z x \<or> l x y)"

lemma between_rotate: "between l x y z \<Longrightarrow> between l y z x"
  by (auto simp: between_def)

lemma pair_between:
  fixes i :: "'k :: linorder"
  assumes "between vl v w u"
  shows "between (pair_less (<) vl) (i, v) (j, w) (k, u)"
  using assms by (auto simp: between_def pair_less_def)

lemma lex_between1:
  assumes "\<And>x y z. x \<in> set xs \<Longrightarrow> y \<in> set ys \<Longrightarrow> z \<in> set zs \<Longrightarrow> between l x y z"
    and "lex_less l xs zs"
  shows "lex_less l xs ys \<or> lex_less l ys zs"
  using assms
proof (induction xs arbitrary: ys zs)
  case Nil
  then show ?case by (cases ys; cases zs) simp_all
next
  case (Cons x xs)
  from Cons.prems(2) obtain z zs' where zs: "zs = z # zs'" by (cases zs) simp_all
  show ?case
  proof (cases ys)
    case (Cons y ys')
    have "between l x y z" by (rule Cons.prems(1)) (simp_all add: zs Cons)
    moreover have "lex_less l xs ys' \<or> lex_less l ys' zs'" if "lex_less l xs zs'"
      by (rule Cons.IH [OF _ that]) (simp add: Cons.prems(1) zs Cons)
    moreover have "l x z \<or> \<not> l z x \<and> lex_less l xs zs'" using Cons.prems(2) by (simp add: zs)
    ultimately show ?thesis unfolding between_def zs Cons lex_less.simps by blast
  qed (simp add: zs)
qed

lemma lex_between:
  assumes "\<And>x y z. x \<in> set xs \<Longrightarrow> y \<in> set ys \<Longrightarrow> z \<in> set zs \<Longrightarrow> between l x y z"
  shows "between (lex_less l) xs ys zs"
proof -
  have 1: "between l y z x" if "x \<in> set xs" "y \<in> set ys" "z \<in> set zs" for x y z
    by (rule between_rotate) (rule assms [OF that])
  have 2: "between l z x y" if "x \<in> set xs" "y \<in> set ys" "z \<in> set zs" for x y z
    by (rule between_rotate) (rule 1 [OF that])
  show ?thesis
    using lex_between1 [of xs ys zs l] lex_between1 [of ys zs xs l] lex_between1 [of zs xs ys l] assms 1 2
    unfolding between_def [of "lex_less l"] by simp
qed

section \<open>Sizes\<close>

lemma size_delta:
  assumes "m < 2 ^ 31" and "n < 2 ^ 31"
  shows "size_delta m n = int m - int n"
proof -
  have "size_delta m n = sint (word_of_int (int m - int n) :: 32 word)"
    by (simp add: size_delta_def) (transfer, simp add: signed_take_bit_take_bit)
  also have "\<dots> = signed_take_bit 31 (int m - int n)"
    by transfer simp
  also have "\<dots> = int m - int n"
    using assms by (simp add: sint_uint signed_take_bit_take_bit signed_take_bit_int_eq_self)
  finally show ?thesis .
qed

section \<open>The order of values\<close>

text \<open>Reals are ordered here: there is no NaN, and the two zeros count as one.\<close>

fun json_small :: "'r json \<Rightarrow> bool" and data_small :: "'r json_data \<Rightarrow> bool" where
  "json_small (Json d c) = data_small d"
| "data_small (J_array es) \<longleftrightarrow> length es < 2 ^ 31 \<and> (\<forall>p \<in> set es. json_small (snd p))"
| "data_small (J_object ms) \<longleftrightarrow> length ms < 2 ^ 31 \<and> (\<forall>p \<in> set ms. json_small (snd p))"
| "data_small _ = True"

text \<open>A value without its comments, at every depth.\<close>

fun json_bare :: "'r json \<Rightarrow> 'r json" and bare_data :: "'r json_data \<Rightarrow> 'r json_data" where
  "json_bare (Json d c) = json_of (bare_data d)"
| "bare_data (J_array es) = J_array (map (map_prod id json_bare) es)"
| "bare_data (J_object ms) = J_object (map (map_prod id json_bare) ms)"
| "bare_data J_null = J_null"
| "bare_data (J_int i) = J_int i"
| "bare_data (J_uint i) = J_uint i"
| "bare_data (J_real i) = J_real i"
| "bare_data (J_bool i) = J_bool i"
| "bare_data (J_string i) = J_string i"

definition data_type :: "'r json_data \<Rightarrow> int" where
  "data_type d = type_index (json_type (json_of d))"

lemma data_type [simp]:
  "data_type J_null = 0" "data_type (J_int i) = 1" "data_type (J_uint u) = 2" "data_type (J_real x) = 3"
  "data_type (J_string s) = 4" "data_type (J_bool b) = 5" "data_type (J_array es) = 6"
  "data_type (J_object ms) = 7"
  by (simp_all add: data_type_def json_type_def json_of_def)

lemma json_less_iff:
  "json_less rl (Json d c) (Json e f) \<longleftrightarrow>
   data_type d < data_type e \<or> data_type d = data_type e \<and> data_less rl d e"
  by (auto simp: json_less.simps data_type_def json_type_def json_of_def)

text \<open>Maps of equal length compare lexicographically.\<close>

definition map_less :: "('v \<Rightarrow> 'v \<Rightarrow> bool) \<Rightarrow> ('k :: linorder \<times> 'v) list \<Rightarrow> ('k \<times> 'v) list \<Rightarrow> bool" where
  "map_less l es fs \<longleftrightarrow> length es < length fs \<or> length es = length fs \<and> lex_less (pair_less (<) l) es fs"

lemma map_less:
  "length es < 2 ^ 31 \<Longrightarrow> length fs < 2 ^ 31 \<Longrightarrow>
   data_less rl (J_array es) (J_array fs) = map_less (json_less rl) es fs"
  "length ms < 2 ^ 31 \<Longrightarrow> length ns < 2 ^ 31 \<Longrightarrow>
   data_less rl (J_object ms) (J_object ns) = map_less (json_less rl) ms ns"
  by (auto simp: map_less_def elements_less members_less size_delta Let_def)

lemma map_trichotomy:
  assumes "\<And>p q. p \<in> set es \<Longrightarrow> q \<in> set fs \<Longrightarrow> trichotomy (l (snd p) (snd q)) (f (snd p) = f (snd q)) (l (snd q) (snd p))"
  shows "trichotomy (map_less l es fs) (map (map_prod id f) es = map (map_prod id f) fs) (map_less l fs es)"
proof -
  have "trichotomy (lex_less (pair_less (<) l) es fs) (map (map_prod id f) es = map (map_prod id f) fs)
      (lex_less (pair_less (<) l) fs es)"
  proof (rule lex_trichotomy)
    fix p q
    assume "p \<in> set es" "q \<in> set fs"
    note t = assms [OF this]
    from pair_trichotomy [of l "snd p" "snd q" "f (snd p) = f (snd q)" "fst p" "fst q", OF t]
    show "trichotomy (pair_less (<) l p q) (map_prod id f p = map_prod id f q) (pair_less (<) l q p)"
      by (cases p; cases q) simp
  qed
  then show ?thesis
    by (cases "length es" "length fs" rule: linorder_cases)
      (auto simp: trichotomy_def map_less_def dest: map_eq_imp_length_eq)
qed

lemma map_between:
  assumes "\<And>p q r. p \<in> set es \<Longrightarrow> q \<in> set fs \<Longrightarrow> r \<in> set gs \<Longrightarrow> between l (snd p) (snd q) (snd r)"
  shows "between (map_less l) es fs gs"
proof -
  have "between (lex_less (pair_less (<) l)) es fs gs"
  proof (rule lex_between)
    fix p q r
    assume "p \<in> set es" "q \<in> set fs" "r \<in> set gs"
    note b = assms [OF this]
    from pair_between [of l "snd p" "snd q" "snd r" "fst p" "fst q" "fst r", OF b]
    show "between (pair_less (<) l) p q r" by simp
  qed
  then show ?thesis by (auto simp: between_def map_less_def)
qed

lemma linear_trichotomy:
  "trichotomy (x < y) (x = y) (y < x)" for x y :: "'a :: linorder"
  by (cases x y rule: linorder_cases) (auto simp: trichotomy_def)

lemma signed_trichotomy: "trichotomy (i <s j) (i = j) (j <s i)" for i j :: "64 word"
  by (cases i j rule: signed.linorder_cases) (auto simp: trichotomy_def)

lemma json_trichotomy:
  fixes v w :: "'r :: linorder json" and d e :: "'r json_data"
  shows "json_small v \<Longrightarrow> json_small w \<Longrightarrow>
      trichotomy (json_less (<) v w) (json_bare v = json_bare w) (json_less (<) w v)"
    and "data_small d \<Longrightarrow> data_small e \<Longrightarrow> data_type d = data_type e \<Longrightarrow>
      trichotomy (data_less (<) d e) (bare_data d = bare_data e) (data_less (<) e d)"
proof (induction v and d arbitrary: w and e rule: json_small_data_small.induct)
  case (1 d c)
  obtain e f where w: "w = Json e f" by (cases w)
  show ?case
  proof (cases "data_type d" "data_type e" rule: linorder_cases)
    case equal
    with 1 w show ?thesis by (simp add: json_less_iff json_of_def trichotomy_def)
  next
    case less
    then have "bare_data d \<noteq> bare_data e" by (cases d; cases e) simp_all
    with less w show ?thesis by (simp add: json_less_iff json_of_def trichotomy_def)
  next
    case greater
    then have "bare_data d \<noteq> bare_data e" by (cases d; cases e) simp_all
    with greater w show ?thesis by (simp add: json_less_iff json_of_def trichotomy_def)
  qed
next
  case (2 es)
  then obtain fs where e: "e = J_array fs" by (cases e) simp_all
  show ?case
    using 2 map_trichotomy [of es fs "json_less (<)" json_bare] by (simp add: e map_less del: data_less.simps)
next
  case (3 ms)
  then obtain ns where e: "e = J_object ns" by (cases e) simp_all
  show ?case
    using 3 map_trichotomy [of ms ns "json_less (<)" json_bare] by (simp add: e map_less del: data_less.simps)
next
  case "4_2"
  then show ?case by (cases e) (simp_all add: signed_trichotomy)
next
  case "4_3"
  then show ?case by (cases e) (simp_all add: linear_trichotomy)
next
  case "4_4"
  then show ?case by (cases e) (simp_all add: linear_trichotomy)
next
  case "4_5"
  then show ?case by (cases e) (simp_all add: linear_trichotomy)
next
  case "4_1"
  then show ?case by (cases e) (simp_all add: trichotomy_def)
next
  case "4_6"
  then show ?case by (cases e) (auto simp: trichotomy_def)
qed

lemma linear_between: "between (<) x y z" for x y z :: "'a :: linorder"
  by (auto simp: between_def)

lemma signed_between: "between (<s) i j k" for i j k :: "64 word"
  by (auto simp: between_def dest: signed.less_le_trans signed.le_less_trans)

lemma json_between:
  fixes v w u :: "'r :: linorder json" and d e f :: "'r json_data"
  shows "json_small v \<Longrightarrow> json_small w \<Longrightarrow> json_small u \<Longrightarrow> between (json_less (<)) v w u"
    and "data_small d \<Longrightarrow> data_small e \<Longrightarrow> data_small f \<Longrightarrow> data_type d = data_type e \<Longrightarrow>
      data_type d = data_type f \<Longrightarrow> between (data_less (<)) d e f"
proof (induction v and d arbitrary: w u and e f rule: json_small_data_small.induct)
  case (1 d c)
  obtain e c' where w: "w = Json e c'" by (cases w)
  obtain f c'' where u: "u = Json f c''" by (cases u)
  have "between (data_less (<)) d e f" if "data_type d = data_type e" "data_type d = data_type f"
    using that 1 by (simp add: w u)
  then show ?case
    unfolding w u between_def json_less_iff by (cases "data_type d" "data_type e" rule: linorder_cases) auto
next
  case (2 es)
  then obtain fs gs where e: "e = J_array fs" "f = J_array gs" by (cases e; cases f) simp_all
  show ?case
    using 2 map_between [of es fs gs "json_less (<)"]
    by (simp add: e between_def map_less del: data_less.simps)
next
  case (3 es)
  then obtain fs gs where e: "e = J_object fs" "f = J_object gs" by (cases e; cases f) simp_all
  show ?case
    using 3 map_between [of es fs gs "json_less (<)"]
    by (simp add: e between_def map_less del: data_less.simps)
next
  case "4_2"
  then show ?case
    using signed_between by (cases e; cases f) (simp_all add: between_def)
next
  case "4_3"
  then show ?case
    using linear_between by (cases e; cases f) (simp_all add: between_def)
next
  case "4_4"
  then show ?case
    using linear_between by (cases e; cases f) (simp_all add: between_def)
next
  case "4_5"
  then show ?case
    using linear_between by (cases e; cases f) (simp_all add: between_def)
next
  case "4_6"
  then show ?case by (cases e; cases f) (auto simp: between_def)
next
  case "4_1"
  then show ?case by (cases e; cases f) (simp_all add: between_def)
qed


section \<open>Equality\<close>

lemma data_type_json_type: "json_type (Json d c) = json_type (Json e c') \<longleftrightarrow> data_type d = data_type e"
  by (cases d; cases e; simp add: json_type_def)

lemma data_type_bare [simp]: "data_type (bare_data d) = data_type d"
  by (cases d) simp_all

lemma json_equal:
  fixes v w :: "'r json" and d e :: "'r json_data"
    and es fs :: "(32 word \<times> 'r json) list" and ms ns :: "(string \<times> 'r json) list"
  shows "json_equal (=) v w \<longleftrightarrow> json_bare v = json_bare w"
    and "data_type d = data_type e \<Longrightarrow> data_equal (=) d e \<longleftrightarrow> bare_data d = bare_data e"
    and "length es = length fs \<Longrightarrow>
      elements_equal (=) es fs \<longleftrightarrow> map (map_prod id json_bare) es = map (map_prod id json_bare) fs"
    and "length ms = length ns \<Longrightarrow>
      members_equal (=) ms ns \<longleftrightarrow> map (map_prod id json_bare) ms = map (map_prod id json_bare) ns"
proof (induction "(=) :: 'r \<Rightarrow> 'r \<Rightarrow> bool" v w and "(=) :: 'r \<Rightarrow> 'r \<Rightarrow> bool" d e
    and "(=) :: 'r \<Rightarrow> 'r \<Rightarrow> bool" es fs and "(=) :: 'r \<Rightarrow> 'r \<Rightarrow> bool" ms ns
    rule: json_equal_data_equal_elements_equal_members_equal.induct)
  case (1 d c w)
  obtain e c' where w: "w = Json e c'" by (cases w)
  have "data_type d = data_type e" if "bare_data d = bare_data e"
    using arg_cong [OF that, of data_type] by simp
  with 1 show ?case by (auto simp: w data_type_json_type json_of_def)
next
  case (7 es e)
  then obtain fs where "e = J_array fs" by (cases e) simp_all
  with 7 show ?case by (auto dest: map_eq_imp_length_eq)
next
  case (8 ms e)
  then obtain ns where "e = J_object ns" by (cases e) simp_all
  with 8 show ?case by (auto dest: map_eq_imp_length_eq)
next
  case (11 i v es fs)
  then show ?case by (cases fs) auto
next
  case (13 i v es fs)
  then show ?case by (cases fs) auto
next
  case (2 i e)
  then show ?case by (cases e) simp_all
next
  case (3 i e)
  then show ?case by (cases e) simp_all
next
  case (4 i e)
  then show ?case by (cases e) simp_all
next
  case (5 i e)
  then show ?case by (cases e) simp_all
next
  case (6 i e)
  then show ?case by (cases e) simp_all
next
  case (9 e)
  then show ?case by (cases e) simp_all
qed simp_all

text \<open>C20: on values whose arrays and objects have fewer than 2 to the 31 entries, and whose
  reals are ordered (no NaN), \<^verbatim>\<open>compare\<close> is a total preorder and its
  equivalence is \<^verbatim>\<open>operator==\<close>: two values compare equal exactly when they
  are the same up to their comments, swapping the values swaps the sign, and
  \<^verbatim>\<open>operator<\<close> is transitive.\<close>

theorem compare_total:
  fixes u v w :: "'r :: linorder json"
  assumes "json_small u" and "json_small v" and "json_small w"
  shows "json_equal (=) v w = (json_compare (<) v w = 0) \<and>
    json_equal (=) v w = (json_bare v = json_bare w) \<and>
    json_compare (<) w v = - json_compare (<) v w \<and>
    (json_compare (<) u v \<le> 0 \<and> json_compare (<) v w \<le> 0 \<longrightarrow> json_compare (<) u w \<le> 0)"
proof -
  note t = json_trichotomy(1)
  have "(json_compare (<) v w = 0) = (json_bare v = json_bare w)"
    using t [OF assms(2,3)] by (auto simp: json_compare_def json_greater_def trichotomy_def)
  moreover have "json_compare (<) w v = - json_compare (<) v w"
    using t [OF assms(2,3)] by (auto simp: json_compare_def json_greater_def trichotomy_def)
  moreover have "json_compare (<) u w \<le> 0" if "json_compare (<) u v \<le> 0" "json_compare (<) v w \<le> 0"
    using that t [OF assms(1,2)] t [OF assms(2,3)] t [OF assms(1,3)] json_between(1) [OF assms(3,2,1)]
    by (auto simp: json_compare_def json_greater_def trichotomy_def between_def split: if_splits)
  ultimately show ?thesis by (auto simp: json_equal(1))
qed

theorem compare_total_witness:
  "json_compare (<) (json_of (J_array [(0, json_of (J_int (- 1)))])) (json_of (J_array [(0, json_of (J_int 1))]) :: nat json) = - 1 \<and>
   json_compare (<) (json_of (J_array [(0, json_of (J_int 1))])) (json_of (J_array [(0, json_of (J_int (- 1)))]) :: nat json) = 1"
proof -
  let ?v = "json_of (J_array [(0, json_of (J_int (- 1)))]) :: nat json"
  let ?w = "json_of (J_array [(0, json_of (J_int 1))]) :: nat json"
  have "json_compare (<) ?v ?w = - 1"
    by (simp add: json_compare_def json_greater_def json_of_def json_less_iff elements_less pair_less_def size_delta word_sless_alt)
  moreover have "json_compare (<) ?w ?v = - json_compare (<) ?v ?w"
    using compare_total [of ?v ?v ?w] by (simp add: json_of_def)
  ultimately show ?thesis by simp
qed

end
