(* ===== verification/Json_Array.thy ===== *)
theory Json_Array
  imports Json_Writer
begin

text \<open>
  Removal of an array array_element (\<^verbatim>\<open>Value::removeIndex\<close>) and the access to elements with a default.
\<close>

definition get_index :: "32 word \<Rightarrow> 'r json \<Rightarrow> 'r json \<Rightarrow> exn + 'r json" where
  "get_index i dflt v =
     (case j_data v of
        J_null \<Rightarrow> Inr dflt
      | J_array es \<Rightarrow> Inr (case map_of es i of None \<Rightarrow> dflt | Some x \<Rightarrow> x)
      | _ \<Rightarrow> Inl (Logic_error
          ''in Json::Value::operator[](ArrayIndex)const: requires arrayValue''))"

text \<open>\<^verbatim>\<open>value[int]\<close>, on a mutable and on a constant value.\<close>

definition json_index_int :: "int \<Rightarrow> 'r json \<Rightarrow> exn + 'r json" where
  "json_index_int i v =
     (if i < 0 then Inl (Logic_error ''in Json::Value::operator[](int index): index cannot be negative'')
      else json_index (word_of_int i) v)"

definition json_at_int :: "'r json \<Rightarrow> int \<Rightarrow> exn + 'r json" where
  "json_at_int v i =
     (if i < 0 then Inl (Logic_error ''in Json::Value::operator[](int index) const: index cannot be negative'')
      else json_at v (word_of_int i))"

text \<open>
  \<^verbatim>\<open>for (i = index; i < last; ++i) map[i] = (*this)[i + 1]\<close>. Where the array has a hole, reading
  creates a null element.
\<close>

function shift_left :: "32 word \<Rightarrow> 32 word \<Rightarrow> (32 word \<times> 'r json) list \<Rightarrow> (32 word \<times> 'r json) list" where
  "shift_left i till es =
     (if i < till
      then
        let es1 = (if map_of es (i + 1) \<noteq> None then es else smap_put (<) (i + 1) nullSingleton es)
        in shift_left (i + 1) till (smap_put (<) i (the (map_of es1 (i + 1))) es1)
      else es)"
  by auto

lemma word_next: "i < n \<Longrightarrow> unat (i + 1) = unat i + 1" for i n :: "32 word"
proof -
  assume "i < n"
  then have "unat i < unat n" by (simp add: word_less_nat_alt)
  moreover have "unat n < 2 ^ 32" using unsigned_less [of n] by simp
  ultimately have "unat i + 1 < 2 ^ 32" by linarith
  then show ?thesis by (simp add: unat_word_ariths)
qed

termination shift_left
proof (relation "measure (\<lambda>(i, n, _). unat n - unat i)")
qed (auto simp: word_next word_less_nat_alt)

declare shift_left.simps [simp del]

text \<open>\<^verbatim>\<open>removeIndex(index, &removed)\<close>: the value, and what was removed if anything was.\<close>

definition removeIndex :: "32 word \<Rightarrow> 'r json \<Rightarrow> 'r json \<times> 'r json option" where
  "removeIndex i v =
     (case j_data v of
        J_array es \<Rightarrow>
          (case map_of es i of
             None \<Rightarrow> (v, None)
           | Some x \<Rightarrow>
               let till = json_size v - 1
               in (Json (J_array (smap_erase (<) till (shift_left i till es))) (j_comments v), Some x))
      | _ \<Rightarrow> (v, None))"

section \<open>Elements move down\<close>

text \<open>The element at an index: null where there is none.\<close>

definition array_element :: "(32 word \<times> 'r json) list \<Rightarrow> 32 word \<Rightarrow> 'r json" where
  "array_element es i = (case map_of es i of None \<Rightarrow> nullSingleton | Some x \<Rightarrow> x)"

lemma array_element_put: "array_element (smap_put (<) i x es) j = (if j = i then x else array_element es j)"
  by (simp add: array_element_def asc.lookup_put)

lemma shift_left_ok:
  "smap_ok (<) es \<Longrightarrow> \<forall>p \<in> set es. json_ok (snd p) \<Longrightarrow>
   smap_ok (<) (shift_left i till es) \<and> (\<forall>p \<in> set (shift_left i till es). json_ok (snd p))"
proof (induction i till es rule: shift_left.induct)
  case (1 i till es)
  let ?es1 = "if map_of es (i + 1) \<noteq> None then es else smap_put (<) (i + 1) nullSingleton es"
  have ok: "smap_ok (<) ?es1" "\<forall>p \<in> set ?es1. json_ok (snd p)" "map_of ?es1 (i + 1) \<noteq> None"
    using "1.prems" smap_put_all [of es json_ok nullSingleton "(<)" "i + 1"]
    by (simp_all add: asc.put_ok asc.lookup_put)
  have "json_ok (the (map_of ?es1 (i + 1)))"
  proof -
    from ok(3) obtain y where y: "map_of ?es1 (i + 1) = Some y" by blast
    with ok(2) have "json_ok (snd (i + 1, y))" by (metis map_of_SomeD)
    with y show ?thesis by simp
  qed
  from smap_put_all [OF ok(2) this] ok(1) show ?case
    using "1.IH" [OF _ refl] "1.prems" by (subst (1 2) shift_left.simps) (simp add: Let_def asc.put_ok)
qed

lemma shift_left:
  "i \<le> till \<Longrightarrow>
   array_element (shift_left i till es) j = (if i \<le> j \<and> j < till then array_element es (j + 1) else array_element es j) \<and>
   fst ` set (shift_left i till es) = fst ` set es \<union> (if i < till then {i..till} else {})"
proof (induction i till es arbitrary: j rule: shift_left.induct)
  case (1 i till es)
  show ?case
  proof (cases "i < till")
    case False
    then show ?thesis using "1.prems" by (subst (1 2) shift_left.simps) auto
  next
    case True
    let ?es1 = "if map_of es (i + 1) \<noteq> None then es else smap_put (<) (i + 1) nullSingleton es"
    let ?x = "the (map_of ?es1 (i + 1))"
    let ?es2 = "smap_put (<) i ?x ?es1"
    have n: "unat (i + 1) = unat i + 1" "unat i < unat till"
      using word_next [OF True] True by (simp_all add: word_less_nat_alt)
    have x: "?x = array_element es (i + 1)" by (auto simp: array_element_def asc.lookup_put)
    have e: "array_element ?es2 j = (if j = i then array_element es (i + 1) else array_element es j)" for j
    proof -
      have "array_element ?es1 j = array_element es j" by (auto simp: array_element_def asc.lookup_put)
      then show ?thesis by (simp only: array_element_put x)
    qed
    have k: "fst ` set ?es2 = insert i (insert (i + 1) (fst ` set es))"
      by (auto simp: asc.keys_put dest: map_of_SomeD intro: rev_image_eqI)
    have le: "i + 1 \<le> till" using n by (simp add: word_le_nat_alt)
    have IH: "array_element (shift_left (i + 1) till ?es2) j =
        (if i + 1 \<le> j \<and> j < till then array_element ?es2 (j + 1) else array_element ?es2 j)"
      "fst ` set (shift_left (i + 1) till ?es2) =
        fst ` set ?es2 \<union> (if i + 1 < till then {i + 1..till} else {})" for j
      using "1.IH" [OF True refl le] by (simp_all add: Let_def)
    have step: "shift_left i till es = shift_left (i + 1) till ?es2"
      using True by (subst shift_left.simps) (simp add: Let_def)
    have el: "array_element (shift_left i till es) j = (if i \<le> j \<and> j < till then array_element es (j + 1) else array_element es j)"
    proof -
      have "j + 1 \<noteq> i" if "i + 1 \<le> j" "j < till"
        using that word_next [of j till] n by (auto simp: word_le_nat_alt)
      moreover have "\<not> i + 1 \<le> i" using n by (simp add: word_le_nat_alt)
      moreover have "(i \<le> j) = (i + 1 \<le> j)" if "j \<noteq> i"
        using that n by (auto simp: word_le_nat_alt word_unat_eq_iff)
      ultimately show ?thesis unfolding step IH(1) e using True by auto
    qed
    have r: "{i..till} = insert i {i + 1..till}"
      using n by (auto simp: word_le_nat_alt word_unat_eq_iff)
    have keys: "fst ` set (shift_left i till es) = fst ` set es \<union> {i..till}"
    proof (cases "i + 1 < till")
      case True
      then have "i + 1 \<in> {i + 1..till}" by simp
      then show ?thesis unfolding step IH(2) k r if_P [OF True] by blast
    next
      case False
      then have "{i + 1..till} = {i + 1}" using le by (simp add: order.antisym)
      then show ?thesis unfolding step IH(2) k r if_not_P [OF False] by blast
    qed
    show ?thesis unfolding keys if_P [OF True] using el by blast
  qed
qed

lemma last_key:
  fixes m :: "('k :: linorder \<times> 'v) list"
  assumes "smap_ok (<) m" and "k \<in> fst ` set m"
  shows "k \<le> fst (last m)"
proof -
  from assms(2) have "m \<noteq> []" by auto
  then obtain n p where m: "m = n @ [p]" by (metis append_butlast_last_id)
  from assms show ?thesis unfolding m by (auto simp: smap_ok_def sorted_wrt_append)
qed

lemma json_at_array: "json_at (Json (J_array es) c) i = Inr (array_element es i)"
  by (simp add: json_at_def array_element_def)

lemma word_before: "unat k = unat (k - 1) + 1" if "i < k" for i k :: "'n :: len word"
proof -
  have "unat i < unat k" using that by (simp add: word_less_nat_alt)
  moreover from this have "k \<noteq> 0" by auto
  ultimately show ?thesis using unat_minus_one [of k] by simp
qed

text \<open>The loop of \<^verbatim>\<open>removeIndex\<close> followed by erasing the last key, as one operation on the entries.\<close>

definition removed_entries :: "32 word \<Rightarrow> (32 word \<times> 'r json) list \<Rightarrow> (32 word \<times> 'r json) list" where
  "removed_entries i es = smap_erase (<) (fst (last es)) (shift_left i (fst (last es)) es)"

lemma removed_ok:
  assumes "smap_ok (<) es" and "\<forall>p \<in> set es. json_ok (snd p)"
  shows "smap_ok (<) (removed_entries i es)" "\<forall>p \<in> set (removed_entries i es). json_ok (snd p)"
  using shift_left_ok [OF assms, of i "fst (last es)"] set_smap_erase
  by (fastforce simp: removed_entries_def asc.erase_ok)+

lemma removed_elements:
  assumes ok: "smap_ok (<) es" "\<forall>p \<in> set es. json_ok (snd p)" and i: "i \<in> fst ` set es" and j: "j \<noteq> - 1"
  shows "array_element (removed_entries i es) j =
    (if j < i then array_element es j else array_element es (j + 1))"
proof -
  let ?till = "fst (last es)"
  note le = last_key [OF ok(1)]
  note ok1 = shift_left_ok [OF ok, of i ?till]
  note sh = shift_left [OF le [OF i], of es]
  have e: "array_element (removed_entries i es) j =
      (if j = ?till then nullSingleton else array_element (shift_left i ?till es) j)"
    using ok1 by (simp add: removed_entries_def array_element_def asc.lookup_erase)
  have null: "array_element es k = nullSingleton" if "?till < k" for k
  proof -
    have "k \<notin> fst ` set es" using le that by (auto simp: not_le [symmetric])
    then have "map_of es k = None" by (simp add: map_of_eq_None_iff)
    then show ?thesis by (simp add: array_element_def)
  qed
  have "j < - 1" using j word_order.extremum [of j] by (simp add: order.strict_iff_order)
  then have step: "j < j + 1" by (simp add: word_less_nat_alt word_next)
  show ?thesis
  proof (cases "j < ?till")
    case True
    then show ?thesis using sh e by auto
  next
    case False
    then have "?till < j + 1" "\<not> j < i" using step le [OF i] by auto
    moreover from False have "j = ?till \<or> ?till < j" by auto
    ultimately show ?thesis using sh e null [of j] null [of "j + 1"] False by auto
  qed
qed

lemma removed_last:
  assumes ok: "smap_ok (<) es" "\<forall>p \<in> set es. json_ok (snd p)" and i: "i \<in> fst ` set es" "i \<noteq> fst (last es)"
  shows "removed_entries i es \<noteq> [] \<and> fst (last (removed_entries i es)) = fst (last es) - 1"
proof -
  let ?till = "fst (last es)" and ?m = "removed_entries i es"
  note le = last_key [OF ok(1)]
  from le [OF i(1)] i(2) have lt: "i < ?till" by simp
  have keys: "fst ` set ?m = fst ` set es \<union> {i..?till} - {?till}"
    using shift_left_ok [OF ok, of i ?till] shift_left [OF le [OF i(1)], of es] lt
    by (simp add: removed_entries_def asc.keys_erase)
  note un = word_before [OF lt]
  have m: "?till - 1 \<in> fst ` set ?m"
    using un lt unfolding keys by (auto simp: word_le_nat_alt word_less_nat_alt word_unat_eq_iff)
  then have ne: "?m \<noteq> []" by auto
  then have "fst (last ?m) \<in> fst ` set ?m" by simp
  then have "fst (last ?m) \<in> fst ` set es \<union> {i..?till}" "fst (last ?m) \<noteq> ?till"
    unfolding keys by simp_all
  then have "fst (last ?m) < ?till"
    using le [of "fst (last ?m)"] by (metis Un_iff atLeastAtMost_iff order.not_eq_order_implies_strict)
  moreover have "?till - 1 \<le> fst (last ?m)" using m removed_ok(1) [OF ok] by (intro last_key)
  ultimately have "fst (last ?m) = ?till - 1"
    using un by (auto simp: word_le_nat_alt word_less_nat_alt word_unat_eq_iff)
  with ne show ?thesis by simp
qed

text \<open>Removing the element at an index moves the elements behind it down by one place:
  what a constant access yields at any index is what the old value yields there, or one further
  from the removed index on. What was removed is the element at the index, the array keeps its
  order, and its size goes down by one unless the removed element is the last one.\<close>

lemma removeIndex_shifts:
  assumes "json_ok v" and "removeIndex i v = (v', Some x)"
  shows "json_ok v' \<and> json_at v i = Inr x \<and>
    (\<forall>j. j \<noteq> - 1 \<longrightarrow> json_at v' j = (if j < i then json_at v j else json_at v (j + 1))) \<and>
    (i + 1 \<noteq> json_size v \<longrightarrow> json_size v' = json_size v - 1)"
proof -
  obtain es c where v: "v = Json (J_array es) c" and x: "map_of es i = Some x"
    using assms(2) by (cases v) (auto simp: removeIndex_def Let_def split: json_data.splits option.splits)
  have ok: "smap_ok (<) es" "\<forall>p \<in> set es. json_ok (snd p)" using assms(1) by (simp_all add: v)
  have i: "i \<in> fst ` set es" using map_of_SomeD [OF x] by force
  then have es: "es \<noteq> []" by auto
  have till: "json_size v - 1 = fst (last es)" using es by (simp add: v json_size_def)
  have v': "v' = Json (J_array (removed_entries i es)) c"
    using assms(2) x till by (simp add: v removeIndex_def Let_def removed_entries_def)
  have "json_size v' = json_size v - 1" if "i + 1 \<noteq> json_size v"
  proof -
    have "i \<noteq> fst (last es)" using that es by (auto simp: v json_size_def)
    from removed_last [OF ok i this] show ?thesis by (simp add: v' till) (simp add: json_size_def)
  qed
  moreover have "json_at v i = Inr x" using x by (simp add: v json_at_array array_element_def)
  ultimately show ?thesis
    using removed_ok [OF ok, of i] removed_elements [OF ok i] by (auto simp: v v' json_at_array)
qed
end
