(* ===== verification/Json_Convert.thy ===== *)
theory Json_Convert
  imports Json_Writer
begin

text \<open>
  Conversions of JSON values (\<^verbatim>\<open>asInt\<close>, \<^verbatim>\<open>asString\<close> and so on, \<^verbatim>\<open>isConvertibleTo\<close>), and the
  operations on array elements that the HTTP server does not use. What is done with a double is
  a record of functions: comparison with integer bounds, conversions, text.
\<close>

section \<open>Reals\<close>

text \<open>
  \<open>r_between lo hi\<close> is \<^verbatim>\<open>lo <= d && d <= hi\<close>, where the bounds are converted to \<^verbatim>\<open>double\<close>;
  \<open>r_below hi\<close> is \<^verbatim>\<open>d < double(hi)\<close>; \<open>r_trunc\<close> is the conversion to an integer.
\<close>

record 'r double_ops =
  r_between :: "int \<Rightarrow> int \<Rightarrow> 'r \<Rightarrow> bool"
  r_below :: "int \<Rightarrow> 'r \<Rightarrow> bool"
  r_integral :: "'r \<Rightarrow> bool"
  r_trunc :: "'r \<Rightarrow> int"
  r_of_int :: "int \<Rightarrow> 'r"
  r_is_zero :: "'r \<Rightarrow> bool"
  r_text :: "'r \<Rightarrow> string"

definition minInt :: int where "minInt = - (2 ^ 31)"
definition maxInt :: int where "maxInt = 2 ^ 31 - 1"
definition maxUInt :: int where "maxUInt = 2 ^ 32 - 1"
definition minInt64 :: int where "minInt64 = - (2 ^ 63)"
definition maxInt64 :: int where "maxInt64 = 2 ^ 63 - 1"
definition maxUInt64 :: int where "maxUInt64 = 2 ^ 64 - 1"

section \<open>Kinds of values\<close>

definition real_isInt :: "'r double_ops \<Rightarrow> 'r \<Rightarrow> bool" where
  "real_isInt R x \<longleftrightarrow> r_between R minInt maxInt x \<and> r_integral R x"

definition real_isUInt :: "'r double_ops \<Rightarrow> 'r \<Rightarrow> bool" where
  "real_isUInt R x \<longleftrightarrow> r_between R 0 maxUInt x \<and> r_integral R x"

definition isInt64 :: "'r double_ops \<Rightarrow> 'r json \<Rightarrow> bool" where
  "isInt64 R v =
     (case j_data v of
        J_int i \<Rightarrow> True
      | J_uint u \<Rightarrow> uint u \<le> maxInt64
      | J_real x \<Rightarrow> r_between R minInt64 maxInt64 x \<and> r_below R maxInt64 x \<and> r_integral R x
      | _ \<Rightarrow> False)"

definition isUInt64 :: "'r double_ops \<Rightarrow> 'r json \<Rightarrow> bool" where
  "isUInt64 R v =
     (case j_data v of
        J_int i \<Rightarrow> 0 \<le> sint i
      | J_uint u \<Rightarrow> True
      | J_real x \<Rightarrow> r_between R 0 maxUInt64 x \<and> r_below R maxUInt64 x \<and> r_integral R x
      | _ \<Rightarrow> False)"

definition isIntegral :: "'r double_ops \<Rightarrow> 'r json \<Rightarrow> bool" where
  "isIntegral R v \<longleftrightarrow> isInt64 R v \<or> isUInt64 R v"

definition isDouble :: "'r json \<Rightarrow> bool" where
  "isDouble v \<longleftrightarrow> json_type v = intValue \<or> json_type v = uintValue \<or> json_type v = realValue"

definition isNumeric :: "'r json \<Rightarrow> bool" where
  "isNumeric v \<longleftrightarrow> isDouble v"

section \<open>Conversions\<close>

definition asInt :: "'r double_ops \<Rightarrow> 'r json \<Rightarrow> exn + 32 word" where
  "asInt R v =
     (case j_data v of
        J_int i \<Rightarrow>
          if isInt v (real_isInt R) then Inr (ucast i) else Inl (Logic_error ''LargestInt out of Int range'')
      | J_uint u \<Rightarrow>
          if isInt v (real_isInt R) then Inr (ucast u) else Inl (Logic_error ''LargestUInt out of Int range'')
      | J_real x \<Rightarrow>
          if r_between R minInt maxInt x then Inr (word_of_int (r_trunc R x))
          else Inl (Logic_error ''double out of Int range'')
      | J_null \<Rightarrow> Inr 0
      | J_bool b \<Rightarrow> Inr (if b then 1 else 0)
      | _ \<Rightarrow> Inl (Logic_error ''Value is not convertible to Int.''))"

definition asUInt :: "'r double_ops \<Rightarrow> 'r json \<Rightarrow> exn + 32 word" where
  "asUInt R v =
     (case j_data v of
        J_int i \<Rightarrow>
          if isUInt v (real_isUInt R) then Inr (ucast i) else Inl (Logic_error ''LargestInt out of UInt range'')
      | J_uint u \<Rightarrow>
          if isUInt v (real_isUInt R) then Inr (ucast u) else Inl (Logic_error ''LargestUInt out of UInt range'')
      | J_real x \<Rightarrow>
          if r_between R 0 maxUInt x then Inr (word_of_int (r_trunc R x))
          else Inl (Logic_error ''double out of UInt range'')
      | J_null \<Rightarrow> Inr 0
      | J_bool b \<Rightarrow> Inr (if b then 1 else 0)
      | _ \<Rightarrow> Inl (Logic_error ''Value is not convertible to UInt.''))"

definition asDouble :: "'r double_ops \<Rightarrow> 'r json \<Rightarrow> exn + 'r" where
  "asDouble R v =
     (case j_data v of
        J_int i \<Rightarrow> Inr (r_of_int R (sint i))
      | J_uint u \<Rightarrow> Inr (r_of_int R (uint u))
      | J_real x \<Rightarrow> Inr x
      | J_null \<Rightarrow> Inr (r_of_int R 0)
      | J_bool b \<Rightarrow> Inr (r_of_int R (if b then 1 else 0))
      | _ \<Rightarrow> Inl (Logic_error ''Value is not convertible to double.''))"

definition asBool :: "'r double_ops \<Rightarrow> 'r json \<Rightarrow> exn + bool" where
  "asBool R v =
     (case j_data v of
        J_bool b \<Rightarrow> Inr b
      | J_null \<Rightarrow> Inr False
      | J_int i \<Rightarrow> Inr (i \<noteq> 0)
      | J_uint u \<Rightarrow> Inr (u \<noteq> 0)
      | J_real x \<Rightarrow> Inr (\<not> r_is_zero R x)
      | _ \<Rightarrow> Inl (Logic_error ''Value is not convertible to bool.''))"

definition asString :: "'r double_ops \<Rightarrow> 'r json \<Rightarrow> exn + string" where
  "asString R v =
     (case j_data v of
        J_null \<Rightarrow> Inr []
      | J_string s \<Rightarrow> Inr s
      | J_bool b \<Rightarrow> Inr (if b then ''true'' else ''false'')
      | J_int i \<Rightarrow> Inr (valueToString_int i)
      | J_uint u \<Rightarrow> Inr (valueToString_uint u)
      | J_real x \<Rightarrow> Inr (r_text R x)
      | _ \<Rightarrow> Inl (Logic_error ''Type is not convertible to string''))"

definition asCString :: "'r json \<Rightarrow> exn + string" where
  "asCString v =
     (case j_data v of
        J_string s \<Rightarrow> Inr (c_str s)
      | _ \<Rightarrow> Inl (Logic_error ''in Json::Value::asCString(): requires stringValue''))"

definition getString :: "'r json \<Rightarrow> string option" where
  "getString v = (case j_data v of J_string s \<Rightarrow> Some s | _ \<Rightarrow> None)"

text \<open>The tests of an integer against the real zero convert it: only 0 becomes 0.\<close>

definition isConvertibleTo :: "'r double_ops \<Rightarrow> 'r json \<Rightarrow> value_type \<Rightarrow> bool" where
  "isConvertibleTo R v other =
     (case other of
        nullValue \<Rightarrow>
          isNumeric v \<and> (case asDouble R v of Inl _ \<Rightarrow> False | Inr x \<Rightarrow> r_is_zero R x) \<or>
          j_data v = J_bool False \<or> j_data v = J_string [] \<or> j_data v = J_array [] \<or>
          j_data v = J_object [] \<or> json_type v = nullValue
      | intValue \<Rightarrow>
          isInt v (real_isInt R) \<or> (case j_data v of J_real x \<Rightarrow> r_between R minInt maxInt x | _ \<Rightarrow> False) \<or>
          json_type v = booleanValue \<or> json_type v = nullValue
      | uintValue \<Rightarrow>
          isUInt v (real_isUInt R) \<or> (case j_data v of J_real x \<Rightarrow> r_between R 0 maxUInt x | _ \<Rightarrow> False) \<or>
          json_type v = booleanValue \<or> json_type v = nullValue
      | realValue \<Rightarrow> isNumeric v \<or> json_type v = booleanValue \<or> json_type v = nullValue
      | booleanValue \<Rightarrow> isNumeric v \<or> json_type v = booleanValue \<or> json_type v = nullValue
      | stringValue \<Rightarrow>
          isNumeric v \<or> json_type v = booleanValue \<or> json_type v = stringValue \<or> json_type v = nullValue
      | arrayValue \<Rightarrow> json_type v = arrayValue \<or> json_type v = nullValue
      | objectValue \<Rightarrow> json_type v = objectValue \<or> json_type v = nullValue)"

lemma sint_ucast_fits: "- (2 ^ 31) \<le> sint i \<Longrightarrow> sint i < 2 ^ 31 \<Longrightarrow> sint (ucast i :: 32 word) = sint i"
  for i :: "64 word"
proof -
  assume "- (2 ^ 31) \<le> sint i" "sint i < 2 ^ 31"
  moreover have "sint (ucast i :: 32 word) = signed_take_bit 31 (sint i)"
    by transfer (simp add: signed_take_bit_take_bit signed_take_bit_signed_take_bit)
  ultimately show ?thesis by (simp add: signed_take_bit_int_eq_self)
qed

lemma uint_ucast_fits: "uint i < 2 ^ 32 \<Longrightarrow> uint (ucast i :: 32 word) = uint i" for i :: "64 word"
  by (simp add: unsigned_ucast_eq take_bit_int_eq_self)

lemma sint_uint_nonneg: "0 \<le> sint i \<Longrightarrow> sint i = uint i" for i :: "64 word"
proof -
  assume i: "0 \<le> sint i"
  have "int (unat i) = sint i" unfolding unat_of_sint(1) [OF i] using i by simp
  then show ?thesis by (simp only: uint_nat)
qed

lemma sint_uint_small: "uint i < 2 ^ 63 \<Longrightarrow> sint i = uint i" for i :: "64 word"
proof -
  assume "uint i < 2 ^ 63"
  moreover have "- (2 ^ 63) \<le> uint i" by (rule order.trans [of _ 0]) simp_all
  ultimately have "signed_take_bit 63 (uint i) = uint i" by (intro signed_take_bit_int_eq_self) simp_all
  then show ?thesis by (simp add: sint_uint)
qed

lemma sint_ucast_small: "uint i < 2 ^ 31 \<Longrightarrow> sint (ucast i :: 32 word) = uint i" for i :: "64 word"
proof -
  assume u: "uint i < 2 ^ 31"
  then have "sint i = uint i" by (intro sint_uint_small) simp
  moreover have "- (2 ^ 31) \<le> uint i" by (rule order.trans [of _ 0]) simp_all
  ultimately show ?thesis using sint_ucast_fits [of i] u by simp
qed

text \<open>The integer a value stands for.\<close>

definition int_of_json :: "'r json \<Rightarrow> int option" where
  "int_of_json v = (case j_data v of J_int i \<Rightarrow> Some (sint i) | J_uint u \<Rightarrow> Some (uint u) | _ \<Rightarrow> None)"

lemma asInt_value: "asInt R v = Inr n \<Longrightarrow> int_of_json v = Some k \<Longrightarrow> sint n = k"
  by (auto simp: asInt_def int_of_json_def isInt_def sint_ucast_fits sint_ucast_small split: json_data.splits if_splits)

lemma asUInt_value: "asUInt R v = Inr n \<Longrightarrow> int_of_json v = Some k \<Longrightarrow> uint n = k"
  by (auto simp: asUInt_def int_of_json_def isUInt_def uint_ucast_fits sint_uint_nonneg split: json_data.splits if_splits)

text \<open>\<^verbatim>\<open>isConvertibleTo\<close> tells exactly when a conversion returns: for each of the types that have
  a conversion it is true if and only if \<^verbatim>\<open>asInt\<close>, \<^verbatim>\<open>asUInt\<close>, \<^verbatim>\<open>asDouble\<close>, \<^verbatim>\<open>asBool\<close> or \<^verbatim>\<open>asString\<close>
  does not throw, for arrays and objects if and only if the element and member accessors do not,
  and an integer that was converted is the integer that was stored.\<close>

lemma convertible:
  "(isConvertibleTo R v intValue = (\<exists>i. asInt R v = Inr i)) \<and>
   (isConvertibleTo R v uintValue = (\<exists>u. asUInt R v = Inr u)) \<and>
   (isConvertibleTo R v realValue = (\<exists>x. asDouble R v = Inr x)) \<and>
   (isConvertibleTo R v booleanValue = (\<exists>b. asBool R v = Inr b)) \<and>
   (isConvertibleTo R v stringValue = (\<exists>s. asString R v = Inr s)) \<and>
   (isConvertibleTo R v arrayValue = (\<exists>x. json_at v i = Inr x)) \<and>
   (isConvertibleTo R v objectValue = (\<exists>x. json_find k v = Inr x)) \<and>
   (\<forall>k n. int_of_json v = Some k \<and> asInt R v = Inr n \<longrightarrow> sint n = k) \<and>
   (\<forall>k n. int_of_json v = Some k \<and> asUInt R v = Inr n \<longrightarrow> uint n = k)"
  using asInt_value [of R v] asUInt_value [of R v]
  by (cases "j_data v")
    (auto simp: isConvertibleTo_def asInt_def asUInt_def asDouble_def asBool_def asString_def json_at_def
      json_find_def isNumeric_def isDouble_def json_type_def isInt_def isUInt_def real_isInt_def real_isUInt_def split: if_splits)

text \<open>Integers in place of doubles.\<close>

definition sample_doubles :: "int double_ops" where
  "sample_doubles = \<lparr>r_between = (\<lambda>lo hi x. lo \<le> x \<and> x \<le> hi), r_below = (\<lambda>hi x. x < hi),
     r_integral = (\<lambda>_. True), r_trunc = id, r_of_int = id, r_is_zero = (\<lambda>x. x = 0), r_text = show_int\<rparr>"

end
