(* ===== verification/Json_Our_Reader.thy ===== *)
theory Json_Our_Reader
  imports Json_Reader Json_Convert
begin

text \<open>
  \<^verbatim>\<open>Json::OurReader\<close>, the parser behind \<^verbatim>\<open>CharReader\<close>: a copy of \<^verbatim>\<open>Json::Reader\<close> with more options. What
  the two classes have in common is taken from \<open>Json_Reader\<close>; here are the functions that differ, and
  those that call them. An error keeps the locations of its token; its type is not used.

  A quote that may not begin a string falls through to the case of comments. Such a comment does
  not begin with a slash, so \<^verbatim>\<open>setComment\<close> throws: reading a token may throw here.
\<close>

record our_features = features +
  allowSingleQuotes :: bool
  failIfExtra :: bool
  rejectDupKeys :: bool
  allowSpecialFloats :: bool
  of_stackLimit :: "32 word"

datatype our_type = Shared token_type | tokenNaN | tokenPosInf | tokenNegInf

record our_token =
  ot_type :: our_type
  ot_start :: location
  ot_end :: location

definition shared_token :: "our_token \<Rightarrow> token" where
  "shared_token t =
     \<lparr>tk_type = (case ot_type t of Shared ty \<Rightarrow> ty | _ \<Rightarrow> tokenNumber),
      tk_start = ot_start t, tk_end = ot_end t\<rparr>"

text \<open>The special values of \<^verbatim>\<open>double\<close>, and how \<^verbatim>\<open>sscanf\<close> reads one (in the C locale).\<close>

record 'r scanner = "'r double_ops" +
  scan_double :: "string \<Rightarrow> 'r option"
  double_nan :: 'r
  double_inf :: 'r
  double_neg_inf :: 'r

section \<open>Comments\<close>

definition comment_ok :: "string \<Rightarrow> bool" where
  "comment_ok c \<longleftrightarrow> c = [] \<or> hd c = CHR 0x00 \<or> hd c = CHR ''/''"

definition bad_comment :: exn where
  "bad_comment = Logic_error ''in Json::Value::setComment(): Comments must start with /''"

definition our_addComment ::
  "location \<Rightarrow> location \<Rightarrow> placement \<Rightarrow> 'r reader \<Rightarrow> ('r reader, unit) outcome" where
  "our_addComment from until place rd =
     (let normalized = normalizeEOL (span from until)
      in if place = commentAfterOnSameLine
         then
           (if comment_ok normalized
            then (update_node (rd_lastValue rd) (setComment normalized place) rd, Inr ())
            else (rd, Inl bad_comment))
         else (rd\<lparr>rd_commentsBefore := rd_commentsBefore rd @ normalized\<rparr>, Inr ()))"

text \<open>\<open>c0\<close> is the character before the current location, which made the reader expect a comment.\<close>

definition our_readComment :: "char \<Rightarrow> 'r reader \<Rightarrow> ('r reader, bool) outcome" where
  "our_readComment c0 rd =
     (let commentBegin = c0 # rd_current rd;
          (c, successful, l) = comment_end (rd_current rd);
          rd1 = rd\<lparr>rd_current := l\<rparr>;
          place =
            (if rd_lastValueEnd rd \<noteq> None \<and> \<not> containsNewLine (the (rd_lastValueEnd rd)) commentBegin
                \<and> (c \<noteq> CHR ''*'' \<or> \<not> containsNewLine commentBegin l)
             then commentAfterOnSameLine else commentBefore)
      in if \<not> successful then (rd1, Inr False)
         else if rd_collectComments rd
         then and_then (our_addComment commentBegin l place rd1) (\<lambda>_ rd2. (rd2, Inr True))
         else (rd1, Inr True))"

definition our_attach_comments :: "'r reader \<Rightarrow> ('r reader, unit) outcome" where
  "our_attach_comments rd =
     (if rd_collectComments rd \<and> rd_commentsBefore rd \<noteq> [] \<and> \<not> comment_ok (rd_commentsBefore rd)
      then (rd, Inl bad_comment)
      else (attach_comments rd, Inr ()))"

section \<open>Tokens\<close>

text \<open>\<open>False\<close> for an infinity.\<close>

definition our_readNumber :: "bool \<Rightarrow> location \<Rightarrow> bool \<times> location" where
  "our_readNumber checkInf l =
     (if checkInf \<and> l \<noteq> [] \<and> hd l = CHR ''I'' then (False, tl l) else (True, readNumber l))"

fun readStringSingleQuote :: "location \<Rightarrow> bool \<times> location" where
  "readStringSingleQuote [] = (False, [])"
| "readStringSingleQuote (c # l) =
     (if c = CHR 0x5C then (case l of [] \<Rightarrow> (False, []) | _ # l1 \<Rightarrow> readStringSingleQuote l1)
      else if c = CHR 0x27 then (True, l)
      else readStringSingleQuote l)"

declare readStringSingleQuote.simps(2) [simp del]

definition our_scan_token :: "our_features \<Rightarrow> char \<Rightarrow> location \<Rightarrow> our_type \<times> bool \<times> location" where
  "our_scan_token F c l =
     (if c = CHR ''{'' then (Shared tokenObjectBegin, True, l)
      else if c = CHR ''}'' then (Shared tokenObjectEnd, True, l)
      else if c = CHR ''['' then (Shared tokenArrayBegin, True, l)
      else if c = CHR '']'' then (Shared tokenArrayEnd, True, l)
      else if c = CHR 0x22 then (Shared tokenString, readString l)
      else if c = CHR 0x27 then (Shared tokenString, readStringSingleQuote l)
      else if is_digit c then (Shared tokenNumber, True, snd (our_readNumber False l))
      else if c = CHR ''-''
      then
        (case our_readNumber True l of
           (True, l1) \<Rightarrow> (Shared tokenNumber, True, l1)
         | (False, l1) \<Rightarrow>
             (tokenNegInf, if allowSpecialFloats F then match_text ''nfinity'' l1 else (False, l1)))
      else if c = CHR ''t'' then (Shared tokenTrue, match_text ''rue'' l)
      else if c = CHR ''f'' then (Shared tokenFalse, match_text ''alse'' l)
      else if c = CHR ''n'' then (Shared tokenNull, match_text ''ull'' l)
      else if c = CHR ''N'' \<and> allowSpecialFloats F then (tokenNaN, match_text ''aN'' l)
      else if c = CHR ''I'' \<and> allowSpecialFloats F then (tokenPosInf, match_text ''nfinity'' l)
      else if c = CHR '','' then (Shared tokenArraySeparator, True, l)
      else if c = CHR '':'' then (Shared tokenMemberSeparator, True, l)
      else if c = CHR 0x00 then (Shared tokenEndOfStream, True, l)
      else (Shared tokenError, False, l))"

definition our_readToken :: "our_features \<Rightarrow> 'r reader \<Rightarrow> ('r reader, our_token) outcome" where
  "our_readToken F rd =
     (let start = skipSpaces (rd_current rd); (c, l) = getNextChar start
      in and_then
           (if c = CHR ''/'' \<or> c = CHR 0x27 \<and> \<not> allowSingleQuotes F
            then and_then (our_readComment c (rd\<lparr>rd_current := l\<rparr>))
                   (\<lambda>ok rd1. (rd1, Inr (Shared (if ok then tokenComment else tokenError))))
            else
              (case our_scan_token F c l of
                 (ty, ok, l1) \<Rightarrow> (rd\<lparr>rd_current := l1\<rparr>, Inr (if ok then ty else Shared tokenError))))
           (\<lambda>ty rd1. (rd1, Inr \<lparr>ot_type = ty, ot_start = start, ot_end = rd_current rd1\<rparr>)))"


lemma our_addComment_current [simp]: "rd_current (fst (our_addComment a b p rd)) = rd_current rd"
  by (simp add: our_addComment_def Let_def)

lemma our_readComment_length: "length (rd_current (fst (our_readComment c0 rd))) \<le> length (rd_current rd)"
proof -
  obtain c k l where c: "comment_end (rd_current rd) = (c, k, l)" by (metis prod.exhaust)
  have a: "rd_current (fst (and_then r (\<lambda>_ rd2. (rd2, Inr True)))) = rd_current (fst r)"
    for r :: "('r reader, unit) outcome"
    by (cases r; cases "snd r") simp_all
  show ?thesis
    using comment_end_length [OF c] by (auto simp: our_readComment_def c Let_def a)
qed

lemma readStringSingleQuote_length: "length (snd (readStringSingleQuote l)) \<le> length l"
proof (induction l rule: readStringSingleQuote.induct)
  case (2 c l)
  then show ?case by (subst readStringSingleQuote.simps) (simp split: list.split add: le_SucI)
qed simp

lemma our_readNumber_length: "length (snd (our_readNumber b l)) \<le> length l"
  using readNumber_length [of l] by (simp add: our_readNumber_def)

lemma our_scan_token_length: "our_scan_token F c l = (ty, ok, l') \<Longrightarrow> length l' \<le> length l"
  using readString_length [of l] our_readNumber_length [of False l] our_readNumber_length [of True l]
    readStringSingleQuote_length [of l] match_text_length [of "''rue''" l]
    match_text_length [of "''alse''" l] match_text_length [of "''ull''" l] match_text_length [of "''aN''" l]
    match_text_length [of "''nfinity''" l] match_text_length [of "''nfinity''" "snd (our_readNumber True l)"]
  by (auto simp: our_scan_token_def split: if_splits prod.splits bool.splits)

lemma our_readToken_length:
  assumes "our_readToken F rd = (rd', r)"
  shows "length (rd_current rd') \<le> length (rd_current rd) \<and>
    (\<forall>t. r = Inr t \<longrightarrow> length (ot_start t) \<le> length (rd_current rd) \<and>
      (ot_type t = Shared tokenEndOfStream \<or> length (rd_current rd') < length (rd_current rd)))"
proof -
  let ?s = "skipSpaces (rd_current rd)"
  have s: "length ?s \<le> length (rd_current rd)" by (simp add: skipSpaces_def length_dropWhile_le)
  show ?thesis
  proof (cases ?s)
    case Nil
    then show ?thesis
      using assms by (auto simp: our_readToken_def our_scan_token_def is_digit_def)
  next
    case (Cons c l)
    obtain ty ok l1 where sc: "our_scan_token F c l = (ty, ok, l1)" by (metis prod.exhaust)
    obtain rd1 k where co: "our_readComment c (rd\<lparr>rd_current := l\<rparr>) = (rd1, k)" by (metis prod.exhaust)
    have "length (rd_current rd1) \<le> length l"
      using our_readComment_length [of c "rd\<lparr>rd_current := l\<rparr>"] by (simp add: co)
    then have "length (rd_current rd') \<le> length l" "\<forall>t. r = Inr t \<longrightarrow> ot_start t = ?s"
      using assms our_scan_token_length [OF sc]
      by (cases k; auto simp: our_readToken_def Cons sc co Let_def split: if_splits)+
    with Cons s show ?thesis by auto
  qed
qed

function our_skip_comments :: "our_features \<Rightarrow> 'r reader \<Rightarrow> ('r reader, our_token) outcome" where
  "our_skip_comments F rd =
     (case our_readToken F rd of
        (rd1, Inl e) \<Rightarrow> (rd1, Inl e)
      | (rd1, Inr t) \<Rightarrow> if ot_type t = Shared tokenComment then our_skip_comments F rd1 else (rd1, Inr t))"
  by auto
termination
  by (relation "measure (\<lambda>(_, rd). length (rd_current rd))") (auto dest!: our_readToken_length [OF sym])

declare our_skip_comments.simps [simp del]

definition our_skipCommentTokens :: "our_features \<Rightarrow> 'r reader \<Rightarrow> ('r reader, our_token) outcome" where
  "our_skipCommentTokens F rd =
     (if allowComments F then our_skip_comments F rd else our_readToken F rd)"

section \<open>Errors\<close>

function our_skip_until :: "our_features \<Rightarrow> token_type \<Rightarrow> 'r reader \<Rightarrow> ('r reader, unit) outcome" where
  "our_skip_until F ty rd =
     (case our_readToken F rd of
        (rd1, Inl e) \<Rightarrow> (rd1, Inl e)
      | (rd1, Inr t) \<Rightarrow>
          if ot_type t = Shared ty \<or> ot_type t = Shared tokenEndOfStream then (rd1, Inr ())
          else our_skip_until F ty rd1)"
  by auto
termination
  by (relation "measure (\<lambda>(_, _, rd). length (rd_current rd))") (auto dest!: our_readToken_length [OF sym])

declare our_skip_until.simps [simp del]

definition our_addError :: "string \<Rightarrow> our_token \<Rightarrow> 'r reader \<Rightarrow> 'r reader" where
  "our_addError msg t rd = addError msg (shared_token t) None rd"

definition our_recoverFromError :: "our_features \<Rightarrow> token_type \<Rightarrow> 'r reader \<Rightarrow> ('r reader, bool) outcome" where
  "our_recoverFromError F ty rd =
     and_then (our_skip_until F ty rd)
       (\<lambda>_ rd1. (rd1\<lparr>rd_errors := take (length (rd_errors rd)) (rd_errors rd1)\<rparr>, Inr False))"

definition our_addErrorAndRecover ::
  "our_features \<Rightarrow> string \<Rightarrow> our_token \<Rightarrow> token_type \<Rightarrow> 'r reader \<Rightarrow> ('r reader, bool) outcome" where
  "our_addErrorAndRecover F msg t ty rd = our_recoverFromError F ty (our_addError msg t rd)"

section \<open>Numbers\<close>

text \<open>
  \<^verbatim>\<open>-Value::minLargestInt\<close> overflows, and so does the negation of the smallest integer: both are
  taken to wrap around.
\<close>

definition our_decodeDouble ::
  "'r scanner \<Rightarrow> our_token \<Rightarrow> 'r reader \<Rightarrow> 'r json_data option \<times> 'r reader" where
  "our_decodeDouble S t rd =
     (let buffer = span (ot_start t) (ot_end t)
      in case scan_double S buffer of
           None \<Rightarrow> (None, our_addError (quoted buffer @ '' is not a number.'') t rd)
         | Some r \<Rightarrow> (Some (J_real r), rd))"

definition our_decodeNumber ::
  "'r scanner \<Rightarrow> our_token \<Rightarrow> 'r reader \<Rightarrow> 'r json_data option \<times> 'r reader" where
  "our_decodeNumber S t rd =
     (let chars = span (ot_start t) (ot_end t);
          isNegative = (chars \<noteq> [] \<and> hd chars = CHR ''-'');
          maxIntegerValue = (if isNegative then - minLargestInt else - 1)
      in case decode_digits maxIntegerValue 0 (if isNegative then tl chars else chars) of
           None \<Rightarrow> our_decodeDouble S t rd
         | Some v \<Rightarrow>
             (Some (if isNegative then J_int (- v)
                    else if v \<le> 0x7FFFFFFF then J_int v
                    else J_uint v), rd))"


section \<open>Values\<close>

definition our_read_simple ::
  "our_features \<Rightarrow> 'r scanner \<Rightarrow> our_token \<Rightarrow> 'r reader \<Rightarrow> ('r reader, bool) outcome" where
  "our_read_simple F S t rd =
     (case ot_type t of
        tokenNaN \<Rightarrow> finish_value (swapPayload (J_real (double_nan S)) rd, Inr True)
      | tokenPosInf \<Rightarrow> finish_value (swapPayload (J_real (double_inf S)) rd, Inr True)
      | tokenNegInf \<Rightarrow> finish_value (swapPayload (J_real (double_neg_inf S)) rd, Inr True)
      | Shared ty \<Rightarrow>
          (case ty of
             tokenNumber \<Rightarrow> finish_value (set_decoded id (our_decodeNumber S t rd))
           | tokenString \<Rightarrow> finish_value (set_decoded J_string (decodeString (shared_token t) rd))
           | tokenTrue \<Rightarrow> finish_value (swapPayload (J_bool True) rd, Inr True)
           | tokenFalse \<Rightarrow> finish_value (swapPayload (J_bool False) rd, Inr True)
           | tokenNull \<Rightarrow> finish_value (swapPayload J_null rd, Inr True)
           | _ \<Rightarrow>
               if allowDroppedNullPlaceholders F
                 \<and> ty \<in> {tokenArraySeparator, tokenObjectEnd, tokenArrayEnd}
               then finish_value (swapPayload J_null (rd\<lparr>rd_current := ot_start t\<rparr>), Inr True)
               else (our_addError ''Syntax error: value, object or array expected.'' t rd, Inr False)))"

text \<open>A numeric key becomes the text of its number, which \<^verbatim>\<open>asString\<close> never refuses.\<close>

definition number_key :: "'r scanner \<Rightarrow> 'r json_data \<Rightarrow> string" where
  "number_key S d =
     (case asString (double_ops.truncate S) (json_of d) of Inr s \<Rightarrow> s | Inl _ \<Rightarrow> [])"

definition our_read_name ::
  "our_features \<Rightarrow> 'r scanner \<Rightarrow> our_token \<Rightarrow> 'r reader \<Rightarrow> 'r reader \<times> member_name" where
  "our_read_name F S t rd =
     (if ot_type t = Shared tokenString
      then (case decodeString (shared_token t) rd of
              (None, rd1) \<Rightarrow> (rd1, Bad_name)
            | (Some s, rd1) \<Rightarrow> (rd1, Name s))
      else if ot_type t = Shared tokenNumber \<and> allowNumericKeys F
      then (case our_decodeNumber S t rd of
              (None, rd1) \<Rightarrow> (rd1, Bad_name)
            | (Some d, rd1) \<Rightarrow> (rd1, Name (number_key S d)))
      else (rd, No_name))"

text \<open>\<^verbatim>\<open>currentValue().isMember(name)\<close>: the value at a node, and whether it has the member.\<close>

fun value_at :: "node \<Rightarrow> 'r json \<Rightarrow> 'r json option" where
  "value_at [] v = Some v"
| "value_at (Member k # p) v =
     (case j_data v of
        J_object ms \<Rightarrow> (case map_of ms k of None \<Rightarrow> None | Some w \<Rightarrow> value_at p w)
      | _ \<Rightarrow> None)"
| "value_at (Element i # p) v =
     (case j_data v of
        J_array es \<Rightarrow> (case map_of es i of None \<Rightarrow> None | Some w \<Rightarrow> value_at p w)
      | _ \<Rightarrow> None)"

definition has_member :: "string \<Rightarrow> 'r reader \<Rightarrow> bool" where
  "has_member name rd =
     (case value_at (currentValue rd) (rd_root rd) of
        None \<Rightarrow> False
      | Some v \<Rightarrow> isMember name v = Inr True)"

definition our_after_member ::
  "our_features \<Rightarrow> ('r reader \<Rightarrow> ('r, bool) reading) \<Rightarrow> ('r, bool) reading \<Rightarrow> ('r, bool) reading" where
  "our_after_member F again r =
     (case r of
        None \<Rightarrow> None
      | Some (rd, Inl e) \<Rightarrow> Some (rd, Inl e)
      | Some (rd, Inr ok) \<Rightarrow>
          if \<not> ok then Some (our_recoverFromError F tokenObjectEnd (pop_node rd))
          else
            (case our_readToken F (pop_node rd) of
               (rd1, Inl e) \<Rightarrow> Some (rd1, Inl e)
             | (rd1, Inr comma) \<Rightarrow>
                 if ot_type comma \<notin> Shared ` {tokenObjectEnd, tokenArraySeparator, tokenComment}
                 then Some (our_addErrorAndRecover F
                              (''Missing '' @ quoted '','' @ '' or '' @ quoted ''}'' @ '' in object declaration'')
                              comma tokenObjectEnd rd1)
                 else
                   (case (if ot_type comma = Shared tokenComment then our_skip_comments F rd1
                          else (rd1, Inr comma)) of
                      (rd2, Inl e) \<Rightarrow> Some (rd2, Inl e)
                    | (rd2, Inr comma1) \<Rightarrow>
                        if ot_type comma1 = Shared tokenObjectEnd then Some (rd2, Inr True)
                        else again rd2)))"

definition our_after_element ::
  "our_features \<Rightarrow> ('r reader \<Rightarrow> ('r, bool) reading) \<Rightarrow> ('r, bool) reading \<Rightarrow> ('r, bool) reading" where
  "our_after_element F again r =
     (case r of
        None \<Rightarrow> None
      | Some (rd, Inl e) \<Rightarrow> Some (rd, Inl e)
      | Some (rd, Inr ok) \<Rightarrow>
          if \<not> ok then Some (our_recoverFromError F tokenArrayEnd (pop_node rd))
          else
            (case our_skip_comments F (pop_node rd) of
               (rd1, Inl e) \<Rightarrow> Some (rd1, Inl e)
             | (rd1, Inr t) \<Rightarrow>
                 if ot_type t = Shared tokenArrayEnd then Some (rd1, Inr True)
                 else if ot_type t \<noteq> Shared tokenArraySeparator
                 then Some (our_addErrorAndRecover F
                              (''Missing '' @ quoted '','' @ '' or '' @ quoted '']'' @ '' in array declaration'')
                              t tokenArrayEnd rd1)
                 else again rd1))"

text \<open>
  A throw in \<^verbatim>\<open>readValue\<close> leaves it at once. As in \<open>Json_Reader\<close>, the number bounds the depth of calls.
\<close>

definition reading_then ::
  "('r reader, 'a) outcome \<Rightarrow> ('a \<Rightarrow> 'r reader \<Rightarrow> ('r, 'b) reading) \<Rightarrow> ('r, 'b) reading" where
  "reading_then r f = (case r of (rd, Inl e) \<Rightarrow> Some (rd, Inl e) | (rd, Inr x) \<Rightarrow> f x rd)"

lemma reading_then_simps [simp]:
  "reading_then (rd, Inl e) f = Some (rd, Inl e)"
  "reading_then (rd, Inr x) f = f x rd"
  by (simp_all add: reading_then_def)

lemma reading_then_cong [fundef_cong]:
  "r = r' \<Longrightarrow> (\<And>x rd. r' = (rd, Inr x) \<Longrightarrow> f x rd = g x rd) \<Longrightarrow> reading_then r f = reading_then r' g"
  by (cases r'; cases "snd r'") auto

fun
  our_readValue :: "our_features \<Rightarrow> 'r scanner \<Rightarrow> nat \<Rightarrow> 'r reader \<Rightarrow> ('r, bool) reading" and
  our_read_members ::
    "our_features \<Rightarrow> 'r scanner \<Rightarrow> nat \<Rightarrow> string \<Rightarrow> 'r reader \<Rightarrow> ('r, bool) reading" and
  our_read_elements ::
    "our_features \<Rightarrow> 'r scanner \<Rightarrow> nat \<Rightarrow> 32 word \<Rightarrow> 'r reader \<Rightarrow> ('r, bool) reading"
where
  "our_readValue F S 0 rd = None"
| "our_readValue F S (Suc n) rd =
     (if sint (of_stackLimit F) < sint (word_of_nat (length (rd_nodes rd)) :: 32 word)
      then Some (rd, Inl (Runtime_error ''Exceeded stackLimit in readValue().''))
      else
        reading_then (our_skipCommentTokens F rd) (\<lambda>t rd1.
        reading_then (our_attach_comments rd1) (\<lambda>_ rd2.
          if ot_type t = Shared tokenObjectBegin
          then map_option finish_value (our_read_members F S n [] (swapPayload (J_object []) rd2))
          else if ot_type t = Shared tokenArrayBegin
          then
            let rd3 = swapPayload (J_array []) rd2; l = skipSpaces (rd_current rd3);
                rd4 = rd3\<lparr>rd_current := l\<rparr>
            in if l \<noteq> [] \<and> hd l = CHR '']''
               then reading_then (our_readToken F rd4) (\<lambda>_ rd5. Some (finish_value (rd5, Inr True)))
               else map_option finish_value (our_read_elements F S n 0 rd4)
          else Some (our_read_simple F S t rd2))))"
| "our_read_members F S 0 name rd = None"
| "our_read_members F S (Suc n) name rd =
     reading_then (our_skip_comments F rd) (\<lambda>t rd1.
       if ot_type t = Shared tokenObjectEnd \<and> name = [] then Some (rd1, Inr True)
       else
         (case our_read_name F S t rd1 of
            (rd2, Bad_name) \<Rightarrow> Some (our_recoverFromError F tokenObjectEnd rd2)
          | (rd2, No_name) \<Rightarrow>
              Some (our_addErrorAndRecover F (''Missing '' @ quoted ''}'' @ '' or object member name'')
                      t tokenObjectEnd rd2)
          | (rd2, Name name1) \<Rightarrow>
              reading_then (our_readToken F rd2) (\<lambda>colon rd3.
                if ot_type colon \<noteq> Shared tokenMemberSeparator
                then Some (our_addErrorAndRecover F (''Missing '' @ quoted '':'' @ '' after object member name'')
                             colon tokenObjectEnd rd3)
                else if 2 ^ 30 \<le> length name1
                then Some (rd3, Inl (Runtime_error ''keylength >= 2^30''))
                else if rejectDupKeys F \<and> has_member name1 rd3
                then Some (our_addErrorAndRecover F (''Duplicate key: '' @ quoted name1) t tokenObjectEnd rd3)
                else
                  our_after_member F (our_read_members F S n name1)
                    (our_readValue F S n (push_node (Member name1) rd3)))))"
| "our_read_elements F S 0 i rd = None"
| "our_read_elements F S (Suc n) i rd =
     (if i = 0x7FFFFFFF then Some (rd, Inl (Undefined ''index overflow''))
      else
        our_after_element F (our_read_elements F S n (i + 1))
          (our_readValue F S n (push_node (Element i) rd)))"

section \<open>Documents\<close>

definition our_start :: "our_features \<Rightarrow> location \<Rightarrow> 'r json \<Rightarrow> bool \<Rightarrow> 'r reader \<Rightarrow> 'r reader" where
  "our_start F doc root collectComments rd =
     rd\<lparr>rd_errors := [], rd_document := doc, rd_current := doc, rd_lastValueEnd := None,
        rd_lastValue := [], rd_commentsBefore := [],
        rd_collectComments := collectComments \<and> allowComments F,
        rd_nodes := [[]], rd_root := root\<rparr>"

definition our_finish ::
  "our_features \<Rightarrow> location \<Rightarrow> bool \<Rightarrow> our_token \<Rightarrow> 'r reader \<Rightarrow> ('r reader, bool) outcome" where
  "our_finish F doc successful t rd =
     (if failIfExtra F \<and> (strictRoot F \<or> ot_type t \<noteq> Shared tokenError)
         \<and> ot_type t \<noteq> Shared tokenEndOfStream
      then (our_addError ''Extra non-whitespace after JSON value.'' t rd, Inr False)
      else if rd_collectComments rd \<and> rd_commentsBefore rd \<noteq> [] \<and> \<not> comment_ok (rd_commentsBefore rd)
      then (rd, Inl bad_comment)
      else
        let rd1 = (if rd_collectComments rd \<and> rd_commentsBefore rd \<noteq> []
                   then update_node [] (setComment (rd_commentsBefore rd) commentAfter) rd
                   else rd)
        in if strictRoot F \<and> \<not> isArray (rd_root rd1) \<and> \<not> isObject (rd_root rd1)
           then (addError ''A valid JSON document must be either an array or an object value.''
                   \<lparr>tk_type = tokenError, tk_start = doc, tk_end = []\<rparr> None rd1, Inr False)
           else (rd1, Inr successful))"

definition our_parse ::
  "our_features \<Rightarrow> 'r scanner \<Rightarrow> location \<Rightarrow> 'r json \<Rightarrow> bool \<Rightarrow> 'r reader \<Rightarrow> ('r, bool) reading" where
  "our_parse F S doc root collectComments rd =
     (case our_readValue F S (reader_fuel doc) (our_start F doc root collectComments rd) of
        None \<Rightarrow> None
      | Some r \<Rightarrow>
          reading_then r (\<lambda>successful rd1.
          reading_then (our_skipCommentTokens F rd1) (\<lambda>t rd2. Some (our_finish F doc successful t rd2))))"


section \<open>CharReader and its builder\<close>

text \<open>\<^verbatim>\<open>CharReader::parse\<close>: the result and the text of the errors.\<close>

definition CharReader_parse ::
  "bool \<times> our_features \<Rightarrow> 'r scanner \<Rightarrow> location \<Rightarrow> 'r json \<Rightarrow> 'r reader \<Rightarrow> ('r, bool \<times> string) reading" where
  "CharReader_parse cr S doc root rd =
     (case our_parse (snd cr) S doc root (fst cr) rd of
        None \<Rightarrow> None
      | Some r \<Rightarrow> reading_then r (\<lambda>ok rd1. Some (rd1, Inr (ok, getFormattedErrorMessages rd1))))"

definition or_throw :: "exn + 'a \<Rightarrow> ('a \<Rightarrow> exn + 'b) \<Rightarrow> exn + 'b" where
  "or_throw r f = (case r of Inl e \<Rightarrow> Inl e | Inr x \<Rightarrow> f x)"

lemma or_throw_simps [simp]: "or_throw (Inl e) f = Inl e" "or_throw (Inr x) f = f x"
  by (simp_all add: or_throw_def)

text \<open>\<^verbatim>\<open>settings_[key]\<close> of constant settings, and \<^verbatim>\<open>(*settings)[key] = x\<close>.\<close>

definition setting :: "'r json \<Rightarrow> string \<Rightarrow> exn + 'r json" where
  "setting settings key = json_get key nullSingleton settings"

fun set_settings :: "(string \<times> 'r json_data) list \<Rightarrow> 'r json \<Rightarrow> exn + 'r json" where
  "set_settings [] settings = Inr settings"
| "set_settings ((key, d) # kvs) settings =
     or_throw (json_member key (\<lambda>_. Inr (json_of d)) settings) (set_settings kvs)"

definition setDefaults :: "'r json \<Rightarrow> exn + 'r json" where
  "setDefaults = set_settings
     [(''collectComments'', J_bool True), (''allowComments'', J_bool True), (''strictRoot'', J_bool False),
      (''allowDroppedNullPlaceholders'', J_bool False), (''allowNumericKeys'', J_bool False),
      (''allowSingleQuotes'', J_bool False), (''stackLimit'', J_int 1000), (''failIfExtra'', J_bool False),
      (''rejectDupKeys'', J_bool False), (''allowSpecialFloats'', J_bool False)]"

definition set_strictMode :: "'r json \<Rightarrow> exn + 'r json" where
  "set_strictMode = set_settings
     [(''allowComments'', J_bool False), (''strictRoot'', J_bool True),
      (''allowDroppedNullPlaceholders'', J_bool False), (''allowNumericKeys'', J_bool False),
      (''allowSingleQuotes'', J_bool False), (''stackLimit'', J_int 1000), (''failIfExtra'', J_bool True),
      (''rejectDupKeys'', J_bool True), (''allowSpecialFloats'', J_bool False)]"

definition CharReaderBuilder :: "exn + 'r json" where
  "CharReaderBuilder = setDefaults nullSingleton"

definition newCharReader :: "'r double_ops \<Rightarrow> 'r json \<Rightarrow> exn + bool \<times> our_features" where
  "newCharReader R settings =
     (let flag = (\<lambda>key f. or_throw (setting settings key) (\<lambda>v. or_throw (asBool R v) f))
      in flag ''collectComments'' (\<lambda>collectComments.
         flag ''allowComments'' (\<lambda>comments.
         flag ''strictRoot'' (\<lambda>strict.
         flag ''allowDroppedNullPlaceholders'' (\<lambda>dropped.
         flag ''allowNumericKeys'' (\<lambda>numeric.
         flag ''allowSingleQuotes'' (\<lambda>single.
         or_throw (setting settings ''stackLimit'') (\<lambda>v. or_throw (asInt R v) (\<lambda>limit.
         flag ''failIfExtra'' (\<lambda>extra.
         flag ''rejectDupKeys'' (\<lambda>dup.
         flag ''allowSpecialFloats'' (\<lambda>special.
           Inr (collectComments,
             \<lparr>allowComments = comments, strictRoot = strict, allowDroppedNullPlaceholders = dropped,
              allowNumericKeys = numeric, allowSingleQuotes = single, failIfExtra = extra,
              rejectDupKeys = dup, allowSpecialFloats = special, of_stackLimit = limit\<rparr>)))))))))))))"

definition getValidReaderKeys :: "string list" where
  "getValidReaderKeys =
     [''collectComments'', ''allowComments'', ''strictRoot'', ''allowDroppedNullPlaceholders'',
      ''allowNumericKeys'', ''allowSingleQuotes'', ''stackLimit'', ''failIfExtra'', ''rejectDupKeys'',
      ''allowSpecialFloats'']"

text \<open>\<^verbatim>\<open>validate\<close>: the settings that are unknown are copied to \<open>invalid\<close>, which has to stay empty.\<close>

fun copy_invalid :: "string list \<Rightarrow> 'r json \<Rightarrow> string list \<Rightarrow> 'r json \<Rightarrow> exn + 'r json" where
  "copy_invalid valid_keys settings [] bad = Inr bad"
| "copy_invalid valid_keys settings (key # keys) bad =
     (if key \<in> set valid_keys then copy_invalid valid_keys settings keys bad
      else
        or_throw (setting settings key) (\<lambda>v.
        or_throw (json_member key (\<lambda>_. Inr v) bad) (copy_invalid valid_keys settings keys)))"

definition builder_validate :: "string list \<Rightarrow> 'r json \<Rightarrow> 'r json \<Rightarrow> exn + 'r json \<times> bool" where
  "builder_validate valid_keys settings invalid =
     or_throw (getMemberNames settings) (\<lambda>keys.
     or_throw (copy_invalid valid_keys settings keys invalid) (\<lambda>bad. Inr (bad, json_size bad = 0)))"

end
