(* ===== verification/Json_Char_Reader.thy ===== *)
theory Json_Char_Reader
  imports Json_Our_Reader "HOL-Library.Sublist"
begin

text \<open>
  \<^verbatim>\<open>OurReader\<close> does what \<^verbatim>\<open>Reader\<close> does when its additional options are off, on documents without
  single quotes and without an infinity: both run through the same states (\<open>our_reads\<close>), as long as
  what is left of the document is such a document (\<open>alike\<close>). Both end on every document, and a
  quote in the place of a slash is a comment that makes \<^verbatim>\<open>OurReader\<close> throw.
\<close>

section \<open>Suffixes\<close>

lemma suffix_dropWhile: "suffix (dropWhile P l) l"
  by (metis suffix_def takeWhile_dropWhile_id)

lemma c_comment_body_suffix: "suffix (c_comment_body l) l"
  by (induction l rule: c_comment_body.induct) (auto simp: suffix_Cons)

lemma getNextChar_suffix: "suffix (snd (getNextChar l)) l"
  by (cases l) (simp_all add: suffix_Cons)

lemma readCStyleComment_suffix: "suffix (snd (readCStyleComment l)) l"
  using c_comment_body_suffix [of l] getNextChar_suffix [of "c_comment_body l"]
  by (auto simp: readCStyleComment_def split: prod.splits intro: suffix_order.trans)

lemma readCppStyleComment_suffix: "suffix (readCppStyleComment l) l"
proof (induction l rule: readCppStyleComment.induct)
  case (2 c l)
  have "suffix (case l of d # l1 \<Rightarrow> (if d = CHR 0x0A then l1 else l) | [] \<Rightarrow> l) l"
    by (cases l) (simp_all add: suffix_Cons)
  with 2 show ?case unfolding readCppStyleComment.simps(2) by (simp add: suffix_Cons)
qed simp

lemma comment_end_suffix: "suffix (snd (snd (comment_end l))) l"
  using getNextChar_suffix [of l] readCStyleComment_suffix [of "snd (getNextChar l)"]
    readCppStyleComment_suffix [of "snd (getNextChar l)"]
  by (auto simp: comment_end_def Let_def split: prod.splits if_splits intro: suffix_order.trans)

lemma readString_suffix: "suffix (snd (readString l)) l"
proof (induction l rule: readString.induct)
  case (2 c l)
  then show ?case
    by (subst readString.simps) (simp split: list.split add: suffix_Cons)
qed simp

lemma skip_digits_suffix: "suffix (skip_digits l) l"
  by (simp add: skip_digits_def suffix_dropWhile)

lemma suffix_tl: "l \<noteq> [] \<Longrightarrow> suffix x (tl l) \<Longrightarrow> suffix x l"
  by (cases l) (simp_all add: suffix_Cons)

lemma readNumber_suffix: "suffix (readNumber l) l"
proof -
  define l2 where "l2 = (case skip_digits l of c # m \<Rightarrow>
      (if c = CHR ''.'' then skip_digits m else skip_digits l) | [] \<Rightarrow> skip_digits l)"
  have "suffix l2 (skip_digits l)"
    by (simp add: l2_def suffix_Cons skip_digits_suffix split: list.split)
  with skip_digits_suffix [of l] have l2: "suffix l2 l" by (rule suffix_order.trans [rotated])
  have sk: "suffix (skip_digits m) k" if "suffix m k" for m k
    using skip_digits_suffix that by (rule suffix_order.trans)
  have "suffix (readNumber l) l2"
  proof (cases l2)
    case (Cons c m)
    have "suffix (skip_digits (case m of d # m1 \<Rightarrow> if d = CHR ''+'' \<or> d = CHR ''-'' then m1 else m | [] \<Rightarrow> m)) l2"
      by (rule sk) (simp add: Cons suffix_Cons split: list.split)
    then show ?thesis
      unfolding readNumber_def l2_def [symmetric] Let_def by (simp add: Cons)
  qed (simp add: readNumber_def l2_def [symmetric] Let_def)
  with l2 show ?thesis by (rule suffix_order.trans [rotated])
qed

lemma match_text_suffix: "suffix (snd (match_text p l)) l"
  by (simp add: match_text_def suffix_drop)

lemma scan_token_suffix: "suffix (snd (snd (scan_token c l))) l"
  using readString_suffix [of l] readNumber_suffix [of l] match_text_suffix [of "''rue''" l]
    match_text_suffix [of "''alse''" l] match_text_suffix [of "''ull''" l]
  by (simp add: scan_token_def)

section \<open>Documents that both parsers read\<close>

definition plain_doc :: "location \<Rightarrow> bool" where
  "plain_doc l \<longleftrightarrow> CHR 0x27 \<notin> set l \<and> (\<nexists>a b. l = a @ ''-I'' @ b) \<and> length l < 2 ^ 30"

lemma plain_doc_suffix: "plain_doc l \<Longrightarrow> suffix m l \<Longrightarrow> plain_doc m"
  unfolding plain_doc_def suffix_def
proof (elim conjE exE, intro conjI)
  fix zs
  assume n: "\<nexists>a b. l = a @ ''-I'' @ b" and l: "l = zs @ m"
  show "\<nexists>a b. m = a @ ''-I'' @ b"
  proof
    assume "\<exists>a b. m = a @ ''-I'' @ b"
    then obtain a b where "m = a @ ''-I'' @ b" by blast
    with l have "l = (zs @ a) @ ''-I'' @ b" by simp
    with n show False by blast
  qed
qed auto

text \<open>
  The two read a \<^verbatim>\<open>double\<close> with different functions: \<open>rdbl\<close> is \<^verbatim>\<open>istringstream >> double\<close> of \<^verbatim>\<open>Reader\<close>,
  \<open>scan_double S\<close> is \<^verbatim>\<open>sscanf\<close> of \<^verbatim>\<open>OurReader\<close>. They have to agree on the numbers of the document; they
  do not on one that is too large (\<^verbatim>\<open>1e999\<close>) or has no exponent after its \<^verbatim>\<open>e\<close> (\<^verbatim>\<open>1e\<close>), which only the
  second takes.
\<close>

fun numbers_agree :: "(string \<Rightarrow> 'r option) \<Rightarrow> 'r scanner \<Rightarrow> location \<Rightarrow> bool" where
  "numbers_agree rdbl S [] = True"
| "numbers_agree rdbl S (c # l) \<longleftrightarrow>
     (is_digit c \<or> c = CHR ''-'' \<longrightarrow>
        rdbl (span (c # l) (readNumber l)) = scan_double S (span (c # l) (readNumber l))) \<and>
     numbers_agree rdbl S l"

lemma numbers_agree_suffix: "suffix m l \<Longrightarrow> numbers_agree rdbl S l \<Longrightarrow> numbers_agree rdbl S m"
  by (induction l) (auto simp: suffix_Cons)

lemma numbers_agree_same [simp]: "numbers_agree (scan_double S) S l"
  by (induction l) simp_all

definition same_doc :: "(string \<Rightarrow> 'r option) \<Rightarrow> 'r scanner \<Rightarrow> location \<Rightarrow> bool" where
  "same_doc rdbl S l \<longleftrightarrow> plain_doc l \<and> numbers_agree rdbl S l"

lemma same_doc_suffix: "same_doc rdbl S l \<Longrightarrow> suffix m l \<Longrightarrow> same_doc rdbl S m"
  using plain_doc_suffix numbers_agree_suffix by (auto simp: same_doc_def)

text \<open>A token that both read alike.\<close>

definition same_token :: "(string \<Rightarrow> 'r option) \<Rightarrow> 'r scanner \<Rightarrow> token \<Rightarrow> bool" where
  "same_token rdbl S t \<longleftrightarrow> same_doc rdbl S (tk_start t) \<and>
     (tk_type t = tokenNumber \<longrightarrow>
        rdbl (span (tk_start t) (tk_end t)) = scan_double S (span (tk_start t) (tk_end t)))"

lemma scan_token_same:
  assumes "same_doc rdbl S (c # l)" and "scan_token c l = (ty, ok, l')" and "ty = tokenNumber"
  shows "rdbl (span (c # l) l') = scan_double S (span (c # l) l')"
  using assms by (auto simp: same_doc_def scan_token_def split: if_splits prod.splits)

lemma scan_token_NUL: "scan_token (CHR 0x00) l = (ty, ok, l') \<Longrightarrow> ty \<noteq> tokenNumber"
  by (auto simp: scan_token_def is_digit_def)

definition alike ::
  "(string \<Rightarrow> 'r option) \<Rightarrow> 'r scanner \<Rightarrow> our_features \<Rightarrow> node list \<Rightarrow> 'r reader \<Rightarrow> bool" where
  "alike rdbl S F ns rd \<longleftrightarrow> rd_features rd = features.truncate F \<and> same_doc rdbl S (rd_current rd) \<and>
     comment_ok (rd_commentsBefore rd) \<and> rd_nodes rd = ns"

definition as_reader :: "our_features \<Rightarrow> bool" where
  "as_reader F \<longleftrightarrow> \<not> allowNumericKeys F \<and> \<not> failIfExtra F \<and> \<not> rejectDupKeys F \<and>
     \<not> allowSpecialFloats F \<and> of_stackLimit F = 1000"

definition lift_token :: "token \<Rightarrow> our_token" where
  "lift_token t = \<lparr>ot_type = Shared (tk_type t), ot_start = tk_start t, ot_end = tk_end t\<rparr>"

lemma lift_token [simp]:
  "ot_type (lift_token t) = Shared (tk_type t)" "ot_start (lift_token t) = tk_start t"
  "ot_end (lift_token t) = tk_end t" "shared_token (lift_token t) = t"
  by (simp_all add: lift_token_def shared_token_def)

lemma normalizeEOL_slash: "normalizeEOL (CHR ''/'' # s) = CHR ''/'' # normalizeEOL s"
  by simp

lemma span_slash: "suffix l' l \<Longrightarrow> span (c # l) l' = c # span l l'"
  by (auto simp: span_def Suc_diff_le dest: suffix_length_le)


section \<open>Tokens\<close>

lemma suffix_skipSpaces: "suffix (skipSpaces l) l"
  by (simp add: skipSpaces_def suffix_dropWhile)

lemma plain_getNextChar: "same_doc rdbl S l \<Longrightarrow> getNextChar l = (c, l') \<Longrightarrow> same_doc rdbl S l' \<and> c \<noteq> CHR 0x27"
  using same_doc_suffix [of rdbl S l l'] getNextChar_suffix [of l]
  by (cases l) (auto simp: same_doc_def plain_doc_def)

lemma update_node_reader [simp]:
  "rd_commentsBefore (update_node p f rd) = rd_commentsBefore rd"
  "rd_collectComments (update_node p f rd) = rd_collectComments rd"
  by (simp_all add: update_node_def split: sum.split)

lemma readComment_alike:
  assumes "rd_features rd = features.truncate F" and "comment_ok (rd_commentsBefore rd)" and "rd_nodes rd = ns"
    and "same_doc rdbl S (rd_current rd)" and "readComment rd = (ok, rd')"
  shows "our_readComment (CHR ''/'') rd = (rd', Inr ok) \<and> alike rdbl S F ns rd'"
proof -
  obtain c k l where c: "comment_end (rd_current rd) = (c, k, l)" by (metis prod.exhaust)
  have suf: "suffix l (rd_current rd)" using comment_end_suffix [of "rd_current rd"] by (simp add: c)
  with assms(4) have pl: "same_doc rdbl S l" by (rule same_doc_suffix)
  obtain t where n: "normalizeEOL (span (CHR ''/'' # rd_current rd) l) = CHR ''/'' # t"
    using span_slash [OF suf, of "CHR ''/''"] by (simp add: normalizeEOL_slash)
  have ok: "comment_ok (CHR ''/'' # t)" "comment_ok (rd_commentsBefore rd @ CHR ''/'' # t)"
    using assms(2) by (auto simp: comment_ok_def hd_append)
  show ?thesis
    using assms ok pl
    by (auto simp: readComment_def our_readComment_def c Let_def n addComment_def our_addComment_def alike_def)
qed

lemma our_scan_token_plain:
  assumes "plain_doc (c # l)" and "as_reader F"
  shows "our_scan_token F c l = (case scan_token c l of (ty, ok, l') \<Rightarrow> (Shared ty, ok, l'))"
proof -
  have I: "\<not> (l \<noteq> [] \<and> hd l = CHR ''I'')" if "c = CHR ''-''"
  proof
    assume "l \<noteq> [] \<and> hd l = CHR ''I''"
    then have "c # l = [] @ ''-I'' @ tl l" using that by (cases l) simp_all
    with assms(1) show False unfolding plain_doc_def by blast
  qed
  have c: "c \<noteq> CHR 0x27" using assms(1) by (auto simp: plain_doc_def)
  have f: "\<not> allowSpecialFloats F" using assms(2) by (simp add: as_reader_def)
  have n: "our_readNumber False l = (True, readNumber l)" by (simp add: our_readNumber_def)
  show ?thesis
  proof (cases "c = CHR ''-''")
    case True
    have "our_readNumber True l = (True, readNumber l)" using I [OF True] by (simp add: our_readNumber_def)
    then show ?thesis by (simp add: True our_scan_token_def scan_token_def is_digit_def)
  next
    case False
    with c f n show ?thesis by (simp add: our_scan_token_def scan_token_def split: prod.split)
  qed
qed

lemma readToken_alike:
  assumes "alike rdbl S F ns rd" and "as_reader F" and "readToken rd = (t, rd')"
  shows "our_readToken F rd = (rd', Inr (lift_token t)) \<and> alike rdbl S F ns rd' \<and> same_token rdbl S t"
proof -
  let ?s = "skipSpaces (rd_current rd)"
  obtain c l where g: "getNextChar ?s = (c, l)" by (metis prod.exhaust)
  have ps: "same_doc rdbl S ?s" using assms(1) suffix_skipSpaces by (auto simp: alike_def intro: same_doc_suffix)
  with g have pl: "same_doc rdbl S l" "c \<noteq> CHR 0x27" using plain_getNextChar by blast+
  show ?thesis
  proof (cases "c = CHR ''/''")
    case True
    obtain ok rd1 where r: "readComment (rd\<lparr>rd_current := l\<rparr>) = (ok, rd1)" by (metis prod.exhaust)
    have "our_readComment (CHR ''/'') (rd\<lparr>rd_current := l\<rparr>) = (rd1, Inr ok) \<and> alike rdbl S F ns rd1"
      by (rule readComment_alike [OF _ _ _ _ r]) (use assms(1) pl in \<open>simp_all add: alike_def\<close>)
    moreover have "t = \<lparr>tk_type = (if ok then tokenComment else tokenError), tk_start = ?s,
        tk_end = rd_current rd1\<rparr>" "rd' = rd1"
      using assms(3) [symmetric] by (simp_all add: readToken_def g True r)
    ultimately show ?thesis
      using ps by (simp add: our_readToken_def g True lift_token_def same_token_def)
  next
    case False
    obtain ty ok l1 where sc: "scan_token c l = (ty, ok, l1)" by (metis prod.exhaust)
    have "our_scan_token F c l = (Shared ty, ok, l1)"
    proof (cases "?s")
      case Nil
      with g have "c = CHR 0x00" "l = []" by simp_all
      with sc show ?thesis by (simp add: our_scan_token_def scan_token_def is_digit_def)
    next
      case (Cons d m)
      with g have "?s = c # l" by simp
      with ps have "plain_doc (c # l)" by (simp add: same_doc_def)
      from our_scan_token_plain [OF this assms(2)] sc show ?thesis by simp
    qed
    moreover have "same_doc rdbl S l1"
      using same_doc_suffix [OF pl(1)] scan_token_suffix [of c l] by (simp add: sc)
    moreover have "rdbl (span ?s l1) = scan_double S (span ?s l1)" if "ty = tokenNumber"
    proof (cases "?s")
      case Nil
      with g sc that show ?thesis using scan_token_NUL by fastforce
    next
      case (Cons d m)
      with g ps sc that show ?thesis using scan_token_same by fastforce
    qed
    moreover have "t = \<lparr>tk_type = (if ok then ty else tokenError), tk_start = ?s, tk_end = l1\<rparr>"
      "rd' = rd\<lparr>rd_current := l1\<rparr>"
      using assms(3) [symmetric] by (simp_all add: readToken_def g False sc)
    ultimately show ?thesis
      using assms(1) ps pl(2) False by (simp add: our_readToken_def g lift_token_def alike_def same_token_def)
  qed
qed

lemma skip_comments_alike:
  assumes "alike rdbl S F ns rd" and "as_reader F" and "skip_comments rd = (t, rd')"
  shows "our_skip_comments F rd = (rd', Inr (lift_token t)) \<and> alike rdbl S F ns rd' \<and> same_token rdbl S t"
  using assms
proof (induction rd rule: skip_comments.induct)
  case (1 rd)
  obtain t1 rd1 where r: "readToken rd = (t1, rd1)" by (metis prod.exhaust)
  from readToken_alike [OF "1.prems"(1,2) r]
  have "our_readToken F rd = (rd1, Inr (lift_token t1))" "alike rdbl S F ns rd1" "same_token rdbl S t1" by simp_all
  with "1.IH" [OF r [symmetric] _ \<open>alike rdbl S F ns rd1\<close> "1.prems"(2)] "1.prems"(3) r show ?case
    by (subst our_skip_comments.simps, subst (asm) (2) skip_comments.simps) (auto split: if_splits)
qed

lemma skipCommentTokens_alike:
  assumes "alike rdbl S F ns rd" and "as_reader F" and "skipCommentTokens rd = (t, rd')"
  shows "our_skipCommentTokens F rd = (rd', Inr (lift_token t)) \<and> alike rdbl S F ns rd' \<and> same_token rdbl S t"
proof -
  have "allowComments (rd_features rd) = allowComments F"
    using assms(1) by (simp add: alike_def features.defs)
  then show ?thesis
    using assms readToken_alike [OF assms(1,2), of t rd'] skip_comments_alike [OF assms(1,2), of t rd']
    by (auto simp: skipCommentTokens_def our_skipCommentTokens_def split: if_splits)
qed

lemma skip_until_alike:
  assumes "alike rdbl S F ns rd" and "as_reader F"
  shows "our_skip_until F ty rd = (skip_until ty rd, Inr ()) \<and> alike rdbl S F ns (skip_until ty rd)"
  using assms
proof (induction ty rd rule: skip_until.induct)
  case (1 ty rd)
  obtain t1 rd1 where r: "readToken rd = (t1, rd1)" by (metis prod.exhaust)
  from readToken_alike [OF "1.prems"(1,2) r]
  have "our_readToken F rd = (rd1, Inr (lift_token t1))" "alike rdbl S F ns rd1" by simp_all
  with "1.IH" [OF r [symmetric] _ \<open>alike rdbl S F ns rd1\<close> "1.prems"(2)] r show ?case
    by (subst our_skip_until.simps, subst (1 2) skip_until.simps) auto
qed


section \<open>Values\<close>

lemma alike_updates [simp]:
  "alike rdbl S F ns (update_node p f rd) = alike rdbl S F ns rd"
  "alike rdbl S F ns (rd\<lparr>rd_errors := es\<rparr>) = alike rdbl S F ns rd"
  "alike rdbl S F ns (rd\<lparr>rd_lastValueEnd := e, rd_lastValue := p\<rparr>) = alike rdbl S F ns rd"
  "alike rdbl S F ns (swapPayload d rd) = alike rdbl S F ns rd"
  "alike rdbl S F ns (value_read rd) = alike rdbl S F ns rd"
  "alike rdbl S F ns (addError m t x rd) = alike rdbl S F ns rd"
  by (simp_all add: alike_def swapPayload_def push_node_def pop_node_def value_read_def addError_def Let_def)

lemma alike_push: "alike rdbl S F ns rd \<Longrightarrow> alike rdbl S F ((hd ns @ [s]) # ns) (push_node s rd)"
  by (simp add: alike_def push_node_def currentValue_def Let_def)

lemma alike_pop: "alike rdbl S F (p # ns) rd \<Longrightarrow> alike rdbl S F ns (pop_node rd)"
  by (simp add: alike_def pop_node_def)

lemma alike_current: "alike rdbl S F ns rd \<Longrightarrow> same_doc rdbl S l \<Longrightarrow> alike rdbl S F ns (rd\<lparr>rd_current := l\<rparr>)"
  by (simp add: alike_def)

lemma attach_alike:
  assumes "alike rdbl S F ns rd"
  shows "our_attach_comments rd = (attach_comments rd, Inr ())" and "alike rdbl S F ns (attach_comments rd)"
  using assms by (auto simp: our_attach_comments_def attach_comments_def alike_def comment_ok_def)

lemma recover_alike:
  assumes "alike rdbl S F ns rd" and "as_reader F"
  shows "our_recoverFromError F ty rd = (recoverFromError ty rd, Inr False)"
    and "alike rdbl S F ns (recoverFromError ty rd)"
    and "our_addErrorAndRecover F m (lift_token t) ty rd = (addErrorAndRecover m t ty rd, Inr False)"
    and "alike rdbl S F ns (addErrorAndRecover m t ty rd)"
proof -
  have *: "our_recoverFromError F ty rd = (recoverFromError ty rd, Inr False) \<and> alike rdbl S F ns (recoverFromError ty rd)"
    if "alike rdbl S F ns rd" for rd :: "'a reader"
    using skip_until_alike [OF that assms(2), of ty]
    by (simp add: our_recoverFromError_def recoverFromError_def Let_def)
  show "our_recoverFromError F ty rd = (recoverFromError ty rd, Inr False)"
    "alike rdbl S F ns (recoverFromError ty rd)"
    using * [OF assms(1)] by simp_all
  have "alike rdbl S F ns (addError m t None rd)" using assms(1) by simp
  from * [OF this]
  show "our_addErrorAndRecover F m (lift_token t) ty rd = (addErrorAndRecover m t ty rd, Inr False)"
    "alike rdbl S F ns (addErrorAndRecover m t ty rd)"
    by (simp_all add: our_addErrorAndRecover_def addErrorAndRecover_def our_addError_def)
qed

lemma decodeNumber_alike:
  assumes "same_token rdbl S t" and "tk_type t = tokenNumber"
  shows "our_decodeNumber S (lift_token t) rd = decodeNumber rdbl t rd"
proof -
  have "- minLargestInt = push_bit 63 (1 :: 64 word)" "- push_bit 63 (1 :: 64 word) = minLargestInt"
    by (simp_all add: minLargestInt_def)
  then show ?thesis
    using assms
    by (simp add: same_token_def our_decodeNumber_def decodeNumber_def our_decodeDouble_def decodeDouble_def
        our_addError_def Let_def split: option.split)
qed

lemma decode_alike:
  "alike rdbl S F ns (snd (decodeNumber rdbl' t rd)) = alike rdbl S F ns rd"
  "alike rdbl S F ns (snd (decodeString t rd)) = alike rdbl S F ns rd"
  by (simp_all add: decodeNumber_def decodeDouble_def decodeString_def Let_def split: option.split sum.split)

lemma finish_alike [simp]: "alike rdbl S F ns (fst (finish_value r)) = alike rdbl S F ns (fst r)"
  by (cases r; cases "snd r") (auto simp: finish_value_def)

lemma set_decoded_alike [simp]: "alike rdbl S F ns (fst (set_decoded mk x)) = alike rdbl S F ns (snd x)"
  by (simp add: set_decoded_def split: prod.split option.split)

lemma read_simple_alike:
  assumes "alike rdbl S F ns rd" and "same_token rdbl S t"
  shows "our_read_simple F S (lift_token t) rd = read_simple rdbl t rd"
    and "alike rdbl S F ns (fst (read_simple rdbl' t rd))"
proof -
  have "allowDroppedNullPlaceholders (rd_features rd) = allowDroppedNullPlaceholders F"
    using assms(1) by (simp add: alike_def features.defs)
  then show "our_read_simple F S (lift_token t) rd = read_simple rdbl t rd"
    by (cases "tk_type t")
      (simp_all add: our_read_simple_def read_simple_def decodeNumber_alike [OF assms(2)] our_addError_def)
  show "alike rdbl S F ns (fst (read_simple rdbl' t rd))"
    using assms by (cases "tk_type t") (simp_all add: read_simple_def decode_alike alike_current same_token_def)
qed

text \<open>A decoded string is no longer than its text.\<close>

lemma codePointToUTF8_length: "length (codePointToUTF8 cp) \<le> 4"
  by (simp add: codePointToUTF8_def)

lemma decode_hex_drop: "decode_hex n u cs = Inr (v, cs') \<Longrightarrow> n \<le> length cs \<Longrightarrow> length cs' + n = length cs"
  by (induction n u cs rule: decode_hex.induct) (auto split: option.splits)

lemma decodeUnicode_drop:
  assumes "decodeUnicodeCodePoint cs = Inr (v, cs')"
  shows "length cs' + 4 \<le> length cs"
proof -
  have e: "length ds' + 4 = length ds" if "decodeUnicodeEscapeSequence ds = Inr (x, ds')" for ds x ds'
    using that decode_hex_drop [of 4 0 ds x ds'] by (auto simp: decodeUnicodeEscapeSequence_def split: if_splits)
  obtain u cs1 where u: "decodeUnicodeEscapeSequence cs = Inr (u, cs1)"
    using assms by (auto simp: decodeUnicodeCodePoint_def split: sum.splits)
  from e [OF u] have l1: "length cs1 + 4 = length cs" .
  show ?thesis
    using assms l1 e [of "drop 2 cs1" _ cs']
    by (auto simp: decodeUnicodeCodePoint_def u split: if_splits sum.splits)
qed

lemma decode_string_length: "decode_string cs d = Inr s \<Longrightarrow> length s \<le> length d + length cs"
proof (induction cs d rule: decode_string.induct)
  case (2 c cs d)
  show ?case
  proof (cases "c = CHR 0x5C")
    case False
    with "2.prems" "2.IH"(3) show ?thesis
      by (cases "c = CHR 0x22") (auto simp: decode_string.simps(2))
  next
    case True
    then obtain e es where cs: "cs = e # es"
      using "2.prems" by (cases cs) (auto simp: decode_string.simps(2))
    show ?thesis
    proof (cases "e = CHR ''u''")
      case u: True
      with "2.prems" True obtain x es' where x: "decodeUnicodeCodePoint es = Inr (x, es')"
        and s: "decode_string es' (d @ codePointToUTF8 x) = Inr s"
        by (auto simp: decode_string.simps(2) cs split: sum.splits prod.splits)
      from "2.IH"(1) [OF _ True cs u x refl s] True decodeUnicode_drop [OF x] codePointToUTF8_length [of x]
      show ?thesis by (simp add: cs)
    next
      case u: False
      with "2.prems" True obtain y where y: "escaped_char e = Some y" and s: "decode_string es (d @ [y]) = Inr s"
        by (auto simp: decode_string.simps(2) cs split: option.splits)
      from "2.IH"(2) [OF _ True cs u y s] True show ?thesis by (simp add: cs)
    qed
  qed
qed simp


lemma read_name_alike:
  assumes "alike rdbl S F ns rd" and "as_reader F" and "same_token rdbl S t"
    and "read_name rdbl t rd = (rd', r)"
  shows "\<exists>n. r = Inr n \<and> our_read_name F S (lift_token t) rd = (rd', n) \<and> alike rdbl S F ns rd' \<and>
    (\<forall>s. n = Name s \<longrightarrow> length s < 2 ^ 30)"
proof -
  have nk: "\<not> allowNumericKeys (rd_features rd)" "\<not> allowNumericKeys F"
    using assms(1,2) by (simp_all add: alike_def as_reader_def features.defs)
  obtain o1 rd1 where d: "decodeString t rd = (o1, rd1)" by (metis prod.exhaust)
  have al: "alike rdbl S F ns rd1" using decode_alike(2) [of rdbl S F ns t rd] assms(1) d by simp
  have len: "length s < 2 ^ 30" if "o1 = Some s" for s
  proof -
    from d that have "decode_string (butlast (tl (span (tk_start t) (tk_end t)))) [] = Inr s"
      by (auto simp: decodeString_def Let_def split: sum.splits)
    from decode_string_length [OF this] have "length s \<le> length (span (tk_start t) (tk_end t))" by simp
    also have "\<dots> \<le> length (tk_start t)" by (simp add: span_def)
    finally show ?thesis using assms(3) by (simp add: same_token_def same_doc_def plain_doc_def)
  qed
  show ?thesis
    using assms(1,4) nk al len
    by (cases o1) (auto simp: read_name_def our_read_name_def d split: if_splits)
qed

definition reads_alike ::
  "(string \<Rightarrow> 'r option) \<Rightarrow> 'r scanner \<Rightarrow> our_features \<Rightarrow> node list \<Rightarrow> ('r, 'a) reading \<Rightarrow> bool" where
  "reads_alike rdbl S F ns r =
     (case r of Some (rd, Inr ok) \<Rightarrow> alike rdbl S F ns rd | _ \<Rightarrow> True)"

lemma reads_alike_simps [simp]:
  "reads_alike rdbl S F ns None" "reads_alike rdbl S F ns (Some (rd, Inr ok)) = alike rdbl S F ns rd"
  "reads_alike rdbl S F ns (Some (rd, Inl e))"
  by (simp_all add: reads_alike_def)

lemma reads_alike_finish [simp]: "reads_alike rdbl S F ns (map_option finish_value r) = reads_alike rdbl S F ns r"
  by (auto simp: reads_alike_def finish_value_def and_then_def split: option.split prod.split sum.split)

lemma after_member_alike:
  assumes "reads_alike rdbl S F (p # ns) r" and "as_reader F"
    and "\<And>rd. alike rdbl S F ns rd \<Longrightarrow> again' rd = again rd \<and> reads_alike rdbl S F ns (again rd)"
  shows "our_after_member F again' r = after_member again r \<and> reads_alike rdbl S F ns (after_member again r)"
proof (cases r)
  case (Some y)
  obtain rd x where y: "y = (rd, x)" by (cases y)
  note rec = recover_alike [OF _ assms(2)]
  show ?thesis
  proof (cases x)
    case (Inr ok)
    with assms(1) Some y have a: "alike rdbl S F ns (pop_node rd)" by (simp add: alike_pop)
    obtain comma rd1 where k: "readToken (pop_node rd) = (comma, rd1)" by (metis prod.exhaust)
    from readToken_alike [OF a assms(2) k]
    have o: "our_readToken F (pop_node rd) = (rd1, Inr (lift_token comma))" and a1: "alike rdbl S F ns rd1" by simp_all
    obtain comma1 rd2 where k1: "skip_comments rd1 = (comma1, rd2)" by (metis prod.exhaust)
    from skip_comments_alike [OF a1 assms(2) k1]
    have o1: "our_skip_comments F rd1 = (rd2, Inr (lift_token comma1))" and a2: "alike rdbl S F ns rd2" by simp_all
    show ?thesis
      using a a1 a2 rec [OF a] rec [OF a1] assms(3) [OF a1] assms(3) [OF a2]
      by (simp add: Some y Inr our_after_member_def after_member_def k k1 o o1 Let_def)
  qed (simp add: Some y our_after_member_def after_member_def)
qed (simp add: our_after_member_def after_member_def)

lemma after_element_alike:
  assumes "reads_alike rdbl S F (p # ns) r" and "as_reader F"
    and "\<And>rd. alike rdbl S F ns rd \<Longrightarrow> again' rd = again rd \<and> reads_alike rdbl S F ns (again rd)"
  shows "our_after_element F again' r = after_element again r \<and> reads_alike rdbl S F ns (after_element again r)"
proof (cases r)
  case (Some y)
  obtain rd x where y: "y = (rd, x)" by (cases y)
  note rec = recover_alike [OF _ assms(2)]
  show ?thesis
  proof (cases x)
    case (Inr ok)
    with assms(1) Some y have a: "alike rdbl S F ns (pop_node rd)" by (simp add: alike_pop)
    obtain t rd1 where k: "skip_comments (pop_node rd) = (t, rd1)" by (metis prod.exhaust)
    from skip_comments_alike [OF a assms(2) k]
    have o: "our_skip_comments F (pop_node rd) = (rd1, Inr (lift_token t))" and a1: "alike rdbl S F ns rd1" by simp_all
    show ?thesis
      using a a1 rec [OF a] rec [OF a1] assms(3) [OF a1]
      by (simp add: Some y Inr our_after_element_def after_element_def k o)
  qed (simp add: Some y our_after_element_def after_element_def)
qed (simp add: our_after_element_def after_element_def)


section \<open>The equivalence\<close>

lemma stack_limit_alike:
  assumes "as_reader F" and "length ns \<le> stackLimit + 1"
  shows "sint (of_stackLimit F) < sint (word_of_nat (length ns) :: 32 word) \<longleftrightarrow> stackLimit < length ns"
proof -
  have "sint (word_of_nat (length ns) :: 32 word) = int (length ns)"
  proof -
    have "sint (word_of_int (int (length ns)) :: 32 word) = signed_take_bit 31 (int (length ns))"
      by transfer simp
    also have "\<dots> = int (length ns)"
      using assms(2) by (intro signed_take_bit_int_eq_self) (simp_all add: stackLimit_def)
    finally show ?thesis by simp
  qed
  with assms(1) show ?thesis by (simp add: as_reader_def stackLimit_def)
qed

lemma our_reads:
  assumes "as_reader F"
  shows "alike rdbl S F ns rd \<Longrightarrow> length ns \<le> stackLimit + 1 \<Longrightarrow>
      our_readValue F S n rd = readValue rdbl n rd \<and>
      reads_alike rdbl S F ns (readValue rdbl n rd)"
    and "alike rdbl S F ns rd \<Longrightarrow> length ns \<le> stackLimit \<Longrightarrow>
      our_read_members F S n name rd = read_members rdbl n name rd \<and>
      reads_alike rdbl S F ns (read_members rdbl n name rd)"
    and "alike rdbl S F ns rd \<Longrightarrow> length ns \<le> stackLimit \<Longrightarrow>
      our_read_elements F S n i rd = read_elements rdbl n i rd \<and>
      reads_alike rdbl S F ns (read_elements rdbl n i rd)"
proof (induction n arbitrary: rd name i ns)
  case (Suc n)
  note IH = Suc.IH
  {
    case 1
    have nodes: "rd_nodes rd = ns" using 1 by (simp add: alike_def)
    obtain t rd1 where t: "skipCommentTokens rd = (t, rd1)" by (metis prod.exhaust)
    from skipCommentTokens_alike [OF 1(1) assms t]
    have o: "our_skipCommentTokens F rd = (rd1, Inr (lift_token t))" and a1: "alike rdbl S F ns rd1"
      and pt: "same_token rdbl S t" by simp_all
    let ?rd2 = "attach_comments rd1"
    have a2: "our_attach_comments rd1 = (?rd2, Inr ())" "alike rdbl S F ns ?rd2"
      using attach_alike [OF a1] by simp_all
    show ?case
    proof (cases "stackLimit < length ns")
      case True
      then show ?thesis using nodes stack_limit_alike [OF assms 1(2)] by simp
    next
      case False
      then have len: "length ns \<le> stackLimit" by simp
      have members: "our_read_members F S n [] (swapPayload (J_object []) ?rd2) =
          read_members rdbl n [] (swapPayload (J_object []) ?rd2) \<and>
        reads_alike rdbl S F ns (read_members rdbl n [] (swapPayload (J_object []) ?rd2))"
        by (rule IH(2) [OF _ len]) (simp add: a2)
      let ?l = "skipSpaces (rd_current (swapPayload (J_array []) ?rd2))"
      let ?rd4 = "swapPayload (J_array []) ?rd2\<lparr>rd_current := ?l\<rparr>"
      have "same_doc rdbl S ?l"
        using a2(2) suffix_skipSpaces [of "rd_current ?rd2"] by (auto simp: alike_def intro: same_doc_suffix)
      then have a4: "alike rdbl S F ns ?rd4" using a2(2) by (intro alike_current) simp_all
      have elements: "our_read_elements F S n 0 ?rd4 = read_elements rdbl n 0 ?rd4 \<and>
        reads_alike rdbl S F ns (read_elements rdbl n 0 ?rd4)"
        by (rule IH(3) [OF a4 len])
      obtain t5 rd5 where k: "readToken ?rd4 = (t5, rd5)" by (metis prod.exhaust)
      from readToken_alike [OF a4 assms k]
      have k5: "our_readToken F ?rd4 = (rd5, Inr (lift_token t5))" "alike rdbl S F ns rd5" by simp_all
      note simple = read_simple_alike [OF a2(2) pt]
      have simple2: "reads_alike rdbl S F ns (Some (read_simple rdbl t ?rd2))"
        using simple(2) [of rdbl] by (cases "read_simple rdbl t ?rd2"; cases "snd (read_simple rdbl t ?rd2)") auto
      show ?thesis
        using False nodes stack_limit_alike [OF assms 1(2)] members elements k k5 simple(1) simple2
        by (cases "skipSpaces (rd_current rd1) = []") (simp_all add: t o a2(1) Let_def finish_value_def)
    qed
  next
    case 2
    obtain t rd1 where t: "skip_comments rd = (t, rd1)" by (metis prod.exhaust)
    from skip_comments_alike [OF 2(1) assms t]
    have o: "our_skip_comments F rd = (rd1, Inr (lift_token t))" and a1: "alike rdbl S F ns rd1"
      and pt: "same_token rdbl S t" by simp_all
    obtain rd2 r where nm: "read_name rdbl t rd1 = (rd2, r)" by (metis prod.exhaust)
    obtain nam where r: "r = Inr nam" and on: "our_read_name F S (lift_token t) rd1 = (rd2, nam)"
      and a2: "alike rdbl S F ns rd2" and len: "\<forall>s. nam = Name s \<longrightarrow> length s < 2 ^ 30"
      using read_name_alike [OF a1 assms pt nm] by blast
    obtain colon rd3 where k: "readToken rd2 = (colon, rd3)" by (metis prod.exhaust)
    from readToken_alike [OF a2 assms k]
    have ok: "our_readToken F rd2 = (rd3, Inr (lift_token colon))" and a3: "alike rdbl S F ns rd3" by simp_all
    have val: "our_readValue F S n (push_node (Member name1) rd3) = readValue rdbl n (push_node (Member name1) rd3) \<and>
        reads_alike rdbl S F ((hd ns @ [Member name1]) # ns) (readValue rdbl n (push_node (Member name1) rd3))" for name1
      by (rule IH(1)) (use alike_push [OF a3] 2(2) in simp_all)
    have after: "our_after_member F (our_read_members F S n name1) (readValue rdbl n (push_node (Member name1) rd3)) =
          after_member (read_members rdbl n name1) (readValue rdbl n (push_node (Member name1) rd3)) \<and>
        reads_alike rdbl S F ns (after_member (read_members rdbl n name1) (readValue rdbl n (push_node (Member name1) rd3)))" for name1
      by (rule after_member_alike [OF _ assms]) (use val IH(2) 2(2) in blast)+
    note rec = recover_alike [OF a1 assms] recover_alike [OF a2 assms] recover_alike [OF a3 assms]
    have dup: "\<not> rejectDupKeys F" using assms by (simp add: as_reader_def)
    show ?case
      using a1 rec val after len dup
      by (cases nam) (simp_all add: t o nm r on k ok not_le)
  next
    case 3
    have val: "our_readValue F S n (push_node (Element i) rd) = readValue rdbl n (push_node (Element i) rd) \<and>
        reads_alike rdbl S F ((hd ns @ [Element i]) # ns) (readValue rdbl n (push_node (Element i) rd))"
      by (rule IH(1)) (use alike_push [OF 3(1)] 3(2) in simp_all)
    have "our_after_element F (our_read_elements F S n (i + 1)) (readValue rdbl n (push_node (Element i) rd)) =
          after_element (read_elements rdbl n (i + 1)) (readValue rdbl n (push_node (Element i) rd)) \<and>
        reads_alike rdbl S F ns (after_element (read_elements rdbl n (i + 1)) (readValue rdbl n (push_node (Element i) rd)))"
      by (rule after_element_alike [OF _ assms]) (use val IH(3) 3(2) in blast)+
    with val show ?case by simp
  }
qed simp_all


lemma our_parse_equal:
  assumes "as_reader F" and "same_doc rdbl S doc" and "rd_features rd = features.truncate F"
  shows "our_parse F S doc root collectComments rd = Reader_parse rdbl doc root collectComments rd"
proof -
  have c: "allowComments (rd_features rd) = allowComments F" "strictRoot (rd_features rd) = strictRoot F"
    using assms(3) by (simp_all add: features.defs)
  let ?rd = "start_reader doc root collectComments rd"
  have st: "our_start F doc root collectComments rd = ?rd"
    by (simp add: our_start_def start_reader_def c)
  have a: "alike rdbl S F [[]] ?rd"
    using assms by (simp add: alike_def start_reader_def comment_ok_def)
  have eq: "our_readValue F S (reader_fuel doc) ?rd = readValue rdbl (reader_fuel doc) ?rd"
    and al: "reads_alike rdbl S F [[]] (readValue rdbl (reader_fuel doc) ?rd)"
    using our_reads(1) [OF assms(1) a, of "reader_fuel doc"] by (simp_all add: stackLimit_def)
  show ?thesis
  proof (cases "readValue rdbl (reader_fuel doc) ?rd")
    case None
    then show ?thesis by (simp add: our_parse_def Reader_parse_def st eq)
  next
    case (Some y)
    obtain rd1 x where y: "y = (rd1, x)" by (cases y)
    show ?thesis
    proof (cases x)
      case (Inl e)
      then show ?thesis by (simp add: our_parse_def Reader_parse_def st eq Some y)
    next
      case (Inr ok)
      with al Some y have a1: "alike rdbl S F [[]] rd1" by simp
      obtain t rd2 where k: "skipCommentTokens rd1 = (t, rd2)" by (metis prod.exhaust)
      from skipCommentTokens_alike [OF a1 assms(1) k]
      have k1: "our_skipCommentTokens F rd1 = (rd2, Inr (lift_token t))" and a2: "alike rdbl S F [[]] rd2" by simp_all
      have ok2: "comment_ok (rd_commentsBefore rd2)" "strictRoot (rd_features rd2) = strictRoot F"
        using a2 by (simp_all add: alike_def features.defs)
      have fe: "\<not> failIfExtra F" using assms(1) by (simp add: as_reader_def)
      show ?thesis
        using ok2 fe
        by (simp add: our_parse_def Reader_parse_def st eq Some y Inr k k1 our_finish_def Let_def)
    qed
  qed
qed

section \<open>Reading ends\<close>

lemma our_skip_comments_length:
  "our_skip_comments F rd = (rd', r) \<Longrightarrow> length (rd_current rd') \<le> length (rd_current rd) \<and>
    (\<forall>t. r = Inr t \<longrightarrow> length (ot_start t) \<le> length (rd_current rd) \<and>
      (ot_type t = Shared tokenEndOfStream \<or> length (rd_current rd') < length (rd_current rd)))"
proof (induction F rd rule: our_skip_comments.induct)
  case (1 F rd)
  obtain rd1 r1 where k: "our_readToken F rd = (rd1, r1)" by (metis prod.exhaust)
  note l = our_readToken_length [OF k]
  show ?case
  proof (cases r1)
    case (Inl e)
    with l "1.prems" k show ?thesis by (subst (asm) our_skip_comments.simps) auto
  next
    case (Inr t1)
    with l "1.prems" k "1.IH" [OF k [symmetric] Inr] show ?thesis
      by (subst (asm) our_skip_comments.simps) (fastforce split: if_splits)
  qed
qed

lemma our_skipCommentTokens_length:
  "our_skipCommentTokens F rd = (rd', r) \<Longrightarrow> length (rd_current rd') \<le> length (rd_current rd) \<and>
    (\<forall>t. r = Inr t \<longrightarrow> length (ot_start t) \<le> length (rd_current rd) \<and>
      (ot_type t = Shared tokenEndOfStream \<or> length (rd_current rd') < length (rd_current rd)))"
  using our_skip_comments_length [of F rd rd' r] our_readToken_length [of F rd rd' r]
  by (auto simp: our_skipCommentTokens_def split: if_splits)

lemma our_skip_until_length: "length (rd_current (fst (our_skip_until F ty rd))) \<le> length (rd_current rd)"
proof (induction F ty rd rule: our_skip_until.induct)
  case (1 F ty rd)
  obtain rd1 r1 where k: "our_readToken F rd = (rd1, r1)" by (metis prod.exhaust)
  note l = our_readToken_length [OF k]
  show ?case
  proof (cases r1)
    case (Inl e)
    with l k show ?thesis by (subst our_skip_until.simps) auto
  next
    case (Inr t1)
    with l k "1.IH" [OF k [symmetric] Inr] show ?thesis
      by (subst our_skip_until.simps) (auto intro: order.trans)
  qed
qed

lemma fst_and_then_pure: "fst (and_then r (\<lambda>x s. (f x s, Inr (g x s)))) = (case r of (s, Inl _) \<Rightarrow> s | (s, Inr x) \<Rightarrow> f x s)"
  by (cases r; cases "snd r") auto

lemma our_recover_length:
  "length (rd_current (fst (our_recoverFromError F ty rd))) \<le> length (rd_current rd)"
  "length (rd_current (fst (our_addErrorAndRecover F m t ty rd))) \<le> length (rd_current rd)"
proof -
  have *: "length (rd_current (fst (our_recoverFromError F ty rd))) \<le> length (rd_current rd)" for rd :: "'a reader"
    using our_skip_until_length [of F ty rd]
    by (auto simp: our_recoverFromError_def fst_and_then_pure split: prod.split sum.split)
  then show "length (rd_current (fst (our_recoverFromError F ty rd))) \<le> length (rd_current rd)" .
  show "length (rd_current (fst (our_addErrorAndRecover F m t ty rd))) \<le> length (rd_current rd)"
    using * [of "our_addError m t rd"] by (simp add: our_addErrorAndRecover_def our_addError_def)
qed

lemma our_decode_current:
  "rd_current (snd (our_decodeNumber S t rd)) = rd_current rd"
  "rd_current (snd (decodeString t' rd)) = rd_current rd"
  by (simp_all add: our_decodeNumber_def our_decodeDouble_def our_addError_def decodeString_def Let_def
      split: option.split sum.split)

lemma our_read_simple_length:
  assumes "length (ot_start t) \<le> n" and "length (rd_current rd) \<le> n"
  shows "length (rd_current (fst (our_read_simple F S t rd))) \<le> n"
proof (cases "ot_type t")
  case (Shared ty)
  with assms show ?thesis
    by (cases ty) (simp_all add: our_read_simple_def our_decode_current our_addError_def)
qed (use assms in \<open>simp_all add: our_read_simple_def\<close>)

lemma our_read_name_current: "rd_current (fst (our_read_name F S t rd)) = rd_current rd"
  using our_decode_current(1) [of S t rd] our_decode_current(2) [of "shared_token t" rd]
  by (auto simp: our_read_name_def split: prod.split option.split)

lemma our_attach_current [simp]: "rd_current (fst (our_attach_comments rd)) = rd_current rd"
  by (simp add: our_attach_comments_def)

lemma our_after_member_ends:
  assumes "ends_within k r" and "\<And>rd. length (rd_current rd) < k \<Longrightarrow> ends_within k (again rd)"
  shows "ends_within k (our_after_member F again r)"
proof -
  obtain rd x where r: "r = Some (rd, x)" and l: "length (rd_current rd) \<le> k"
    using assms(1) by (rule ends_withinE)
  note rec = order.trans [OF our_recover_length(1)] order.trans [OF our_recover_length(2)]
  show ?thesis
  proof (cases x)
    case (Inr ok)
    obtain rd1 r1 where k: "our_readToken F (pop_node rd) = (rd1, r1)" by (metis prod.exhaust)
    note l1 = our_readToken_length [OF k]
    show ?thesis
    proof (cases r1)
      case (Inl e)
      with l l1 show ?thesis by (auto simp: our_after_member_def r Inr k intro: rec)
    next
      case c: (Inr comma)
      obtain rd2 r2 where k1: "our_skip_comments F rd1 = (rd2, r2)" by (metis prod.exhaust)
      note l2 = our_skip_comments_length [OF k1]
      show ?thesis
      proof (cases "ok \<and> ot_type comma \<in> Shared ` {tokenObjectEnd, tokenArraySeparator, tokenComment}")
        case True
        with l l1 c have lt: "length (rd_current rd1) < k" by auto
        with l2 have lt2: "length (rd_current rd2) < k" by simp
        show ?thesis
          using True lt lt2 assms(2) [OF lt] assms(2) [OF lt2]
          by (cases r2) (auto simp: our_after_member_def r Inr k k1 c)
      next
        case False
        with l l1 show ?thesis by (auto simp: our_after_member_def r Inr k c intro: rec)
      qed
    qed
  qed (use l in \<open>simp add: our_after_member_def r\<close>)
qed

lemma our_after_element_ends:
  assumes "ends_within k r" and "\<And>rd. length (rd_current rd) < k \<Longrightarrow> ends_within k (again rd)"
  shows "ends_within k (our_after_element F again r)"
proof -
  obtain rd x where r: "r = Some (rd, x)" and l: "length (rd_current rd) \<le> k"
    using assms(1) by (rule ends_withinE)
  note rec = order.trans [OF our_recover_length(1)] order.trans [OF our_recover_length(2)]
  show ?thesis
  proof (cases x)
    case (Inr ok)
    obtain rd1 r1 where k: "our_skip_comments F (pop_node rd) = (rd1, r1)" by (metis prod.exhaust)
    note l1 = our_skip_comments_length [OF k]
    show ?thesis
      using l l1 assms(2) [of rd1]
      by (cases r1) (auto simp: our_after_element_def r Inr k intro: rec)
  qed (use l in \<open>simp add: our_after_element_def r\<close>)
qed

lemma ends_within_then:
  assumes "length (rd_current (fst r)) \<le> n" and "\<And>x rd. r = (rd, Inr x) \<Longrightarrow> ends_within n (f x rd)"
  shows "ends_within n (reading_then r f)"
  using assms by (cases r; cases "snd r") auto

lemma our_reading_ends:
  "2 * length (rd_current rd) + 1 \<le> n \<Longrightarrow> ends_within (length (rd_current rd)) (our_readValue F S n rd)"
  "2 * length (rd_current rd) + 2 \<le> n \<Longrightarrow> ends_within (length (rd_current rd)) (our_read_members F S n name rd)"
  "2 * length (rd_current rd) + 2 \<le> n \<Longrightarrow> ends_within (length (rd_current rd)) (our_read_elements F S n i rd)"
proof (induction n arbitrary: rd name i)
  case (Suc n)
  note IH = Suc.IH
  {
    case 1
    then have n: "2 * length (rd_current rd) + 1 \<le> Suc n" .
    obtain rd1 r1 where t: "our_skipCommentTokens F rd = (rd1, r1)" by (metis prod.exhaust)
    note l = our_skipCommentTokens_length [OF t]
    let ?k = "length (rd_current rd)"
    show ?case
    proof (cases r1)
      case (Inl e)
      with l show ?thesis by (simp add: t)
    next
      case (Inr t1)
      obtain rd2 r2 where a: "our_attach_comments rd1 = (rd2, r2)" by (metis prod.exhaust)
      have c2: "rd_current rd2 = rd_current rd1" using our_attach_current [of rd1] by (simp add: a)
      show ?thesis
      proof (cases "ot_type t1 = Shared tokenObjectBegin \<or> ot_type t1 = Shared tokenArrayBegin")
        case False
        have "length (rd_current (fst (our_read_simple F S t1 rd2))) \<le> ?k"
          using l Inr c2 by (intro our_read_simple_length) simp_all
        with False l c2 show ?thesis by (cases r2) (simp_all add: t a Inr)
      next
        case True
        with l Inr have lt: "length (rd_current rd1) < ?k" by auto
        have m: "ends_within ?k (our_read_members F S n [] (swapPayload (J_object []) rd2))"
          using lt n c2 by (intro ends_within_mono [OF IH(2)]) simp_all
        let ?l = "skipSpaces (rd_current rd1)"
        let ?rd = "swapPayload (J_array []) rd2\<lparr>rd_current := ?l\<rparr>"
        have s: "length ?l \<le> length (rd_current rd1)" by (simp add: skipSpaces_def length_dropWhile_le)
        then have e: "ends_within ?k (our_read_elements F S n 0 ?rd)"
          using lt n by (intro ends_within_mono [OF IH(3)]) simp_all
        have x: "ends_within ?k (reading_then (our_readToken F ?rd) (\<lambda>_ rd5. Some (finish_value (rd5, Inr True))))"
          using our_readToken_length [of F ?rd "fst (our_readToken F ?rd)" "snd (our_readToken F ?rd)"] s lt
          by (intro ends_within_then) auto
        from m e x True l c2 show ?thesis
          by (cases r2; cases "?l = []") (auto simp: t a Inr Let_def)
      qed
    qed
  next
    case 2
    let ?k = "length (rd_current rd)"
    obtain rd1 r1 where t: "our_skip_comments F rd = (rd1, r1)" by (metis prod.exhaust)
    note l1 = our_skip_comments_length [OF t]
    show ?case
    proof (cases r1)
      case (Inl e)
      with l1 show ?thesis by (simp add: t)
    next
      case (Inr t1)
      obtain rd2 y where nm: "our_read_name F S t1 rd1 = (rd2, y)" by (metis prod.exhaust)
      with our_read_name_current [of F S t1 rd1] have l2: "rd_current rd2 = rd_current rd1" by simp
      obtain rd3 r3 where c: "our_readToken F rd2 = (rd3, r3)" by (metis prod.exhaust)
      note l3 = our_readToken_length [OF c]
      note rec = order.trans [OF our_recover_length(1)] order.trans [OF our_recover_length(2)]
      show ?thesis
      proof (cases "y \<in> range Name")
        case False
        with l1 l2 show ?thesis by (cases y) (auto simp: t Inr nm intro: rec)
      next
        case True
        then obtain name1 where y: "y = Name name1" by blast
        show ?thesis
        proof (cases r3)
          case (Inl e)
          with l1 l2 l3 show ?thesis by (simp add: t Inr nm y c)
        next
          case r3: (Inr colon)
          have "ends_within ?k (our_after_member F (our_read_members F S n name1)
              (our_readValue F S n (push_node (Member name1) rd3)))" if "ot_type colon = Shared tokenMemberSeparator"
          proof -
            have "length (rd_current rd3) < ?k" using l1 l2 l3 r3 that by auto
            then show ?thesis
              using 2 by (intro our_after_member_ends ends_within_mono [OF IH(1)] ends_within_mono [OF IH(2)]) simp_all
          qed
          with l1 l2 l3 show ?thesis by (auto simp: t Inr nm y c r3 intro: rec)
        qed
      qed
    qed
  next
    case 3
    have "ends_within (length (rd_current rd)) (our_after_element F (our_read_elements F S n (i + 1))
        (our_readValue F S n (push_node (Element i) rd)))"
      using 3
      by (intro our_after_element_ends ends_within_mono [OF IH(1)] ends_within_mono [OF IH(3)]) simp_all
    then show ?case by simp
  }
qed simp_all

text \<open>C18: both parsers end with a result or an exception, whatever the document, the
  options and the state they were left in: the bound on the depth of calls is never
  reached.\<close>

theorem parsers_end:
  "(\<exists>rd' r. Reader_parse rdbl doc root collectComments rd = Some (rd', r)) \<and>
   (\<exists>rd' r. our_parse F S doc root collectComments rd = Some (rd', r))"
proof -
  let ?rd = "our_start F doc root collectComments rd"
  have "ends_within (length (rd_current ?rd)) (our_readValue F S (reader_fuel doc) ?rd)"
    by (rule our_reading_ends) (simp add: reader_fuel_def our_start_def)
  then obtain rd1 x where "our_readValue F S (reader_fuel doc) ?rd = Some (rd1, x)"
    by (rule ends_withinE)
  then have "\<exists>rd' r. our_parse F S doc root collectComments rd = Some (rd', r)"
    by (cases x) (auto simp: our_parse_def reading_then_def split: prod.split sum.split)
  with Reader_parse_ends show ?thesis by blast
qed

section \<open>The default settings\<close>

lemma CharReaderBuilder:
  "CharReaderBuilder = Inr (json_of (J_object
     [(''allowComments'', json_of (J_bool True)), (''allowDroppedNullPlaceholders'', json_of (J_bool False)),
      (''allowNumericKeys'', json_of (J_bool False)), (''allowSingleQuotes'', json_of (J_bool False)),
      (''allowSpecialFloats'', json_of (J_bool False)), (''collectComments'', json_of (J_bool True)),
      (''failIfExtra'', json_of (J_bool False)), (''rejectDupKeys'', json_of (J_bool False)),
      (''stackLimit'', json_of (J_int 1000)), (''strictRoot'', json_of (J_bool False))]))"
  by (simp add: CharReaderBuilder_def setDefaults_def json_member_def resolveReference_def object_members_def
      nullSingleton_def json_of_def less_char_def)

definition default_features :: our_features where
  "default_features =
     \<lparr>allowComments = True, strictRoot = False, allowDroppedNullPlaceholders = False,
      allowNumericKeys = False, allowSingleQuotes = False, failIfExtra = False, rejectDupKeys = False,
      allowSpecialFloats = False, of_stackLimit = 1000\<rparr>"

lemma newCharReader_default:
  "CharReaderBuilder = Inr settings \<Longrightarrow> newCharReader R settings = Inr (True, default_features)"
  by (auto simp: CharReaderBuilder newCharReader_def setting_def json_get_def json_find_def json_of_def
      asBool_def asInt_def isInt_def default_features_def Let_def)

lemma default_reader_parse:
  assumes "plain_doc doc" and "numbers_agree rdbl S doc"
  shows "CharReader_parse (True, default_features) S doc root (Reader_new root Features_all) =
    map_option (\<lambda>(rd, r). (rd, map_sum id (\<lambda>ok. (ok, getFormattedErrorMessages rd)) r))
      (Reader_parse rdbl doc root True (Reader_new root Features_all))"
proof -
  obtain rd r where p: "Reader_parse rdbl doc root True (Reader_new root Features_all) = Some (rd, r)"
    using Reader_parse_ends by blast
  have "our_parse default_features S doc root True (Reader_new root Features_all) = Some (rd, r)"
    unfolding p [symmetric]
    by (rule our_parse_equal)
      (simp_all add: same_doc_def assms as_reader_def default_features_def Reader_new_def Features_all_def features.defs)
  then show ?thesis by (cases r) (simp_all add: CharReader_parse_def p)
qed

text \<open>C17: a \<^verbatim>\<open>CharReader\<close> that was built with the default settings
  does what a \<^verbatim>\<open>Reader\<close> with all its features does when it collects
  comments: the same value, comments included, the same result or exception, and the same error
  messages. The document must be shorter than 2 to the 30 and have no single quote and no
  \<^verbatim>\<open>-I\<close>, where the copies differ, and
  \<^verbatim>\<open>istringstream\<close> and \<^verbatim>\<open>sscanf\<close>, with which they
  read a real, must agree on its numbers: each digit and each minus sign starts a number there, as
  far as it goes.\<close>

theorem char_reader_is_reader:
  assumes "CharReaderBuilder = Inr settings" and "newCharReader R settings = Inr cr"
    and "plain_doc doc" and "numbers_agree rdbl S doc"
  shows "\<exists>rd r. Reader_parse rdbl doc root True (Reader_new root Features_all) = Some (rd, r) \<and>
    CharReader_parse cr S doc root (Reader_new root Features_all) =
      Some (rd, map_sum id (\<lambda>ok. (ok, getFormattedErrorMessages rd)) r)"
proof -
  have cr: "cr = (True, default_features)" using newCharReader_default [OF assms(1), of R] assms(2) by simp
  obtain rd r where p: "Reader_parse rdbl doc root True (Reader_new root Features_all) = Some (rd, r)"
    using Reader_parse_ends by blast
  then show ?thesis using default_reader_parse [OF assms(3,4), of root] by (simp add: cr)
qed

text \<open>
  What the readers differ in, on the numbers of a sample: the stream does not take a number that
  is too large or without its exponent, the scanner does.
\<close>

definition sample_stream :: "string \<Rightarrow> int option" where
  "sample_stream text = (if text = ''1.0'' then Some 1 else None)"

definition sample_scanner :: "int scanner" where
  "sample_scanner = double_ops.extend sample_doubles
     \<lparr>scan_double = (\<lambda>text. if text = ''1.0'' \<or> text = ''1e'' then Some 1 else None),
      double_nan = 0, double_inf = 0, double_neg_inf = 0\<rparr>"

lemma readers_differ:
  "\<not> numbers_agree sample_stream sample_scanner ''[1e]''"
  "map_option snd (Reader_parse sample_stream ''[1e]'' nullSingleton True (Reader_new nullSingleton Features_all)) =
     Some (Inr False)"
  "map_option snd (CharReader_parse (True, default_features) sample_scanner ''[1e]'' nullSingleton
     (Reader_new nullSingleton Features_all)) = Some (Inr (True, []))"
  by code_simp+

theorem char_reader_is_reader_witness:
  "\<exists>settings cr rd r. CharReaderBuilder = Inr settings \<and> newCharReader sample_doubles settings = Inr cr \<and>
    Reader_parse sample_stream ''[1.0, @'' nullSingleton True (Reader_new nullSingleton Features_all) = Some (rd, r) \<and>
    CharReader_parse cr sample_scanner ''[1.0, @'' nullSingleton (Reader_new nullSingleton Features_all) =
      Some (rd, map_sum id (\<lambda>ok. (ok, getFormattedErrorMessages rd)) r)"
proof -
  obtain settings :: "int json" where s: "CharReaderBuilder = Inr settings" using CharReaderBuilder by blast
  note n = newCharReader_default [OF s, of sample_doubles]
  have plain: "plain_doc ''[1.0, @''" by (auto simp: plain_doc_def append_eq_Cons_conv Cons_eq_append_conv)
  have "numbers_agree sample_stream sample_scanner ''[1.0, @''" by code_simp
  from char_reader_is_reader [OF s n plain this, of nullSingleton] s n show ?thesis by blast
qed

section \<open>A quote as a comment\<close>

definition quote_pending :: "'r reader \<Rightarrow> bool" where
  "quote_pending rd \<longleftrightarrow> rd_lastValueEnd rd = None \<and> rd_collectComments rd \<and>
     (\<exists>s. rd_commentsBefore rd = CHR 0x27 # s)"

lemma our_readToken_pending:
  assumes "quote_pending rd"
  shows "\<exists>rd' t. our_readToken F rd = (rd', Inr t) \<and> quote_pending rd'"
proof -
  obtain c l where g: "getNextChar (skipSpaces (rd_current rd)) = (c, l)" by (metis prod.exhaust)
  obtain d k m where e: "comment_end l = (d, k, m)" by (metis prod.exhaust)
  have "\<exists>rd' b. our_readComment c (rd\<lparr>rd_current := l\<rparr>) = (rd', Inr b) \<and> quote_pending rd'"
    using assms by (auto simp: our_readComment_def e our_addComment_def Let_def quote_pending_def)
  moreover obtain ty ok l1 where "our_scan_token F c l = (ty, ok, l1)" by (metis prod.exhaust)
  ultimately show ?thesis
    using assms by (fastforce simp: our_readToken_def g quote_pending_def)
qed

lemma our_skip_comments_pending:
  "quote_pending rd \<Longrightarrow> \<exists>rd' t. our_skip_comments F rd = (rd', Inr t) \<and> quote_pending rd'"
proof (induction F rd rule: our_skip_comments.induct)
  case (1 F rd)
  obtain rd1 t where k: "our_readToken F rd = (rd1, Inr t)" and q: "quote_pending rd1"
    using our_readToken_pending [OF "1.prems"] by blast
  from "1.IH" [OF k [symmetric] refl _ q] q show ?case
    by (cases "ot_type t = Shared tokenComment") (simp_all add: our_skip_comments.simps [of F rd] k)
qed

text \<open>C22: with comments collected, as is the default, and single quotes not allowed, a
  document that begins with a single quote and then with what could follow the slash of a comment
  makes the parser throw: the quote falls through to the case of comments, and what was read is
  refused as the comment of a value, because it does not begin with a slash.\<close>

theorem quote_comment_throws:
  assumes "\<not> allowSingleQuotes F" and "allowComments F" and "1 \<le> sint (of_stackLimit F)"
    and "comment_end l = (c, True, rest)"
  shows "\<exists>rd'. our_parse F S (CHR 0x27 # l) root True rd = Some (rd', Inl bad_comment)"
proof -
  let ?doc = "CHR 0x27 # l"
  let ?rd = "our_start F ?doc root True rd"
  have sp: "skipSpaces ?doc = ?doc" by (simp add: skipSpaces_def json_space_def)
  obtain n where n: "reader_fuel ?doc = Suc n" by (simp add: reader_fuel_def)
  obtain m where "normalizeEOL (span ?doc rest) = CHR 0x27 # m"
  proof -
    have "suffix rest l" using comment_end_suffix [of l] assms(4) by simp
    from that span_slash [OF this, of "CHR 0x27"] show ?thesis by simp
  qed
  then have "\<exists>rd1. our_readToken F ?rd = (rd1, Inr \<lparr>ot_type = Shared tokenComment, ot_start = ?doc,
      ot_end = rd_current rd1\<rparr>) \<and> quote_pending rd1"
    using assms by (simp add: our_readToken_def our_start_def sp our_readComment_def our_addComment_def
        Let_def quote_pending_def)
  then obtain rd1 where k: "our_readToken F ?rd = (rd1, Inr \<lparr>ot_type = Shared tokenComment, ot_start = ?doc,
      ot_end = rd_current rd1\<rparr>)" and q: "quote_pending rd1" by blast
  from our_skip_comments_pending [OF q] obtain rd2 t
    where k2: "our_skip_comments F rd1 = (rd2, Inr t)" and q2: "quote_pending rd2" by blast
  have sk: "our_skipCommentTokens F ?rd = (rd2, Inr t)"
    using assms(2) k k2 by (simp add: our_skipCommentTokens_def our_skip_comments.simps [of F ?rd])
  have at: "our_attach_comments rd2 = (rd2, Inl bad_comment)"
    using q2 by (auto simp: our_attach_comments_def quote_pending_def comment_ok_def)
  have "our_readValue F S (reader_fuel ?doc) ?rd = Some (rd2, Inl bad_comment)"
    using assms(3) by (simp add: n sk at) (simp add: our_start_def)
  then show ?thesis by (simp add: our_parse_def)
qed

theorem quote_comment_throws_witness:
  "\<exists>rd'. our_parse default_features sample_scanner (CHR 0x27 # ''/ 5'') nullSingleton True
     (Reader_new nullSingleton Features_all) = Some (rd', Inl bad_comment)"
  by (rule quote_comment_throws [of _ _ "CHR ''/''" "[]"])
    (simp_all add: default_features_def comment_end_def readCppStyleComment.simps)

end
