(* ===== verification/Json_Shape.thy ===== *)
theory Json_Shape
  imports Json_Render
begin

text \<open>
  Values that the writers of several lines treat alike: without comments, with names that are C
  strings, with objects of fewer members than 32 bits can count, and values that fit on a line.
\<close>

section \<open>Conditions on all parts of a value\<close>

fun comment_free :: "'r json \<Rightarrow> bool" and data_comment_free :: "'r json_data \<Rightarrow> bool" where
  "comment_free (Json d c) \<longleftrightarrow> c = no_comments \<and> data_comment_free d"
| "data_comment_free (J_array es) \<longleftrightarrow> (\<forall>e \<in> set es. comment_free (snd e))"
| "data_comment_free (J_object ms) \<longleftrightarrow> (\<forall>m \<in> set ms. comment_free (snd m))"
| "data_comment_free _ = True"

text \<open>The size of an object is a number of 32 bits.\<close>

fun small_objects :: "'r json \<Rightarrow> bool" and data_small :: "'r json_data \<Rightarrow> bool" where
  "small_objects (Json d c) = data_small d"
| "data_small (J_array es) \<longleftrightarrow> (\<forall>e \<in> set es. small_objects (snd e))"
| "data_small (J_object ms) \<longleftrightarrow> length ms < 2 ^ 32 \<and> (\<forall>m \<in> set ms. small_objects (snd m))"
| "data_small _ = True"

text \<open>Some writers cut the names of members at a NUL.\<close>

fun plain_names :: "'r json \<Rightarrow> bool" and data_names :: "'r json_data \<Rightarrow> bool" where
  "plain_names (Json d c) = data_names d"
| "data_names (J_array es) \<longleftrightarrow> (\<forall>e \<in> set es. plain_names (snd e))"
| "data_names (J_object ms) \<longleftrightarrow> (\<forall>m \<in> set ms. CHR 0x00 \<notin> set (fst m) \<and> plain_names (snd m))"
| "data_names _ = True"

lemma children_cases: "x \<in> set (children_of es) \<Longrightarrow> x = nullSingleton \<or> (\<exists>i. (i, x) \<in> set es)"
  by (rule array_child(1))

lemma small_child: "small_objects (Json (J_array es) c) \<Longrightarrow> x \<in> set (children_of es) \<Longrightarrow> small_objects x"
  using children_cases [of x es] by (fastforce simp: nullSingleton_def json_of_def)

lemma child_smaller: "x \<in> set (children_of es) \<Longrightarrow> size x < size (Json (J_array es) c)"
  using size_child_less [of x es no_comments] by simp

lemma member_smaller: "m \<in> set ms \<Longrightarrow> size (snd m) < size (Json (J_object ms) c)"
  using size_member_less [of m ms] by simp

lemma names_child: "plain_names (Json (J_array es) c) \<Longrightarrow> x \<in> set (children_of es) \<Longrightarrow> plain_names x"
  using children_cases [of x es] by (fastforce simp: nullSingleton_def json_of_def)

lemma free_child: "comment_free (Json (J_array es) c) \<Longrightarrow> x \<in> set (children_of es) \<Longrightarrow> comment_free x"
  using children_cases [of x es] by (fastforce simp: nullSingleton_def json_of_def)

section \<open>Texts of elements\<close>

text \<open>White space may follow the last element.\<close>

lemma renders_trail:
  "renders_value W colon sc v t \<Longrightarrow> True"
  "renders_elements W colon sc vs t \<Longrightarrow> W w \<Longrightarrow> (\<And>a b. W a \<Longrightarrow> W b \<Longrightarrow> W (a @ b)) \<Longrightarrow>
    renders_elements W colon sc vs (t @ w)"
  "renders_members W colon sc ms t \<Longrightarrow> W w \<Longrightarrow> (\<And>a b. W a \<Longrightarrow> W b \<Longrightarrow> W (a @ b)) \<Longrightarrow>
    renders_members W colon sc ms (t @ w)"
proof (induction rule: renders_value_renders_elements_renders_members.inducts)
  case (element_last v t ws)
  then show ?case using renders_value_renders_elements_renders_members.element_last [of W colon sc v t "ws @ w"] by simp
next
  case (element v t ws ws' vs ts)
  then show ?case
    using renders_value_renders_elements_renders_members.element [of W colon sc v t ws ws' vs "ts @ w"] by simp
next
  case (member_last v t ws' ws k)
  then show ?case
    using renders_value_renders_elements_renders_members.member_last [of W colon sc v t ws' "ws @ w" k] by simp
next
  case (member v t ws1 ws ws' ms ts k)
  then show ?case
    using renders_value_renders_elements_renders_members.member [of W colon sc v t ws1 ws ws' ms "ts @ w" k] by simp
qed simp_all

lemma renders_joined:
  assumes "list_all2 (renders_value W colon sc) vs ts" and "vs \<noteq> []" and "W []" and "W sp"
  shows "renders_elements W colon sc vs
    (concat (case ts of [] \<Rightarrow> [] | t # ts \<Rightarrow> t # map (\<lambda>t. '','' @ sp @ t) ts))"
  using assms(1,2)
proof (induction vs ts rule: list_all2_induct)
  case (Cons v vs t ts)
  show ?case
  proof (cases vs)
    case Nil
    then show ?thesis using element_last [OF Cons(1) assms(3)] Cons(2) by simp
  next
    case (Cons v' vs')
    then obtain t' ts' where ts: "ts = t' # ts'" using Cons.hyps(2) by (cases ts) auto
    then have "renders_elements W colon sc vs (t' @ concat (map (\<lambda>t. '','' @ sp @ t) ts'))"
      using Cons.IH Cons by simp
    from element [OF Cons.hyps(1) assms(3,4) this] ts show ?thesis by simp
  qed
qed simp

text \<open>Values that are written on one line, and their text.\<close>

definition simple :: "'r json \<Rightarrow> bool" where
  "simple v \<longleftrightarrow> \<not> ((isArray v \<or> isObject v) \<and> 0 < json_size v)"

definition simple_text :: "('r json_data \<Rightarrow> string) \<Rightarrow> 'r json \<Rightarrow> string" where
  "simple_text sc v = (case j_data v of J_array es \<Rightarrow> ''[]'' | J_object ms \<Rightarrow> ''{}'' | d \<Rightarrow> sc d)"

lemma simple_array: "simple (Json (J_array es) c) \<longleftrightarrow> json_size (Json (J_array es) c) = 0"
  by (simp add: simple_def isArray_def json_type_def word_neq_0_conv [symmetric])

lemma simple_object: "simple (Json (J_object ms) c) \<Longrightarrow> small_objects (Json (J_object ms) c) \<Longrightarrow> ms = []"
  using unat_of_nat32 [of "length ms"]
  by (simp add: simple_def isObject_def json_type_def json_size_def word_neq_0_conv [symmetric])

lemma renders_simple:
  assumes "simple v" and "small_objects v" and "W []"
  shows "renders_value W colon sc v (simple_text sc v)"
proof -
  obtain d c where v: "v = Json d c" by (cases v)
  show ?thesis
  proof (cases d)
    case (J_array es)
    with assms have "json_size (Json (J_array es) no_comments) = 0" by (simp add: v simple_array) (simp add: json_size_def)
    then have "children_of es = []" by (simp add: array_children_def)
    from array_empty [where W = W and ws = "[]", OF this assms(3)] show ?thesis by (simp add: v J_array simple_text_def)
  next
    case (J_object ms)
    with assms have "ms = []" by (simp add: v simple_object del: small_objects.simps)
    with object_empty [of W "[]"] assms(3) show ?thesis by (simp add: v J_object simple_text_def)
  qed (use scalar [of d W colon sc c] in \<open>simp_all add: v simple_text_def\<close>)
qed

lemma renders_simples:
  "\<forall>v \<in> set vs. simple v \<and> small_objects v \<Longrightarrow> W [] \<Longrightarrow>
   list_all2 (renders_value W colon sc) vs (map (simple_text sc) vs)"
  by (simp add: list_all2_conv_all_nth renders_simple)

lemma not_surely_multiline: "\<not> surely_multiline n vs \<Longrightarrow> \<forall>v \<in> set vs. simple v"
  by (auto simp: surely_multiline_def simple_def list_ex_iff)

lemma size_zero_children: "json_size (Json (J_array es) c) = 0 \<Longrightarrow> children_of es = []"
  by (simp add: array_children_def json_size_def)

end
