(* ===== verification/Json_Stream_Writer.thy ===== *)
theory Json_Stream_Writer
  imports Json_Our_Reader Json_Fast_Writer
begin

text \<open>
  The writers to streams: \<^verbatim>\<open>Json::StyledStreamWriter\<close>, and \<^verbatim>\<open>BuiltStyledStreamWriter\<close>, which
  \<^verbatim>\<open>StreamWriterBuilder\<close> makes from settings. Unlike \<^verbatim>\<open>StyledWriter\<close> they cannot read what they wrote, so
  they remember whether the line is indented. The stream is the text written to it so far.
\<close>

section \<open>Members that both classes have\<close>

record stream_writer =
  sm_out :: string
  sm_childValues :: "string list"
  sm_indentString :: string
  sm_addChildValues :: bool
  sm_indented :: bool

definition put :: "string \<Rightarrow> stream_writer \<Rightarrow> stream_writer" where
  "put s st = st\<lparr>sm_out := sm_out st @ s\<rparr>"

definition stream_pushValue :: "string \<Rightarrow> stream_writer \<Rightarrow> stream_writer" where
  "stream_pushValue s st =
     (if sm_addChildValues st then st\<lparr>sm_childValues := sm_childValues st @ [s]\<rparr> else put s st)"

definition stream_indent :: "string \<Rightarrow> stream_writer \<Rightarrow> stream_writer" where
  "stream_indent indentation st = st\<lparr>sm_indentString := sm_indentString st @ indentation\<rparr>"

definition stream_unindent :: "string \<Rightarrow> stream_writer \<Rightarrow> stream_writer" where
  "stream_unindent indentation st =
     st\<lparr>sm_indentString := take (length (sm_indentString st) - length indentation) (sm_indentString st)\<rparr>"

text \<open>A comment, with the indentation after each line feed that a slash follows.\<close>

fun put_comment :: "string \<Rightarrow> stream_writer \<Rightarrow> stream_writer" where
  "put_comment [] st = st"
| "put_comment (c # cs) st =
     (let st1 = put [c] st
      in put_comment cs
           (if c = CHR 0x0A \<and> cs \<noteq> [] \<and> hd cs = CHR ''/'' then put (sm_indentString st1) st1 else st1))"

section \<open>StyledStreamWriter\<close>

definition stream_writeIndent :: "stream_writer \<Rightarrow> stream_writer" where
  "stream_writeIndent st = put (CHR 0x0A # sm_indentString st) st"

definition stream_writeWithIndent :: "string \<Rightarrow> stream_writer \<Rightarrow> stream_writer" where
  "stream_writeWithIndent s st =
     (put s (if sm_indented st then st else stream_writeIndent st))\<lparr>sm_indented := False\<rparr>"

definition stream_commentBefore :: "'r json \<Rightarrow> stream_writer \<Rightarrow> stream_writer" where
  "stream_commentBefore v st =
     (case getComment v commentBefore of
        None \<Rightarrow> st
      | Some comment \<Rightarrow>
          (put_comment comment (if sm_indented st then st else stream_writeIndent st))\<lparr>sm_indented := False\<rparr>)"

definition stream_commentAfter :: "'r json \<Rightarrow> stream_writer \<Rightarrow> stream_writer" where
  "stream_commentAfter v st =
     (let st1 = (case getComment v commentAfterOnSameLine of
                   None \<Rightarrow> st | Some comment \<Rightarrow> put (CHR '' '' # comment) st);
          st2 = (case getComment v commentAfter of
                   None \<Rightarrow> st1 | Some comment \<Rightarrow> put comment (stream_writeIndent st1))
      in st2\<lparr>sm_indented := False\<rparr>)"

text \<open>
  \<open>value[0]\<close>, \<open>value[1]\<close> and so on are the \<open>children\<close>, \<open>n\<close> is the size. The first step of \<^verbatim>\<open>isMultineArray\<close>
  is the one of \<^verbatim>\<open>StyledWriter\<close>.
\<close>

function
  stream_writeValue :: "'r printf \<Rightarrow> string \<Rightarrow> 'r json \<Rightarrow> stream_writer \<Rightarrow> stream_writer" and
  stream_members :: "'r printf \<Rightarrow> string \<Rightarrow> (string \<times> 'r json) list \<Rightarrow> stream_writer \<Rightarrow> stream_writer" and
  stream_elements :: "'r printf \<Rightarrow> string \<Rightarrow> bool \<Rightarrow> nat \<Rightarrow> 'r json list \<Rightarrow> stream_writer \<Rightarrow> stream_writer" and
  stream_isMultineArray :: "'r printf \<Rightarrow> string \<Rightarrow> 32 word \<Rightarrow> 'r json list \<Rightarrow> stream_writer \<Rightarrow> stream_writer \<times> bool" and
  stream_collect :: "'r printf \<Rightarrow> string \<Rightarrow> 'r json list \<Rightarrow> stream_writer \<Rightarrow> stream_writer"
where
  "stream_writeValue real ind (Json d c) st =
     (case d of
        J_null \<Rightarrow> stream_pushValue ''null'' st
      | J_int i \<Rightarrow> stream_pushValue (valueToString_int i) st
      | J_uint u \<Rightarrow> stream_pushValue (valueToString_uint u) st
      | J_real r \<Rightarrow> stream_pushValue (valueToString_real real r) st
      | J_string s \<Rightarrow> stream_pushValue (valueToQuotedStringN s) st
      | J_bool b \<Rightarrow> stream_pushValue (valueToString_bool b) st
      | J_array es \<Rightarrow>
          (let n = json_size (Json d c); children = array_children es n
           in if n = 0 then stream_pushValue ''[]'' st
              else
                (let r = stream_isMultineArray real ind n children st; st1 = fst r
                 in if snd r
                    then stream_writeWithIndent '']''
                           (stream_unindent ind
                              (stream_elements real ind (sm_childValues st1 \<noteq> []) 0 children
                                 (stream_indent ind (stream_writeWithIndent ''['' st1))))
                    else put (''[ '' @ comma_separated (sm_childValues st1) @ '' ]'') st1))
      | J_object ms \<Rightarrow>
          if ms = [] then stream_pushValue ''{}'' st
          else
            stream_writeWithIndent ''}''
              (stream_unindent ind
                 (stream_members real ind ms (stream_indent ind (stream_writeWithIndent ''{'' st)))))"
| "stream_members real ind [] st = st"
| "stream_members real ind ((name, v) # ms) st =
     (let st1 = stream_writeWithIndent (valueToQuotedString name) (stream_commentBefore v st);
          st2 = stream_writeValue real ind v (put '' : '' st1)
      in if ms = [] then stream_commentAfter v st2
         else stream_members real ind ms (stream_commentAfter v (put '','' st2)))"
| "stream_elements real ind has i [] st = st"
| "stream_elements real ind has i (v # vs) st =
     (let st1 = stream_commentBefore v st;
          st2 = (if has then stream_writeWithIndent (sm_childValues st1 ! i) st1
                 else
                   (stream_writeValue real ind v
                      ((if sm_indented st1 then st1 else stream_writeIndent st1)\<lparr>sm_indented := True\<rparr>))
                    \<lparr>sm_indented := False\<rparr>)
      in if vs = [] then stream_commentAfter v st2
         else stream_elements real ind has (i + 1) vs (stream_commentAfter v (put '','' st2)))"
| "stream_isMultineArray real ind n children st =
     (let st0 = st\<lparr>sm_childValues := []\<rparr>
      in if surely_multiline n children then (st0, True)
         else
           (let st1 = (stream_collect real ind children (st0\<lparr>sm_addChildValues := True\<rparr>))
                        \<lparr>sm_addChildValues := False\<rparr>
            in (st1, list_ex hasCommentForValue children \<or> rightMargin \<le> line_length n (sm_childValues st1))))"
| "stream_collect real ind [] st = st"
| "stream_collect real ind (v # vs) st = stream_collect real ind vs (stream_writeValue real ind v st)"
  by pat_completeness auto
termination stream_writeValue
proof (relation "measures
     [\<lambda>x. case x of
        Inl (Inl (_, _, v, _)) \<Rightarrow> size v
      | Inl (Inr (_, _, ms, _)) \<Rightarrow> list_size (map snd ms)
      | Inr (Inl (_, _, _, _, vs, _)) \<Rightarrow> list_size vs
      | Inr (Inr (Inl (_, _, _, vs, _))) \<Rightarrow> list_size vs
      | Inr (Inr (Inr (_, _, vs, _))) \<Rightarrow> list_size vs,
      \<lambda>x. case x of
        Inl (Inl _) \<Rightarrow> 0
      | Inl (Inr (_, _, ms, _)) \<Rightarrow> Suc (length ms)
      | Inr (Inl (_, _, _, _, vs, _)) \<Rightarrow> Suc (length vs)
      | Inr (Inr (Inl (_, _, _, vs, _))) \<Rightarrow> Suc (Suc (length vs))
      | Inr (Inr (Inr (_, _, vs, _))) \<Rightarrow> Suc (length vs)]")
qed (use list_size_children_size list_size_members_less in \<open>simp_all add: max_cases\<close>)

text \<open>
  \<^verbatim>\<open>write\<close>, from the writer and the stream as they are to the writer and the stream after it.
\<close>

definition StyledStreamWriter_write :: "'r printf \<Rightarrow> string \<Rightarrow> 'r json \<Rightarrow> stream_writer \<Rightarrow> stream_writer" where
  "StyledStreamWriter_write real ind root st =
     (let st1 = stream_commentBefore root
                  (st\<lparr>sm_addChildValues := False, sm_indentString := [], sm_indented := True\<rparr>);
          st2 = (if sm_indented st1 then st1 else stream_writeIndent st1)\<lparr>sm_indented := True\<rparr>
      in put [CHR 0x0A] (stream_commentAfter root (stream_writeValue real ind root st2)))"

section \<open>BuiltStyledStreamWriter\<close>

datatype comment_style = CS_None | CS_Most | CS_All

text \<open>The members that do not change. How a real is printed depends on two of them.\<close>

record built_settings =
  bs_indentation :: string
  bs_cs :: comment_style
  bs_colonSymbol :: string
  bs_nullSymbol :: string
  bs_endingLineFeedSymbol :: string
  bs_useSpecialFloats :: bool
  bs_precision :: "32 word"

definition BuiltStyledStreamWriter :: stream_writer where
  "BuiltStyledStreamWriter =
     \<lparr>sm_out = [], sm_childValues = [], sm_indentString = [], sm_addChildValues = False, sm_indented = False\<rparr>"

definition built_writeIndent :: "built_settings \<Rightarrow> stream_writer \<Rightarrow> stream_writer" where
  "built_writeIndent B st =
     (if bs_indentation B = [] then st else put (CHR 0x0A # sm_indentString st) st)"

definition built_writeWithIndent :: "built_settings \<Rightarrow> string \<Rightarrow> stream_writer \<Rightarrow> stream_writer" where
  "built_writeWithIndent B s st =
     (put s (if sm_indented st then st else built_writeIndent B st))\<lparr>sm_indented := False\<rparr>"

definition built_commentBefore :: "built_settings \<Rightarrow> 'r json \<Rightarrow> stream_writer \<Rightarrow> stream_writer" where
  "built_commentBefore B v st =
     (if bs_cs B = CS_None then st
      else
        (case getComment v commentBefore of
           None \<Rightarrow> st
         | Some comment \<Rightarrow>
             (put_comment comment (if sm_indented st then st else built_writeIndent B st))
               \<lparr>sm_indented := False\<rparr>))"

definition built_commentAfter :: "built_settings \<Rightarrow> 'r json \<Rightarrow> stream_writer \<Rightarrow> stream_writer" where
  "built_commentAfter B v st =
     (if bs_cs B = CS_None then st
      else
        (let st1 = (case getComment v commentAfterOnSameLine of
                      None \<Rightarrow> st | Some comment \<Rightarrow> put (CHR '' '' # comment) st)
         in case getComment v commentAfter of
              None \<Rightarrow> st1 | Some comment \<Rightarrow> put comment (built_writeIndent B st1)))"

text \<open>An array on a single line.\<close>

definition single_line :: "string \<Rightarrow> string list \<Rightarrow> string" where
  "single_line indentation texts =
     (let space = (if indentation = [] then [] else '' '')
      in ''['' @ space @ concat (case texts of [] \<Rightarrow> [] | t # ts \<Rightarrow> t # map (\<lambda>t. '','' @ space @ t) ts) @
         space @ '']'')"

function
  built_writeValue :: "'r printf \<Rightarrow> built_settings \<Rightarrow> 'r json \<Rightarrow> stream_writer \<Rightarrow> stream_writer" and
  built_members :: "'r printf \<Rightarrow> built_settings \<Rightarrow> (string \<times> 'r json) list \<Rightarrow> stream_writer \<Rightarrow> stream_writer" and
  built_elements :: "'r printf \<Rightarrow> built_settings \<Rightarrow> bool \<Rightarrow> nat \<Rightarrow> 'r json list \<Rightarrow> stream_writer \<Rightarrow> stream_writer" and
  built_isMultineArray :: "'r printf \<Rightarrow> built_settings \<Rightarrow> 32 word \<Rightarrow> 'r json list \<Rightarrow> stream_writer \<Rightarrow> stream_writer \<times> bool" and
  built_collect :: "'r printf \<Rightarrow> built_settings \<Rightarrow> 'r json list \<Rightarrow> stream_writer \<Rightarrow> stream_writer"
where
  "built_writeValue real B (Json d c) st =
     (case d of
        J_null \<Rightarrow> stream_pushValue (bs_nullSymbol B) st
      | J_int i \<Rightarrow> stream_pushValue (valueToString_int i) st
      | J_uint u \<Rightarrow> stream_pushValue (valueToString_uint u) st
      | J_real r \<Rightarrow> stream_pushValue (valueToString_double real (bs_useSpecialFloats B) (bs_precision B) r) st
      | J_string s \<Rightarrow> stream_pushValue (valueToQuotedStringN s) st
      | J_bool b \<Rightarrow> stream_pushValue (valueToString_bool b) st
      | J_array es \<Rightarrow>
          (let n = json_size (Json d c); children = array_children es n
           in if n = 0 then stream_pushValue ''[]'' st
              else
                (let r = (if bs_cs B = CS_All then (st, True) else built_isMultineArray real B n children st);
                     st1 = fst r
                 in if snd r
                    then built_writeWithIndent B '']''
                           (stream_unindent (bs_indentation B)
                              (built_elements real B (sm_childValues st1 \<noteq> []) 0 children
                                 (stream_indent (bs_indentation B) (built_writeWithIndent B ''['' st1))))
                    else put (single_line (bs_indentation B) (sm_childValues st1)) st1))
      | J_object ms \<Rightarrow>
          if ms = [] then stream_pushValue ''{}'' st
          else
            built_writeWithIndent B ''}''
              (stream_unindent (bs_indentation B)
                 (built_members real B ms
                    (stream_indent (bs_indentation B) (built_writeWithIndent B ''{'' st)))))"
| "built_members real B [] st = st"
| "built_members real B ((name, v) # ms) st =
     (let st1 = built_writeWithIndent B (valueToQuotedStringN name) (built_commentBefore B v st);
          st2 = built_writeValue real B v (put (bs_colonSymbol B) st1)
      in if ms = [] then built_commentAfter B v st2
         else built_members real B ms (built_commentAfter B v (put '','' st2)))"
| "built_elements real B has i [] st = st"
| "built_elements real B has i (v # vs) st =
     (let st1 = built_commentBefore B v st;
          st2 = (if has then built_writeWithIndent B (sm_childValues st1 ! i) st1
                 else
                   (built_writeValue real B v
                      ((if sm_indented st1 then st1 else built_writeIndent B st1)\<lparr>sm_indented := True\<rparr>))
                    \<lparr>sm_indented := False\<rparr>)
      in if vs = [] then built_commentAfter B v st2
         else built_elements real B has (i + 1) vs (built_commentAfter B v (put '','' st2)))"
| "built_isMultineArray real B n children st =
     (let st0 = st\<lparr>sm_childValues := []\<rparr>
      in if surely_multiline n children then (st0, True)
         else
           (let st1 = (built_collect real B children (st0\<lparr>sm_addChildValues := True\<rparr>))
                        \<lparr>sm_addChildValues := False\<rparr>
            in (st1, list_ex hasCommentForValue children \<or> rightMargin \<le> line_length n (sm_childValues st1))))"
| "built_collect real B [] st = st"
| "built_collect real B (v # vs) st = built_collect real B vs (built_writeValue real B v st)"
  by pat_completeness auto
termination built_writeValue
proof (relation "measures
     [\<lambda>x. case x of
        Inl (Inl (_, _, v, _)) \<Rightarrow> size v
      | Inl (Inr (_, _, ms, _)) \<Rightarrow> list_size (map snd ms)
      | Inr (Inl (_, _, _, _, vs, _)) \<Rightarrow> list_size vs
      | Inr (Inr (Inl (_, _, _, vs, _))) \<Rightarrow> list_size vs
      | Inr (Inr (Inr (_, _, vs, _))) \<Rightarrow> list_size vs,
      \<lambda>x. case x of
        Inl (Inl _) \<Rightarrow> 0
      | Inl (Inr (_, _, ms, _)) \<Rightarrow> Suc (length ms)
      | Inr (Inl (_, _, _, _, vs, _)) \<Rightarrow> Suc (length vs)
      | Inr (Inr (Inl (_, _, _, vs, _))) \<Rightarrow> Suc (Suc (length vs))
      | Inr (Inr (Inr (_, _, vs, _))) \<Rightarrow> Suc (length vs)]")
qed (use list_size_children_size list_size_members_less in \<open>simp_all add: max_cases\<close>)

definition Built_write :: "'r printf \<Rightarrow> built_settings \<Rightarrow> 'r json \<Rightarrow> stream_writer \<Rightarrow> stream_writer" where
  "Built_write real B root st =
     (let st1 = built_commentBefore B root
                  (st\<lparr>sm_addChildValues := False, sm_indented := True, sm_indentString := []\<rparr>);
          st2 = (if sm_indented st1 then st1 else built_writeIndent B st1)\<lparr>sm_indented := True\<rparr>
      in put (bs_endingLineFeedSymbol B) (built_commentAfter B root (built_writeValue real B root st2)))"

section \<open>StreamWriterBuilder\<close>

definition StreamWriterBuilder_setDefaults :: "'r json \<Rightarrow> exn + 'r json" where
  "StreamWriterBuilder_setDefaults = set_settings
     [(''commentStyle'', J_string ''All''), (''indentation'', J_string [CHR 0x09]),
      (''enableYAMLCompatibility'', J_bool False), (''dropNullPlaceholders'', J_bool False),
      (''useSpecialFloats'', J_bool False), (''precision'', J_int 17)]"

definition StreamWriterBuilder :: "exn + 'r json" where
  "StreamWriterBuilder = StreamWriterBuilder_setDefaults nullSingleton"

definition comment_style_of :: "string \<Rightarrow> exn + comment_style" where
  "comment_style_of cs_str =
     (if cs_str = ''All'' then Inr CS_All
      else if cs_str = ''None'' then Inr CS_None
      else Inl (Runtime_error (''commentStyle must be '' @ quoted ''All'' @ '' or '' @ quoted ''None'')))"

definition newStreamWriter :: "'r double_ops \<Rightarrow> 'r json \<Rightarrow> exn + built_settings" where
  "newStreamWriter R settings =
     or_throw (setting settings ''indentation'') (\<lambda>v. or_throw (asString R v) (\<lambda>indentation.
     or_throw (setting settings ''commentStyle'') (\<lambda>v. or_throw (asString R v) (\<lambda>cs_str.
     or_throw (setting settings ''enableYAMLCompatibility'') (\<lambda>v. or_throw (asBool R v) (\<lambda>eyc.
     or_throw (setting settings ''dropNullPlaceholders'') (\<lambda>v. or_throw (asBool R v) (\<lambda>dnp.
     or_throw (setting settings ''useSpecialFloats'') (\<lambda>v. or_throw (asBool R v) (\<lambda>usf.
     or_throw (setting settings ''precision'') (\<lambda>v. or_throw (asUInt R v) (\<lambda>pre.
     or_throw (comment_style_of cs_str) (\<lambda>cs.
       Inr
         \<lparr>bs_indentation = indentation, bs_cs = cs,
          bs_colonSymbol = (if eyc then '': '' else if indentation = [] then '':'' else '' : ''),
          bs_nullSymbol = (if dnp then [] else ''null''), bs_endingLineFeedSymbol = [],
          bs_useSpecialFloats = usf, bs_precision = (if 17 < pre then 17 else pre)\<rparr>)))))))))))))"

definition getValidWriterKeys :: "string list" where
  "getValidWriterKeys =
     [''indentation'', ''commentStyle'', ''enableYAMLCompatibility'', ''dropNullPlaceholders'',
      ''useSpecialFloats'', ''precision'']"

definition StreamWriterBuilder_validate :: "'r json \<Rightarrow> 'r json \<Rightarrow> exn + 'r json \<times> bool" where
  "StreamWriterBuilder_validate settings invalid = builder_validate getValidWriterKeys settings invalid"

definition writeString :: "'r double_ops \<Rightarrow> 'r printf \<Rightarrow> 'r json \<Rightarrow> 'r json \<Rightarrow> exn + string" where
  "writeString R real settings root =
     or_throw (newStreamWriter R settings) (\<lambda>B. Inr (sm_out (Built_write real B root BuiltStyledStreamWriter)))"

text \<open>The operator \<^verbatim>\<open><<\<close> on a stream that has the text \<open>out\<close>.\<close>

definition json_output :: "'r double_ops \<Rightarrow> 'r printf \<Rightarrow> string \<Rightarrow> 'r json \<Rightarrow> exn + string" where
  "json_output R real out root =
     or_throw StreamWriterBuilder (\<lambda>settings.
     or_throw (newStreamWriter R settings) (\<lambda>B.
       Inr (sm_out (Built_write real B root (BuiltStyledStreamWriter\<lparr>sm_out := out\<rparr>)))))"

end
