(* ===== verification/Json_Stream_Text.thy ===== *)
theory Json_Stream_Text
  imports Json_Roundtrip Json_Shape Json_Stream_Writer
begin

text \<open>
  What the writers to streams write is a text of the value, if no comment is written. So it is read
  back, and without indentation it is what \<^verbatim>\<open>FastWriter\<close> writes.
\<close>

section \<open>Values without comments\<close>

definition quiet :: "built_settings \<Rightarrow> 'r json \<Rightarrow> bool" where
  "quiet B v \<longleftrightarrow> bs_cs B = CS_None \<or> comment_free v"

lemma quiet_comments [simp]:
  assumes "quiet B v"
  shows "built_commentBefore B v st = st" "built_commentAfter B v st = st"
  using assms
  by (cases v; auto simp: quiet_def built_commentBefore_def built_commentAfter_def getComment_def no_comments_def)+

lemma quiet_child:
  "quiet B (Json (J_array es) c) \<Longrightarrow> x \<in> set (children_of es) \<Longrightarrow> quiet B x"
  using children_cases [of x es] by (fastforce simp: quiet_def nullSingleton_def json_of_def)

lemma quiet_member: "quiet B (Json (J_object ms) c) \<Longrightarrow> m \<in> set ms \<Longrightarrow> quiet B (snd m)"
  by (auto simp: quiet_def)

section \<open>Texts of the built writer\<close>

fun built_scalar :: "'r printf \<Rightarrow> built_settings \<Rightarrow> 'r json_data \<Rightarrow> string" where
  "built_scalar real B J_null = bs_nullSymbol B"
| "built_scalar real B (J_int i) = valueToString_int i"
| "built_scalar real B (J_uint u) = valueToString_uint u"
| "built_scalar real B (J_real r) = valueToString_double real (bs_useSpecialFloats B) (bs_precision B) r"
| "built_scalar real B (J_string s) = valueToQuotedStringN s"
| "built_scalar real B (J_bool b) = valueToString_bool b"
| "built_scalar real B _ = []"

definition built_space :: "built_settings \<Rightarrow> string \<Rightarrow> bool" where
  "built_space B ws \<longleftrightarrow> spaces ws \<and> (bs_indentation B = [] \<longrightarrow> ws = [])"

lemma built_space_simps [simp]:
  "built_space B []" "built_space B a \<Longrightarrow> built_space B b \<Longrightarrow> built_space B (a @ b)"
  by (simp_all add: built_space_def)

abbreviation built_text :: "'r printf \<Rightarrow> built_settings \<Rightarrow> 'r json \<Rightarrow> string \<Rightarrow> bool" where
  "built_text real B \<equiv> renders_value (built_space B) (bs_colonSymbol B) (built_scalar real B)"

abbreviation built_elements_text :: "'r printf \<Rightarrow> built_settings \<Rightarrow> 'r json list \<Rightarrow> string \<Rightarrow> bool" where
  "built_elements_text real B \<equiv> renders_elements (built_space B) (bs_colonSymbol B) (built_scalar real B)"

abbreviation built_members_text ::
  "'r printf \<Rightarrow> built_settings \<Rightarrow> (string \<times> 'r json) list \<Rightarrow> string \<Rightarrow> bool" where
  "built_members_text real B \<equiv> renders_members (built_space B) (bs_colonSymbol B) (built_scalar real B)"

section \<open>Steps of the built writer\<close>

text \<open>The state in which a value is written to the stream, and what writing keeps.\<close>

definition ready :: "built_settings \<Rightarrow> stream_writer \<Rightarrow> bool" where
  "ready B st \<longleftrightarrow> \<not> sm_addChildValues st \<and> spaces (sm_indentString st) \<and>
     (bs_cs B = CS_All \<longrightarrow> sm_childValues st = [])"

definition wrote :: "built_settings \<Rightarrow> stream_writer \<Rightarrow> stream_writer \<Rightarrow> string \<Rightarrow> bool" where
  "wrote B st st' t \<longleftrightarrow> ready B st' \<and> sm_out st' = sm_out st @ t \<and> sm_indentString st' = sm_indentString st"

lemma wrote_trans: "wrote B st st1 s \<Longrightarrow> wrote B st1 st2 t \<Longrightarrow> wrote B st st2 (s @ t)"
  by (simp add: wrote_def)

lemma wrote_ready: "wrote B st st' t \<Longrightarrow> ready B st'"
  by (simp add: wrote_def)

lemma wrote_put: "ready B st \<Longrightarrow> wrote B st (put t st) t"
  by (simp add: wrote_def ready_def put_def)

lemma ready_indented [simp]: "ready B (st\<lparr>sm_indented := b\<rparr>) = ready B st"
  by (simp add: ready_def)

lemma wrote_indented [simp]:
  "wrote B st (st'\<lparr>sm_indented := b\<rparr>) t = wrote B st st' t" "wrote B (st\<lparr>sm_indented := b\<rparr>) st' t = wrote B st st' t"
  by (simp_all add: wrote_def)

lemma wrote_line:
  assumes "ready B st"
  obtains w where "built_space B w" and "wrote B st (if sm_indented st then st else built_writeIndent B st) w"
    and "sm_childValues (if sm_indented st then st else built_writeIndent B st) = sm_childValues st"
proof
  let ?w = "if sm_indented st \<or> bs_indentation B = [] then [] else CHR 0x0A # sm_indentString st"
  show "built_space B ?w" "wrote B st (if sm_indented st then st else built_writeIndent B st) ?w"
    "sm_childValues (if sm_indented st then st else built_writeIndent B st) = sm_childValues st"
    using assms by (auto simp: built_space_def ready_def wrote_def built_writeIndent_def put_def json_space_def)
qed

lemma wrote_with_indent:
  assumes "ready B st"
  obtains w where "built_space B w" and "wrote B st (built_writeWithIndent B t st) (w @ t)"
    and "sm_childValues (built_writeWithIndent B t st) = sm_childValues st"
proof -
  let ?st = "if sm_indented st then st else built_writeIndent B st"
  obtain w where w: "built_space B w" "wrote B st ?st w" "sm_childValues ?st = sm_childValues st"
    by (rule wrote_line [OF assms])
  have "wrote B st (built_writeWithIndent B t st) (w @ t)"
    using wrote_trans [OF w(2) wrote_put [OF wrote_ready [OF w(2)]]] by (simp add: built_writeWithIndent_def)
  moreover have "sm_childValues (built_writeWithIndent B t st) = sm_childValues st"
    using w(3) by (simp add: built_writeWithIndent_def put_def)
  ultimately show ?thesis using that w(1) by blast
qed

text \<open>Between two brackets, one step further in.\<close>

lemma wrote_within:
  assumes ind: "spaces (bs_indentation B)" and st: "ready B st"
    and body: "\<And>st1. ready B st1 \<Longrightarrow> sm_childValues st1 = sm_childValues st \<Longrightarrow>
      \<exists>w t. built_space B w \<and> P t \<and> wrote B st1 (f st1) (w @ t)"
    and trail: "\<And>t w. P t \<Longrightarrow> built_space B w \<Longrightarrow> P (t @ w)"
  shows "\<exists>w w' t. built_space B w \<and> built_space B w' \<and> P t \<and>
    wrote B st
      (built_writeWithIndent B b (stream_unindent (bs_indentation B)
         (f (stream_indent (bs_indentation B) (built_writeWithIndent B a st))))) (w @ a @ w' @ t @ b)"
proof -
  let ?st1 = "built_writeWithIndent B a st"
  obtain w where w: "built_space B w" "wrote B st ?st1 (w @ a)" "sm_childValues ?st1 = sm_childValues st"
    by (rule wrote_with_indent [OF st])
  let ?st2 = "stream_indent (bs_indentation B) ?st1"
  have "ready B ?st2" using ind wrote_ready [OF w(2)] by (simp add: ready_def stream_indent_def)
  moreover have "sm_childValues ?st2 = sm_childValues st" using w(3) by (simp add: stream_indent_def)
  ultimately obtain w' t where t: "built_space B w'" "P t" "wrote B ?st2 (f ?st2) (w' @ t)"
    using body by blast
  let ?st3 = "stream_unindent (bs_indentation B) (f ?st2)"
  have w3: "wrote B ?st1 ?st3 (w' @ t)"
    using t(3) wrote_ready [OF w(2)]
    by (simp add: wrote_def ready_def stream_indent_def stream_unindent_def)
  obtain u where u: "built_space B u" "wrote B ?st3 (built_writeWithIndent B b ?st3) (u @ b)"
    by (rule wrote_with_indent [OF wrote_ready [OF w3]])
  show ?thesis
    using wrote_trans [OF wrote_trans [OF w(2) w3] u(2)] w(1) t(1) trail [OF t(2) u(1)]
    by (intro exI [of _ w] exI [of _ w'] exI [of _ "t @ u"]) simp
qed

section \<open>Elements that are written on one line\<close>

lemma built_simple:
  assumes "simple v" and "small_objects v"
  shows "built_writeValue real B v st = stream_pushValue (simple_text (built_scalar real B) v) st"
proof -
  obtain d c where v: "v = Json d c" by (cases v)
  from assms show ?thesis
    by (cases d) (simp_all add: v simple_array simple_object simple_text_def del: small_objects.simps)
qed

abbreviation simple_texts :: "'r printf \<Rightarrow> built_settings \<Rightarrow> 'r json list \<Rightarrow> string list" where
  "simple_texts real B \<equiv> map (simple_text (built_scalar real B))"

lemma built_collect_simple:
  "\<forall>v \<in> set vs. simple v \<and> small_objects v \<Longrightarrow> sm_addChildValues st \<Longrightarrow>
   built_collect real B vs st = st\<lparr>sm_childValues := sm_childValues st @ simple_texts real B vs\<rparr>"
  by (induction vs arbitrary: st) (simp_all add: built_simple stream_pushValue_def)

lemma built_multiline:
  assumes "\<forall>v \<in> set vs. small_objects v" and "ready B st" and "bs_cs B \<noteq> CS_All"
    and r: "built_isMultineArray real B n vs st = (st1, multi)"
  shows "wrote B st st1 [] \<and>
    (if sm_childValues st1 = [] then multi \<or> vs = []
     else sm_childValues st1 = simple_texts real B vs \<and> (\<forall>v \<in> set vs. simple v))"
proof (cases "surely_multiline n vs")
  case True
  with r assms(2,3) show ?thesis by (auto simp: wrote_def ready_def)
next
  case False
  then have s: "\<forall>v \<in> set vs. simple v" by (rule not_surely_multiline)
  let ?st = "st\<lparr>sm_childValues := [], sm_addChildValues := True\<rparr>"
  have "built_collect real B vs ?st = ?st\<lparr>sm_childValues := simple_texts real B vs\<rparr>"
    using s assms(1) by (subst built_collect_simple) simp_all
  with r False assms(2,3) s show ?thesis
    by (auto simp: wrote_def ready_def Let_def)
qed

lemma single_line_text:
  assumes "\<forall>v \<in> set (children_of es). simple v \<and> small_objects v" and "children_of es \<noteq> []"
  shows "built_text real B (Json (J_array es) c)
    (single_line (bs_indentation B) (simple_texts real B (children_of es)))"
proof -
  let ?sp = "if bs_indentation B = [] then [] else '' ''"
  have sp: "built_space B ?sp" by (simp add: built_space_def json_space_def)
  note joined = renders_joined [where W = "built_space B", OF renders_simples [OF assms(1)] assms(2) _ sp]
  have "built_elements_text real B (children_of es)
      (concat (case simple_texts real B (children_of es) of [] \<Rightarrow> []
         | t # ts \<Rightarrow> t # map (\<lambda>t. '','' @ ?sp @ t) ts) @ ?sp)"
    by (rule renders_trail(2) [where W = "built_space B", OF joined sp]) simp_all
  from array [OF this sp, of c] show ?thesis by (simp add: single_line_def Let_def)
qed

section \<open>Values\<close>

definition writes :: "'r printf \<Rightarrow> built_settings \<Rightarrow> 'r json \<Rightarrow> bool" where
  "writes real B v \<longleftrightarrow> (\<forall>st. ready B st \<longrightarrow>
     (\<exists>w t. built_space B w \<and> built_text real B v t \<and> wrote B st (built_writeValue real B v st) (w @ t)))"

lemma writesD:
  assumes "writes real B v" and "ready B st"
  obtains w t where "built_space B w" and "built_text real B v t"
    and "wrote B st (built_writeValue real B v st) (w @ t)"
  using assms unfolding writes_def by blast

lemma elements_collected:
  assumes "\<forall>v \<in> set vs. simple v \<and> small_objects v \<and> quiet B v" and "vs \<noteq> []"
    and "ready B st" and "drop i (sm_childValues st) = simple_texts real B vs"
  shows "\<exists>w t. built_space B w \<and> built_elements_text real B vs t \<and>
    wrote B st (built_elements real B True i vs st) (w @ t)"
  using assms
proof (induction vs arbitrary: i st)
  case (Cons v vs)
  let ?t = "simple_text (built_scalar real B) v"
  have v: "built_text real B v ?t" using Cons.prems(1) by (intro renders_simple) simp_all
  have d: "drop i (sm_childValues st) = ?t # simple_texts real B vs"
    using Cons.prems(4) by simp
  then have i: "i < length (sm_childValues st)" by (metis drop_eq_Nil list.distinct(1) not_le)
  with d have nth: "sm_childValues st ! i = ?t" "drop (Suc i) (sm_childValues st) = simple_texts real B vs"
    by (simp_all add: Cons_nth_drop_Suc [symmetric])
  let ?st1 = "built_writeWithIndent B ?t st"
  obtain w where w: "built_space B w" "wrote B st ?st1 (w @ ?t)" "sm_childValues ?st1 = sm_childValues st"
    by (rule wrote_with_indent [OF Cons.prems(3)])
  show ?case
  proof (cases "vs = []")
    case True
    then have "built_elements real B True i (v # vs) st = ?st1" using Cons.prems(1) nth by simp
    then show ?thesis using w element_last [OF v, of "[]"] True by auto
  next
    case False
    let ?st2 = "put '','' ?st1"
    have p: "wrote B ?st1 ?st2 '',''" by (rule wrote_put [OF wrote_ready [OF w(2)]])
    obtain w' t where t: "built_space B w'" "built_elements_text real B vs t"
      "wrote B ?st2 (built_elements real B True (i + 1) vs ?st2) (w' @ t)"
      using Cons.IH [of ?st2 "i + 1"] Cons.prems(1) False wrote_ready [OF p] nth w(3) by (auto simp: put_def)
    have "built_elements real B True i (v # vs) st = built_elements real B True (i + 1) vs ?st2"
      using Cons.prems(1) nth False by simp
    then show ?thesis
      using wrote_trans [OF wrote_trans [OF w(2) p] t(3)] element [OF v _ t(1,2), of "[]"] w(1) by auto
  qed
qed simp

lemma elements_written:
  assumes "\<forall>v \<in> set vs. writes real B v \<and> quiet B v" and "vs \<noteq> []" and "ready B st"
  shows "\<exists>w t. built_space B w \<and> built_elements_text real B vs t \<and>
    wrote B st (built_elements real B False i vs st) (w @ t)"
  using assms
proof (induction vs arbitrary: i st)
  case (Cons v vs)
  then have V: "writes real B v" "quiet B v" by simp_all
  let ?st1 = "(if sm_indented st then st else built_writeIndent B st)\<lparr>sm_indented := True\<rparr>"
  obtain w1 where w1: "built_space B w1" "wrote B st ?st1 w1"
    using wrote_line [OF Cons.prems(3)] by (metis wrote_indented(1))
  let ?st2 = "(built_writeValue real B v ?st1)\<lparr>sm_indented := False\<rparr>"
  obtain w2 t where w2: "built_space B w2" and t: "built_text real B v t"
    and wt: "wrote B ?st1 (built_writeValue real B v ?st1) (w2 @ t)"
    by (rule writesD [OF V(1) wrote_ready [OF w1(2)]])
  have w: "wrote B st ?st2 ((w1 @ w2) @ t)" using wrote_trans [OF w1(2) wt] by simp
  have sp: "built_space B (w1 @ w2)" using w1(1) w2 by simp
  show ?case
  proof (cases "vs = []")
    case True
    then have "built_elements real B False i (v # vs) st = ?st2" using V by simp
    then show ?thesis
      using w sp element_last [OF t, of "[]"] True
      by (intro exI [of _ "w1 @ w2"] exI [of _ t]) (simp del: built_elements.simps)
  next
    case False
    let ?st3 = "put '','' ?st2"
    have p: "wrote B ?st2 ?st3 '',''" by (rule wrote_put [OF wrote_ready [OF w]])
    obtain w' t' where t': "built_space B w'" "built_elements_text real B vs t'"
      "wrote B ?st3 (built_elements real B False (i + 1) vs ?st3) (w' @ t')"
      using Cons.IH [of ?st3 "i + 1"] Cons.prems(1) False wrote_ready [OF p] by auto
    have "built_elements real B False i (v # vs) st = built_elements real B False (i + 1) vs ?st3"
      using V False by simp
    then show ?thesis
      using wrote_trans [OF wrote_trans [OF w p] t'(3)] element [OF t _ t'(1,2), of "[]"] sp
      by (intro exI [of _ "w1 @ w2"] exI [of _ "t @ [] @ '','' @ w' @ t'"]) (simp del: built_elements.simps)
  qed
qed simp

lemma members_written:
  assumes "\<forall>m \<in> set ms. writes real B (snd m) \<and> quiet B (snd m)" and "ms \<noteq> []" and "ready B st"
  shows "\<exists>w t. built_space B w \<and> built_members_text real B ms t \<and>
    wrote B st (built_members real B ms st) (w @ t)"
  using assms
proof (induction ms arbitrary: st)
  case (Cons m ms)
  obtain k v where m: "m = (k, v)" by (cases m)
  with Cons have V: "writes real B v" "quiet B v" by simp_all
  let ?q = "valueToQuotedStringN k" and ?c = "bs_colonSymbol B"
  let ?st1 = "built_writeWithIndent B ?q st"
  obtain w1 where w1: "built_space B w1" "wrote B st ?st1 (w1 @ ?q)"
    using wrote_with_indent [OF Cons.prems(3)] by metis
  let ?st2 = "put ?c ?st1"
  have c: "wrote B ?st1 ?st2 ?c" by (rule wrote_put [OF wrote_ready [OF w1(2)]])
  let ?st3 = "built_writeValue real B v ?st2"
  obtain w2 t where w2: "built_space B w2" and t: "built_text real B v t" and wt: "wrote B ?st2 ?st3 (w2 @ t)"
    by (rule writesD [OF V(1) wrote_ready [OF c]])
  have w: "wrote B st ?st3 (w1 @ ?q @ ?c @ w2 @ t)"
    using wrote_trans [OF wrote_trans [OF w1(2) c] wt] by simp
  show ?case
  proof (cases "ms = []")
    case True
    then have "built_members real B (m # ms) st = ?st3" using V m by simp
    with w w1(1) w2 member_last [OF t w2, of "[]" k] True m show ?thesis by auto
  next
    case False
    let ?st4 = "put '','' ?st3"
    have p: "wrote B ?st3 ?st4 '',''" by (rule wrote_put [OF wrote_ready [OF w]])
    obtain w' t' where t': "built_space B w'" "built_members_text real B ms t'"
      "wrote B ?st4 (built_members real B ms ?st4) (w' @ t')"
      using Cons.IH [of ?st4] Cons.prems(1) False wrote_ready [OF p] by auto
    have "built_members real B (m # ms) st = built_members real B ms ?st4" using V False m by simp
    then show ?thesis
      using wrote_trans [OF wrote_trans [OF w p] t'(3)] member [OF t w2 _ t'(1,2), of "[]" k] w1(1) m by auto
  qed
qed simp

text \<open>An array of several lines is written element by element, or from what was collected.\<close>

lemma array_written:
  assumes ind: "spaces (bs_indentation B)" and q: "quiet B (Json (J_array es) c)"
    and sm: "small_objects (Json (J_array es) c)" and V: "\<forall>v \<in> set (children_of es). writes real B v"
  shows "writes real B (Json (J_array es) c)"
  unfolding writes_def
proof (intro allI impI)
  fix st
  assume st: "ready B st"
  define vs where "vs = children_of es"
  define n where "n = json_size (Json (J_array es) c)"
  have vs: "array_children es n = vs" by (simp add: n_def vs_def json_size_def)
  let ?v = "Json (J_array es) c"
  have child: "\<forall>v \<in> set vs. quiet B v \<and> small_objects v \<and> writes real B v"
    using quiet_child [OF q] small_child [OF sm] V by (simp add: vs_def)
  show "\<exists>w t. built_space B w \<and> built_text real B ?v t \<and> wrote B st (built_writeValue real B ?v st) (w @ t)"
  proof (cases "n = 0")
    case True
    then have "children_of es = []" by (simp add: n_def array_children_def json_size_def)
    from array_empty [OF this, of "built_space B" "[]" "bs_colonSymbol B" "built_scalar real B" c] True st show ?thesis
      by (intro exI [of _ "[]"] exI [of _ "''[]''"]) (simp add: n_def stream_pushValue_def ready_def wrote_def put_def)
  next
    case False
    then have ne: "vs \<noteq> []" unfolding vs [symmetric] by (auto simp: array_children_def unsigned_eq_0_iff)
    obtain st1 multi where r: "(if bs_cs B = CS_All then (st, True) else built_isMultineArray real B n vs st) = (st1, multi)"
      by (cases "if bs_cs B = CS_All then (st, True) else built_isMultineArray real B n vs st")
    let ?has = "sm_childValues st1 \<noteq> []"
    have w0: "wrote B st st1 [] \<and>
      (if sm_childValues st1 = [] then multi \<or> vs = []
       else sm_childValues st1 = simple_texts real B vs \<and> (\<forall>v \<in> set vs. simple v))"
    proof (cases "bs_cs B = CS_All")
      case True
      with r st show ?thesis by (auto simp: wrote_def ready_def)
    qed (use built_multiline [of vs B st real n st1 multi] r st child in auto)
    let ?f = "built_elements real B ?has 0 vs"
    have val: "built_writeValue real B ?v st =
        (if multi
         then built_writeWithIndent B '']'' (stream_unindent (bs_indentation B)
                (?f (stream_indent (bs_indentation B) (built_writeWithIndent B ''['' st1))))
         else put (single_line (bs_indentation B) (sm_childValues st1)) st1)"
      using False r
      by (cases "bs_cs B = CS_All") (simp_all add: n_def [symmetric] vs Let_def del: built_isMultineArray.simps)
    show ?thesis
    proof (cases multi)
      case True
      have st1: "ready B st1" using w0 by (blast intro: wrote_ready)
      have body: "\<exists>w t. built_space B w \<and> built_elements_text real B vs t \<and> wrote B st2 (?f st2) (w @ t)"
        if "ready B st2" "sm_childValues st2 = sm_childValues st1" for st2
      proof (cases ?has)
        case True
        with w0 that child ne show ?thesis using elements_collected [of vs B st2 0 real] by simp
      next
        case False
        with that child ne show ?thesis using elements_written [of vs real B st2 0] by simp
      qed
      obtain w w' t where t: "built_space B w" "built_space B w'" "built_elements_text real B vs t"
        "wrote B st1 (built_writeValue real B ?v st) (w @ ''['' @ w' @ t @ '']'')"
      proof -
        note within = wrote_within [where P = "built_elements_text real B vs", OF ind st1 body, of "'']''" "''[''"]
        have "built_elements_text real B vs (t @ w)" if "built_elements_text real B vs t" "built_space B w" for t w
          by (rule renders_trail(2) [where W = "built_space B", OF that]) simp
        from within [OF _ _ this] show thesis using that True unfolding val by (simp only: if_True) blast
      qed
      show ?thesis
        using array [OF t(3) [unfolded vs_def] t(2), of c] t(1) wrote_trans [OF conjunct1 [OF w0] t(4)]
        by (intro exI [of _ w] exI [of _ "''['' @ w' @ t @ '']''"]) (simp del: built_writeValue.simps)
    next
      case False
      with w0 ne have c: "sm_childValues st1 = simple_texts real B vs" "\<forall>v \<in> set vs. simple v"
        by (auto split: if_splits)
      have "built_text real B ?v (single_line (bs_indentation B) (simple_texts real B vs))"
        using single_line_text [of es B real c] c child ne by (simp add: vs_def)
      moreover have "wrote B st (built_writeValue real B ?v st) (single_line (bs_indentation B) (simple_texts real B vs))"
        using wrote_trans [OF conjunct1 [OF w0] wrote_put [OF wrote_ready [OF conjunct1 [OF w0]]]] False c
        unfolding val by simp
      ultimately show ?thesis
        by (intro exI [of _ "[]"] exI [of _ "single_line (bs_indentation B) (simple_texts real B vs)"])
          (simp del: built_writeValue.simps)
    qed
  qed
qed

lemma object_written:
  assumes ind: "spaces (bs_indentation B)" and q: "quiet B (Json (J_object ms) c)"
    and V: "\<forall>m \<in> set ms. writes real B (snd m)"
  shows "writes real B (Json (J_object ms) c)"
  unfolding writes_def
proof (intro allI impI)
  fix st
  assume st: "ready B st"
  let ?v = "Json (J_object ms) c"
  show "\<exists>w t. built_space B w \<and> built_text real B ?v t \<and> wrote B st (built_writeValue real B ?v st) (w @ t)"
  proof (cases "ms = []")
    case True
    with object_empty [of "built_space B" "[]" "bs_colonSymbol B" "built_scalar real B" c] st show ?thesis
      by (intro exI [of _ "[]"] exI [of _ "''{}''"]) (simp add: stream_pushValue_def ready_def wrote_def put_def)
  next
    case False
    have body: "\<exists>w t. built_space B w \<and> built_members_text real B ms t \<and> wrote B st2 (built_members real B ms st2) (w @ t)"
      if "ready B st2" for st2
      using members_written [OF _ False that] V quiet_member [OF q] by blast
    obtain w w' t where t: "built_space B w" "built_space B w'" "built_members_text real B ms t"
      "wrote B st (built_writeValue real B ?v st) (w @ ''{'' @ w' @ t @ ''}'')"
      using wrote_within [OF ind st body renders_trail(3), of "''}''" "''{''"] False by auto
    show ?thesis
      using object [OF t(3,2), of c] t(1,4)
      by (intro exI [of _ w] exI [of _ "''{'' @ w' @ t @ ''}''"]) (simp del: built_writeValue.simps)
  qed
qed

lemma scalar_written:
  assumes "\<not> compound d"
  shows "writes real B (Json d c)"
  unfolding writes_def
proof (intro allI impI)
  fix st
  assume st: "ready B st"
  have "built_writeValue real B (Json d c) st = put (built_scalar real B d) st"
    using assms st by (cases d) (simp_all add: stream_pushValue_def ready_def)
  then show "\<exists>w t. built_space B w \<and> built_text real B (Json d c) t \<and> wrote B st (built_writeValue real B (Json d c) st) (w @ t)"
    using scalar [OF assms, of "built_space B" "bs_colonSymbol B" "built_scalar real B" c] wrote_put [OF st]
    by (intro exI [of _ "[]"] exI [of _ "built_scalar real B d"]) (simp del: built_writeValue.simps)
qed

lemma value_written:
  assumes ind: "spaces (bs_indentation B)"
  shows "quiet B v \<Longrightarrow> small_objects v \<Longrightarrow> writes real B v"
proof (induction v rule: measure_induct_rule [of size])
  case (less v)
  obtain d c where v: "v = Json d c" by (cases v)
  show ?case
  proof (cases d)
    case (J_array es)
    have "writes real B x" if "x \<in> set (children_of es)" for x
      using less that child_smaller [OF that, of c] quiet_child [of B es c x] small_child [of es c x]
      by (simp add: v J_array)
    with less.prems show ?thesis unfolding v J_array by (intro array_written [OF ind]) blast+
  next
    case (J_object ms)
    have "writes real B (snd m)" if "m \<in> set ms" for m
      using less that member_smaller [OF that, of c] quiet_member [of B ms c m] by (simp add: v J_object)
    with less.prems show ?thesis unfolding v J_object by (intro object_written [OF ind]) blast+
  qed (simp_all add: v scalar_written)
qed

lemma Built_write_text:
  assumes "spaces (bs_indentation B)" and "quiet B v" and "small_objects v"
    and "bs_cs B = CS_All \<Longrightarrow> sm_childValues st = []"
  obtains w t where "built_space B w" and "built_text real B v t"
    and "sm_out (Built_write real B v st) = sm_out st @ w @ t @ bs_endingLineFeedSymbol B"
proof -
  let ?st = "st\<lparr>sm_addChildValues := False, sm_indentString := [], sm_indented := True\<rparr>"
  have "ready B ?st" using assms(4) by (simp add: ready_def)
  then obtain w t where t: "built_space B w" "built_text real B v t"
    "wrote B ?st (built_writeValue real B v ?st) (w @ t)"
    by (rule writesD [OF value_written [OF assms(1-3)]])
  then show ?thesis using that [OF t(1,2)] assms(2) by (simp add: Built_write_def Let_def wrote_def put_def)
qed

section \<open>Writers that a builder makes\<close>

lemma or_throw_Inr: "or_throw r f = Inr y \<longleftrightarrow> (\<exists>x. r = Inr x \<and> f x = Inr y)"
  by (cases r) simp_all

lemma comment_style_of_Inr: "comment_style_of s = Inr cs \<longleftrightarrow> (s = ''All'' \<and> cs = CS_All) \<or> (s = ''None'' \<and> cs = CS_None)"
  by (auto simp: comment_style_of_def)

lemma newStreamWriter_settings:
  assumes "newStreamWriter R settings = Inr B"
  shows "bs_colonSymbol B \<in> {'': '', '' : '', '':''}" and "bs_indentation B = [] \<Longrightarrow> bs_colonSymbol B \<in> {'': '', '':''}"
    and "bs_nullSymbol B \<in> {[], ''null''}" and "bs_endingLineFeedSymbol B = []"
    and "bs_cs B \<in> {CS_None, CS_All}" and "bs_precision B \<le> 17"
proof -
  obtain indentation cs eyc dnp usf and pre :: "32 word" where
    B: "B = \<lparr>bs_indentation = indentation, bs_cs = cs,
      bs_colonSymbol = (if eyc then '': '' else if indentation = [] then '':'' else '' : ''),
      bs_nullSymbol = (if dnp then [] else ''null''), bs_endingLineFeedSymbol = [],
      bs_useSpecialFloats = usf, bs_precision = (if 17 < pre then 17 else pre)\<rparr>"
    and cs: "cs \<in> {CS_None, CS_All}"
    using assms by (simp add: newStreamWriter_def or_throw_Inr comment_style_of_Inr) blast
  show "bs_colonSymbol B \<in> {'': '', '' : '', '':''}" "bs_indentation B = [] \<Longrightarrow> bs_colonSymbol B \<in> {'': '', '':''}"
    "bs_nullSymbol B \<in> {[], ''null''}" "bs_endingLineFeedSymbol B = []"
    "bs_cs B \<in> {CS_None, CS_All}" "bs_precision B \<le> 17"
    using cs by (simp_all add: B not_less)
qed

text \<open>The reals of a value, and texts whose scalars agree on those reals.\<close>

abbreviation reals_of :: "'r json \<Rightarrow> 'r set" where
  "reals_of \<equiv> set_json"

lemma reals_child: "x \<in> set (children_of es) \<Longrightarrow> reals_of x \<subseteq> reals_of (Json (J_array es) c)"
  using children_cases [of x es]
  by (auto simp: nullSingleton_def json_of_def)

lemma renders_cong:
  assumes "\<And>d. \<not> compound d \<Longrightarrow> set_json_data d \<subseteq> X \<Longrightarrow> sc d = sc' d"
  shows "renders_value W colon sc v t \<Longrightarrow> reals_of v \<subseteq> X \<Longrightarrow> renders_value W colon sc' v t"
    and "renders_elements W colon sc vs s \<Longrightarrow> \<forall>v \<in> set vs. reals_of v \<subseteq> X \<Longrightarrow> renders_elements W colon sc' vs s"
    and "renders_members W colon sc ms q \<Longrightarrow> \<forall>m \<in> set ms. reals_of (snd m) \<subseteq> X \<Longrightarrow> renders_members W colon sc' ms q"
proof (induction rule: renders_value_renders_elements_renders_members.inducts)
  case (scalar d c)
  then have "sc d = sc' d" by (intro assms) simp_all
  with scalar show ?case by (metis renders_value_renders_elements_renders_members.scalar)
next
  case (array es t ws c)
  then have "\<forall>v \<in> set (children_of es). reals_of v \<subseteq> X" using reals_child by blast
  with array show ?case by (blast intro: renders_value_renders_elements_renders_members.array)
next
  case (object ms t ws c)
  then have "\<forall>m \<in> set ms. reals_of (snd m) \<subseteq> X" by (force simp: prod_set_simps)
  with object show ?case by (blast intro: renders_value_renders_elements_renders_members.object)
qed (auto simp del: append_Cons append_Nil intro: renders_value_renders_elements_renders_members.intros)

text \<open>The writers of \<^verbatim>\<open>FastWriter\<close> that write the same.\<close>

definition fast_of :: "built_settings \<Rightarrow> fast_writer" where
  "fast_of B = \<lparr>fw_yaml = (bs_colonSymbol B = '': ''), fw_dropNull = (bs_nullSymbol B = []), fw_omitLF = True\<rparr>"

text \<open>
  \<^verbatim>\<open>FastWriter\<close> prints 17 digits of a finite real and no special floats, whatever the settings of the
  other writer. The two print a real alike when those settings do not matter for it.
\<close>

definition prints_same :: "'r printf \<Rightarrow> built_settings \<Rightarrow> 'r \<Rightarrow> bool" where
  "prints_same P B r \<longleftrightarrow> (if pf_isfinite P r then bs_precision B = 17 else \<not> bs_useSpecialFloats B)"

lemma prints_same_text:
  "prints_same P B r \<Longrightarrow>
   valueToString_double P (bs_useSpecialFloats B) (bs_precision B) r = valueToString_real P r"
  by (simp add: prints_same_def valueToString_real_def valueToString_double_def split: if_splits)

lemma compact_text:
  assumes "newStreamWriter R settings = Inr B" and "bs_indentation B = []" and "built_text real B v t"
    and same: "\<forall>r \<in> reals_of v. prints_same real B r"
  shows "t = fast_value real (fast_of B) v"
proof -
  have "built_space B = no_space" by (auto simp: built_space_def no_space_def assms(2))
  moreover have "bs_colonSymbol B = fast_colon (fast_of B)"
    using newStreamWriter_settings(2) [OF assms(1,2)] by (auto simp: fast_colon_def fast_of_def)
  moreover have "built_scalar real B d = fast_scalar real (fast_of B) d"
    if "\<not> compound d" and "set_json_data d \<subseteq> {r. prints_same real B r}" for d
    using that newStreamWriter_settings(3) [OF assms(1)]
    by (cases d) (auto simp: fast_scalar_def fast_of_def prints_same_text)
  moreover have "reals_of v \<subseteq> {r. prints_same real B r}" using same by blast
  ultimately show ?thesis
    using fast_unique(1) renders_cong(1) [where X = "{r. prints_same real B r}" and sc = "built_scalar real B"] assms(3)
    by metis
qed

text \<open>C16: without an indentation, a writer that
  \<^verbatim>\<open>StreamWriterBuilder\<close> made writes exactly what
  \<^verbatim>\<open>FastWriter\<close> writes with the corresponding options and without a line
  feed: for every value of which no comment is to be written, because it has none or comments are
  switched off, and whose reals the settings print as \<^verbatim>\<open>FastWriter\<close> does,
  which always takes 17 digits and no special floats: when the value has a finite real the
  precision has to be 17, when it has an infinite one or a NaN special floats have to be off. The
  two are independent implementations.\<close>

theorem compact_is_fast:
  assumes "newStreamWriter R settings = Inr B" and "bs_indentation B = []"
    and "quiet B root" and "small_objects root"
    and "\<forall>r \<in> reals_of root. if pf_isfinite P r then bs_precision B = 17 else \<not> bs_useSpecialFloats B"
  shows "writeString R P settings root = Inr (FastWriter_write P (fast_of B) root)"
proof -
  have "spaces (bs_indentation B)" by (simp add: assms(2))
  then obtain w t where w: "built_space B w" and t: "built_text P B root t"
    and out: "sm_out (Built_write P B root BuiltStyledStreamWriter) = w @ t @ bs_endingLineFeedSymbol B"
    using Built_write_text [OF _ assms(3,4)] by (metis BuiltStyledStreamWriter_def append_Nil stream_writer.select_convs(1,2))
  moreover have "w = []" using w assms(2) by (simp add: built_space_def)
  ultimately show ?thesis
    using compact_text [OF assms(1,2) t] assms(5) newStreamWriter_settings(4) [OF assms(1)] assms(1)
    by (simp add: writeString_def FastWriter_write_def fast_of_def prints_same_def)
qed

definition sample_document :: "'r json" where
  "sample_document = json_of (J_object
     [(''a'', json_of (J_array [(0, json_of (J_int 1)), (2, json_of (J_string ''x''))])),
      (''b'', json_of (J_object [(''c'', json_of (J_bool True))]))])"

lemma sample_document_facts:
  "comment_free sample_document" "small_objects sample_document" "json_plain sample_document"
  "json_depth sample_document = 2" "isObject sample_document"
  by (simp_all add: sample_document_def json_of_def isObject_def json_type_def json_size_def)

lemma StreamWriterBuilder:
  "StreamWriterBuilder = Inr (json_of (J_object
     [(''commentStyle'', json_of (J_string ''All'')), (''dropNullPlaceholders'', json_of (J_bool False)),
      (''enableYAMLCompatibility'', json_of (J_bool False)), (''indentation'', json_of (J_string [CHR 0x09])),
      (''precision'', json_of (J_int 17)), (''useSpecialFloats'', json_of (J_bool False))]))"
  by (simp add: StreamWriterBuilder_def StreamWriterBuilder_setDefaults_def json_member_def resolveReference_def
      object_members_def nullSingleton_def json_of_def less_char_def)

definition default_writer :: built_settings where
  "default_writer =
     \<lparr>bs_indentation = [CHR 0x09], bs_cs = CS_All, bs_colonSymbol = '' : '', bs_nullSymbol = ''null'',
      bs_endingLineFeedSymbol = [], bs_useSpecialFloats = False, bs_precision = 17\<rparr>"

lemma newStreamWriter_default:
  "StreamWriterBuilder = Inr settings \<Longrightarrow> newStreamWriter R settings = Inr default_writer"
  by (auto simp: StreamWriterBuilder newStreamWriter_def setting_def json_get_def json_find_def json_of_def
      asBool_def asString_def asUInt_def isUInt_def comment_style_of_def default_writer_def)

lemma newStreamWriter_compact:
  "or_throw StreamWriterBuilder (set_settings [(''indentation'', J_string [])]) = Inr settings \<Longrightarrow>
   newStreamWriter R settings = Inr (default_writer\<lparr>bs_indentation := [], bs_colonSymbol := '':''\<rparr>)"
  by (auto simp: StreamWriterBuilder json_member_def resolveReference_def object_members_def less_char_def
      newStreamWriter_def setting_def json_get_def json_find_def json_of_def
      asBool_def asString_def asUInt_def isUInt_def comment_style_of_def default_writer_def)

definition sample_reals :: "int json" where
  "sample_reals = json_of (J_object [(''a'', json_of (J_array [(0, json_of (J_real 5))])), (''b'', sample_document)])"

theorem compact_is_fast_witness:
  "\<exists>settings. or_throw StreamWriterBuilder (set_settings [(''indentation'', J_string [])]) = Inr settings \<and>
    writeString sample_doubles (plain_printf show_int) settings sample_reals =
      Inr (FastWriter_write (plain_printf show_int)
             \<lparr>fw_yaml = False, fw_dropNull = False, fw_omitLF = True\<rparr> sample_reals)"
proof -
  obtain settings :: "int json" where s: "or_throw StreamWriterBuilder (set_settings [(''indentation'', J_string [])]) = Inr settings"
    by (simp add: StreamWriterBuilder json_member_def resolveReference_def object_members_def less_char_def json_of_def)
  note n = newStreamWriter_compact [OF s, of sample_doubles]
  from compact_is_fast [OF n, of sample_reals "plain_printf show_int"] s show ?thesis
    by (simp add: quiet_def sample_document_facts sample_reals_def json_of_def default_writer_def fast_of_def
        plain_printf_def)
qed

lemma built_document_read:
  fixes rdbl :: "string \<Rightarrow> 'r option"
  assumes "newStreamWriter R settings = Inr B" and "spaces (bs_indentation B)" and "bs_nullSymbol B \<noteq> []"
    and "quiet B v" and "small_objects v" and "json_plain v" and "json_depth v < stackLimit"
    and "strictRoot (rd_features rd) \<Longrightarrow> isArray v \<or> isObject v"
    and "spare = [] \<or> hd spare = CHR 0x00"
  shows "\<exists>rd'. parse_string rdbl (sm_out (Built_write real B v BuiltStyledStreamWriter)) spare root collectComments rd =
      Some (rd', Inr True) \<and>
    rd_root rd' = Json (j_data (json_normal v)) (j_comments root) \<and> good rd'"
proof -
  obtain w t where w: "built_space B w" and t: "built_text real B v t"
    and out: "sm_out (Built_write real B v BuiltStyledStreamWriter) = w @ t @ bs_endingLineFeedSymbol B"
    using Built_write_text [OF assms(2,4,5)] by (metis BuiltStyledStreamWriter_def append_Nil stream_writer.select_convs(1,2))
  have "\<exists>w1 w2. bs_colonSymbol B = w1 @ '':'' @ w2 \<and> spaces w1 \<and> spaces w2"
    using newStreamWriter_settings(1) [OF assms(1)]
    by (auto simp: json_space_def intro: exI [of _ "[]"] exI [of _ "'' ''"])
  then have "readable (built_space B) (bs_colonSymbol B) (built_scalar real B)"
    using newStreamWriter_settings(3) [OF assms(1)] assms(3) by (simp add: readable_def built_space_def)
  from parse_text [where w = w and w' = "[]", OF this t assms(6-8) _ _ assms(9)] w out newStreamWriter_settings(4) [OF assms(1)]
  show ?thesis by (simp add: built_space_def)
qed

text \<open>C14: what a writer to streams writes is read back, with the default settings and with
  any other indentation of white space, separator and comment style: for every value without
  reals and of which no comment is to be written, the reader succeeds without an error
  and yields the value that was written, with its integers in the type the reader gives them and
  null in the holes of its arrays. The settings must keep null values.\<close>

theorem stream_roundtrip:
  fixes rdbl :: "string \<Rightarrow> 'r option"
  assumes "newStreamWriter R settings = Inr B" and "spaces (bs_indentation B)" and "bs_nullSymbol B \<noteq> []"
    and "quiet B v" and "small_objects v" and "json_plain v" and "json_depth v < stackLimit"
    and "strictRoot (rd_features rd) \<Longrightarrow> isArray v \<or> isObject v"
    and "spare = [] \<or> hd spare = CHR 0x00"
  shows "\<exists>text rd'. writeString R real settings v = Inr text \<and>
    parse_string rdbl text spare root collectComments rd = Some (rd', Inr True) \<and>
    rd_root rd' = Json (j_data (json_normal v)) (j_comments root) \<and> good rd'"
  using built_document_read [OF assms] assms(1) by (simp add: writeString_def)

theorem stream_roundtrip_witness:
  "\<exists>settings text rd'. StreamWriterBuilder = Inr settings \<and>
    writeString sample_doubles (plain_printf show_int) settings sample_document = Inr text \<and>
    parse_string (\<lambda>_. None :: int option) text [] nullSingleton True (Reader_new nullSingleton strictMode) = Some (rd', Inr True) \<and>
    rd_root rd' = json_normal sample_document"
proof -
  obtain settings :: "int json" where s: "StreamWriterBuilder = Inr settings" using StreamWriterBuilder by blast
  note n = newStreamWriter_default [OF s, of sample_doubles]
  from stream_roundtrip [OF n _ _ _ sample_document_facts(2,3), of "Reader_new nullSingleton strictMode" "[]"
      "plain_printf show_int" "\<lambda>_. None" nullSingleton True] s
  show ?thesis
    by (simp add: quiet_def sample_document_facts default_writer_def json_space_def stackLimit_def) blast
qed

end
