(* ===== verification/Json_Styled_Stream.thy ===== *)
theory Json_Styled_Stream
  imports Json_Stream_Text
begin

text \<open>
  \<^verbatim>\<open>StyledStreamWriter\<close> and \<^verbatim>\<open>BuiltStyledStreamWriter\<close> are copies of one another. Where the settings agree
  they write the same.
\<close>

text \<open>A line that is not indented stays so.\<close>

lemma built_not_indented:
  fixes v :: "'r json" and ms :: "(string \<times> 'r json) list" and vs us xs :: "'r json list"
  shows "\<not> sm_indented st \<Longrightarrow> \<not> sm_indented (built_writeValue real B v st)"
    and "\<not> sm_indented st \<Longrightarrow> \<not> sm_indented (built_members real B ms st)"
    and "\<not> sm_indented st \<Longrightarrow> \<not> sm_indented (built_elements real B has i vs st)"
    and "\<not> sm_indented st \<Longrightarrow> \<not> sm_indented (fst (built_isMultineArray real B n us st))"
    and "\<not> sm_indented st \<Longrightarrow> \<not> sm_indented (built_collect real B xs st)"
proof (induction real B v st and real B ms st and real B has i vs st and real B n us st and real B xs st
    rule: built_writeValue_built_members_built_elements_built_isMultineArray_built_collect.induct)
  case (1 real B d c st)
  then show ?case
    by (cases d) (simp_all add: stream_pushValue_def put_def built_writeWithIndent_def Let_def del: built_isMultineArray.simps)
next
  case (3 real B name v ms st)
  have "\<not> sm_indented (built_commentAfter B v st')" if "\<not> sm_indented st'" for st'
    using that by (auto simp: built_commentAfter_def built_writeIndent_def put_def split: option.split)
  with 3 show ?case by (auto simp: Let_def put_def built_writeWithIndent_def)
next
  case (5 real B has i v vs st)
  have "\<not> sm_indented (built_commentAfter B v st')" if "\<not> sm_indented st'" for st'
    using that by (auto simp: built_commentAfter_def built_writeIndent_def put_def split: option.split)
  with 5 show ?case by (auto simp: Let_def put_def built_writeWithIndent_def)
qed (auto simp: Let_def)

text \<open>The settings under which the other writer does the same.\<close>

definition styled_settings :: "string \<Rightarrow> built_settings" where
  "styled_settings ind =
     \<lparr>bs_indentation = ind, bs_cs = CS_None, bs_colonSymbol = '' : '', bs_nullSymbol = ''null'',
      bs_endingLineFeedSymbol = [CHR 0x0A], bs_useSpecialFloats = False, bs_precision = 17\<rparr>"

lemma styled_settings_simps [simp]:
  "bs_indentation (styled_settings ind) = ind" "bs_cs (styled_settings ind) = CS_None"
  "bs_colonSymbol (styled_settings ind) = '' : ''" "bs_nullSymbol (styled_settings ind) = ''null''"
  "bs_endingLineFeedSymbol (styled_settings ind) = [CHR 0x0A]"
  "bs_useSpecialFloats (styled_settings ind) = False" "bs_precision (styled_settings ind) = 17"
  by (simp_all add: styled_settings_def)

lemma styled_with_indent:
  "ind \<noteq> [] \<Longrightarrow> stream_writeWithIndent s st = built_writeWithIndent (styled_settings ind) s st"
  by (simp add: stream_writeWithIndent_def built_writeWithIndent_def stream_writeIndent_def built_writeIndent_def)

lemma styled_comments:
  assumes "comment_free v"
  shows "stream_commentBefore v st = st" "stream_commentAfter v st = st\<lparr>sm_indented := False\<rparr>"
    and "built_commentBefore (styled_settings ind) v st = st" "built_commentAfter (styled_settings ind) v st = st"
  using assms
  by (cases v; simp add: stream_commentBefore_def stream_commentAfter_def built_commentBefore_def
      built_commentAfter_def getComment_def no_comments_def)+

lemma styled_single_line: "ind \<noteq> [] \<Longrightarrow> single_line ind ts = ''[ '' @ comma_separated ts @ '' ]''"
  by (auto simp: single_line_def comma_separated_def split: list.split intro!: arg_cong [where f = concat])

lemma not_indented_id: "\<not> sm_indented st \<Longrightarrow> st\<lparr>sm_indented := False\<rparr> = st"
  by simp

lemma styled_is_built:
  fixes v :: "'r json" and ms :: "(string \<times> 'r json) list" and vs us xs :: "'r json list"
  assumes "ind \<noteq> []"
  shows "comment_free v \<and> plain_names v \<Longrightarrow>
      stream_writeValue real ind v st = built_writeValue real (styled_settings ind) v st"
    and "\<forall>m \<in> set ms. CHR 0x00 \<notin> set (fst m) \<and> comment_free (snd m) \<and> plain_names (snd m) \<Longrightarrow>
      stream_members real ind ms st = built_members real (styled_settings ind) ms st"
    and "\<forall>v \<in> set vs. comment_free v \<and> plain_names v \<Longrightarrow>
      stream_elements real ind has i vs st = built_elements real (styled_settings ind) has i vs st"
    and "\<forall>v \<in> set us. comment_free v \<and> plain_names v \<Longrightarrow>
      stream_isMultineArray real ind n us st = built_isMultineArray real (styled_settings ind) n us st"
    and "\<forall>v \<in> set xs. comment_free v \<and> plain_names v \<Longrightarrow>
      stream_collect real ind xs st = built_collect real (styled_settings ind) xs st"
  using assms
proof (induction real ind v st and real ind ms st and real ind has i vs st
    and real ind n us st and real ind xs st
    rule: stream_writeValue_stream_members_stream_elements_stream_isMultineArray_stream_collect.induct)
  case (1 real ind d c st)
  show ?case
  proof (cases d)
    case (J_array es)
    have ch: "\<forall>v \<in> set (array_children es (json_size (Json d c))). comment_free v \<and> plain_names v"
      using 1(4) free_child [of es c] names_child [of es c] by (auto simp: J_array json_size_def)
    from 1(1,2) [OF J_array refl refl] ch 1(5) show ?thesis
      by (simp add: J_array Let_def styled_single_line styled_with_indent del: stream_isMultineArray.simps
          built_isMultineArray.simps)
  next
    case (J_object ms)
    with 1 show ?thesis by (simp add: styled_with_indent)
  qed (simp_all add: valueToString_real_def)
next
  case (3 real ind name v ms st)
  then have v: "comment_free v" "plain_names v" "CHR 0x00 \<notin> set name" by simp_all
  let ?B = "styled_settings ind"
  have q: "valueToQuotedString name = valueToQuotedStringN name" using v by (simp add: valueToQuotedString_eq c_str_id)
  let ?st = "put '' : '' (built_writeWithIndent ?B (valueToQuotedStringN name) st)"
  have "\<not> sm_indented (built_writeValue real ?B v ?st)"
    by (rule built_not_indented(1)) (simp add: put_def built_writeWithIndent_def)
  with 3 v q show ?case
    by (simp add: Let_def styled_comments styled_with_indent not_indented_id put_def)
next
  case (5 real ind has i v vs st)
  then have v: "comment_free v" "plain_names v" by simp_all
  let ?B = "styled_settings ind"
  define st2 where "st2 = (if has then built_writeWithIndent ?B (sm_childValues st ! i) st
    else (built_writeValue real ?B v ((if sm_indented st then st else built_writeIndent ?B st)\<lparr>sm_indented := True\<rparr>))
      \<lparr>sm_indented := False\<rparr>)"
  have off: "\<not> sm_indented st2" by (simp add: st2_def built_writeWithIndent_def)
  have ind: "stream_writeIndent st = built_writeIndent ?B st"
    using 5(4) by (simp add: stream_writeIndent_def built_writeIndent_def)
  have val: "(if has then stream_writeWithIndent (sm_childValues st ! i) st
    else (stream_writeValue real ind v
      ((if sm_indented st then st else stream_writeIndent st)\<lparr>sm_indented := True\<rparr>))\<lparr>sm_indented := False\<rparr>) = st2"
    using 5(1) [of st] 5(4) v by (simp add: st2_def ind styled_comments styled_with_indent)
  have "stream_elements real ind has (i + 1) vs (put '','' st2) =
      built_elements real ?B has (i + 1) vs (put '','' st2)" if "vs \<noteq> []"
    using 5(2) [of st st2] 5(3,4) v val that off by (simp add: styled_comments put_def not_indented_id)
  with v off val show ?case
    by (simp add: Let_def styled_comments st2_def [symmetric] not_indented_id put_def)
next
  case (6 real ind n children st)
  then show ?case by (simp add: Let_def)
qed simp_all

text \<open>
  Without comments and with names that are C strings, \<^verbatim>\<open>StyledStreamWriter\<close> writes what the other
  writer writes with \<open>styled_settings\<close>.
\<close>

lemma StyledStreamWriter_write_built:
  assumes "ind \<noteq> []" and "comment_free v" and "plain_names v"
  shows "sm_out (StyledStreamWriter_write real ind v st) =
    sm_out (Built_write real (styled_settings ind) v st)"
proof -
  let ?st = "st\<lparr>sm_addChildValues := False, sm_indentString := [], sm_indented := True\<rparr>"
  have "stream_writeValue real ind v ?st = built_writeValue real (styled_settings ind) v ?st"
    using styled_is_built(1) assms by blast
  then show ?thesis
    by (simp add: StyledStreamWriter_write_def Built_write_def Let_def styled_comments [OF assms(2)] put_def)
qed

end
