(* ===== verification/Json_Styled_Text.thy ===== *)
theory Json_Styled_Text
  imports Json_Roundtrip Json_Shape
begin

text \<open>
  What \<^verbatim>\<open>StyledWriter\<close> writes, and so \<^verbatim>\<open>Value::toStyledString\<close>, is a text of the value and is read back.
  The steps are those of \<open>Json_Stream_Text\<close>, over the document of this writer.
\<close>

section \<open>Steps of the styled writer\<close>

definition sw_ready :: "swriter \<Rightarrow> bool" where
  "sw_ready st \<longleftrightarrow> \<not> sw_add_children st \<and> spaces (sw_indent st)"

definition sw_wrote :: "swriter \<Rightarrow> swriter \<Rightarrow> string \<Rightarrow> bool" where
  "sw_wrote st st' t \<longleftrightarrow> sw_ready st' \<and> sw_document st' = sw_document st @ t \<and> sw_indent st' = sw_indent st"

lemma sw_wrote_trans: "sw_wrote st st1 s \<Longrightarrow> sw_wrote st1 st2 t \<Longrightarrow> sw_wrote st st2 (s @ t)"
  by (simp add: sw_wrote_def)

lemma sw_wrote_ready: "sw_wrote st st' t \<Longrightarrow> sw_ready st'"
  by (simp add: sw_wrote_def)

lemma sw_wrote_append: "sw_ready st \<Longrightarrow> sw_wrote st (sw_append t st) t"
  by (simp add: sw_wrote_def sw_ready_def sw_append_def)

lemma sw_wrote_line:
  assumes "sw_ready st"
  obtains w where "spaces w" and "sw_wrote st (writeIndent st) w" and "sw_children (writeIndent st) = sw_children st"
proof
  let ?d = "sw_document st"
  let ?w = "if ?d \<noteq> [] \<and> last ?d = CHR '' '' then []
    else if ?d \<noteq> [] \<and> last ?d \<noteq> CHR 0x0A then CHR 0x0A # sw_indent st else sw_indent st"
  show "spaces ?w" "sw_wrote st (writeIndent st) ?w" "sw_children (writeIndent st) = sw_children st"
    using assms by (auto simp: sw_ready_def sw_wrote_def writeIndent_def sw_append_def json_space_def Let_def)
qed

lemma sw_wrote_with_indent:
  assumes "sw_ready st"
  obtains w where "spaces w" and "sw_wrote st (writeWithIndent t st) (w @ t)"
    and "sw_children (writeWithIndent t st) = sw_children st"
proof -
  obtain w where w: "spaces w" "sw_wrote st (writeIndent st) w" "sw_children (writeIndent st) = sw_children st"
    by (rule sw_wrote_line [OF assms])
  have "sw_wrote st (writeWithIndent t st) (w @ t)"
    using sw_wrote_trans [OF w(2) sw_wrote_append [OF sw_wrote_ready [OF w(2)]]] by (simp add: writeWithIndent_def)
  moreover have "sw_children (writeWithIndent t st) = sw_children st"
    using w(3) by (simp add: writeWithIndent_def sw_append_def)
  ultimately show ?thesis using that w(1) by blast
qed

lemma spaces_replicate: "spaces (replicate n CHR '' '')"
  by (simp add: spaces_def json_space_def)

lemma comma_joined:
  "concat (case ts of [] \<Rightarrow> [] | t # ts \<Rightarrow> t # map (\<lambda>t. '','' @ '' '' @ t) ts) = comma_separated ts"
  by (auto simp: comma_separated_def split: list.split intro!: arg_cong [where f = concat])

lemma sw_wrote_within:
  assumes st: "sw_ready st"
    and body: "\<And>st1. sw_ready st1 \<Longrightarrow> sw_children st1 = sw_children st \<Longrightarrow>
      \<exists>w t. spaces w \<and> P t \<and> sw_wrote st1 (f st1) (w @ t)"
    and trail: "\<And>t w. P t \<Longrightarrow> spaces w \<Longrightarrow> P (t @ w)"
  shows "\<exists>w w' t. spaces w \<and> spaces w' \<and> P t \<and>
    sw_wrote st (writeWithIndent b (sw_unindented (f (sw_indented (writeWithIndent a st))))) (w @ a @ w' @ t @ b)"
proof -
  let ?st1 = "writeWithIndent a st"
  obtain w where w: "spaces w" "sw_wrote st ?st1 (w @ a)" "sw_children ?st1 = sw_children st"
    by (rule sw_wrote_with_indent [OF st])
  let ?st2 = "sw_indented ?st1"
  have "sw_ready ?st2" using sw_wrote_ready [OF w(2)] by (simp add: sw_ready_def sw_indented_def spaces_replicate)
  moreover have "sw_children ?st2 = sw_children st" using w(3) by (simp add: sw_indented_def)
  ultimately obtain w' t where t: "spaces w'" "P t" "sw_wrote ?st2 (f ?st2) (w' @ t)"
    using body by blast
  let ?st3 = "sw_unindented (f ?st2)"
  have w3: "sw_wrote ?st1 ?st3 (w' @ t)"
    using t(3) sw_wrote_ready [OF w(2)]
    by (simp add: sw_wrote_def sw_ready_def sw_indented_def sw_unindented_def)
  obtain u where u: "spaces u" "sw_wrote ?st3 (writeWithIndent b ?st3) (u @ b)"
    by (rule sw_wrote_with_indent [OF sw_wrote_ready [OF w3]])
  show ?thesis
    using sw_wrote_trans [OF sw_wrote_trans [OF w(2) w3] u(2)] w(1) t(1) trail [OF t(2) u(1)]
    by (intro exI [of _ w] exI [of _ w'] exI [of _ "t @ u"]) simp
qed

lemma sw_comments [simp]:
  assumes "comment_free v"
  shows "writeCommentBeforeValue v st = st" "writeCommentAfterValueOnSameLine v st = st" "\<not> hasCommentForValue v"
  using assms
  by (cases v; simp add: writeCommentBeforeValue_def writeCommentAfterValueOnSameLine_def hasCommentForValue_def
      hasComment_def getComment_def no_comments_def)+

section \<open>Texts of the styled writer\<close>

abbreviation styled_scalar :: "'r printf \<Rightarrow> 'r json_data \<Rightarrow> string" where
  "styled_scalar real \<equiv> fast_scalar real FastWriter_new"

abbreviation styled_text :: "'r printf \<Rightarrow> 'r json \<Rightarrow> string \<Rightarrow> bool" where
  "styled_text real \<equiv> renders_value spaces '' : '' (styled_scalar real)"

lemma styled_simple:
  assumes "simple v" and "small_objects v"
  shows "writeValue real v st = pushValue (simple_text (styled_scalar real) v) st"
proof -
  obtain d c where v: "v = Json d c" by (cases v)
  from assms show ?thesis
    by (cases d)
      (simp_all add: v simple_array simple_object simple_text_def fast_scalar_def FastWriter_new_def
        del: small_objects.simps)
qed

lemma styled_collect:
  "\<forall>v \<in> set vs. simple v \<and> small_objects v \<Longrightarrow> sw_add_children st \<Longrightarrow>
   collect_children real vs st = st\<lparr>sw_children := sw_children st @ map (simple_text (styled_scalar real)) vs\<rparr>"
  by (induction vs arbitrary: st) (simp_all add: styled_simple pushValue_def)

text \<open>All of what the writer needs, in one predicate.\<close>

definition sw_plain :: "'r json \<Rightarrow> bool" where
  "sw_plain v \<longleftrightarrow> comment_free v \<and> small_objects v \<and> plain_names v"

lemma sw_plain_child: "sw_plain (Json (J_array es) c) \<Longrightarrow> x \<in> set (children_of es) \<Longrightarrow> sw_plain x"
  using free_child [of es c x] small_child [of es c x] names_child [of es c x] by (simp add: sw_plain_def)

lemma sw_plain_member:
  "sw_plain (Json (J_object ms) c) \<Longrightarrow> m \<in> set ms \<Longrightarrow> sw_plain (snd m) \<and> CHR 0x00 \<notin> set (fst m)"
  by (auto simp: sw_plain_def)

definition sw_writes :: "'r printf \<Rightarrow> 'r json \<Rightarrow> bool" where
  "sw_writes real v \<longleftrightarrow> (\<forall>st. sw_ready st \<longrightarrow>
     (\<exists>w t. spaces w \<and> styled_text real v t \<and> sw_wrote st (writeValue real v st) (w @ t)))"

lemma sw_writesD:
  assumes "sw_writes real v" and "sw_ready st"
  obtains w t where "spaces w" and "styled_text real v t" and "sw_wrote st (writeValue real v st) (w @ t)"
  using assms unfolding sw_writes_def by blast

lemma sw_elements_collected:
  assumes "\<forall>v \<in> set vs. simple v \<and> sw_plain v" and "vs \<noteq> []"
    and "sw_ready st" and "drop i (sw_children st) = map (simple_text (styled_scalar real)) vs"
  shows "\<exists>w t. spaces w \<and> renders_elements spaces '' : '' (styled_scalar real) vs t \<and>
    sw_wrote st (write_elements real True i vs st) (w @ t)"
  using assms
proof (induction vs arbitrary: i st)
  case (Cons v vs)
  let ?t = "simple_text (styled_scalar real) v"
  have v: "styled_text real v ?t" using Cons.prems(1) by (intro renders_simple) (simp_all add: sw_plain_def)
  have d: "drop i (sw_children st) = ?t # map (simple_text (styled_scalar real)) vs"
    using Cons.prems(4) by simp
  then have i: "i < length (sw_children st)" by (metis drop_eq_Nil list.distinct(1) not_le)
  with d have nth: "sw_children st ! i = ?t" "drop (Suc i) (sw_children st) = map (simple_text (styled_scalar real)) vs"
    by (simp_all add: Cons_nth_drop_Suc [symmetric])
  have cf: "comment_free v" using Cons.prems(1) by (simp add: sw_plain_def)
  let ?st1 = "writeWithIndent ?t st"
  obtain w where w: "spaces w" "sw_wrote st ?st1 (w @ ?t)" "sw_children ?st1 = sw_children st"
    by (rule sw_wrote_with_indent [OF Cons.prems(3)])
  show ?case
  proof (cases "vs = []")
    case True
    then have "write_elements real True i (v # vs) st = ?st1" using cf nth by simp
    then show ?thesis using w element_last [OF v, of "[]"] True by auto
  next
    case False
    let ?st2 = "sw_append '','' ?st1"
    have p: "sw_wrote ?st1 ?st2 '',''" by (rule sw_wrote_append [OF sw_wrote_ready [OF w(2)]])
    obtain w' t where t: "spaces w'" "renders_elements spaces '' : '' (styled_scalar real) vs t"
      "sw_wrote ?st2 (write_elements real True (i + 1) vs ?st2) (w' @ t)"
      using Cons.IH [of ?st2 "i + 1"] Cons.prems(1) False sw_wrote_ready [OF p] nth w(3) by (auto simp: sw_append_def)
    have "write_elements real True i (v # vs) st = write_elements real True (i + 1) vs ?st2"
      using cf nth False by simp
    then show ?thesis
      using sw_wrote_trans [OF sw_wrote_trans [OF w(2) p] t(3)] element [OF v _ t(1,2), of "[]"] w(1) by auto
  qed
qed simp

lemma sw_elements_written:
  assumes "\<forall>v \<in> set vs. sw_writes real v \<and> sw_plain v" and "vs \<noteq> []" and "sw_ready st"
  shows "\<exists>w t. spaces w \<and> renders_elements spaces '' : '' (styled_scalar real) vs t \<and>
    sw_wrote st (write_elements real False i vs st) (w @ t)"
  using assms
proof (induction vs arbitrary: i st)
  case (Cons v vs)
  then have V: "sw_writes real v" "comment_free v" by (simp_all add: sw_plain_def)
  let ?st1 = "writeIndent st"
  obtain w1 where w1: "spaces w1" "sw_wrote st ?st1 w1"
    using sw_wrote_line [OF Cons.prems(3)] by metis
  let ?st2 = "writeValue real v ?st1"
  obtain w2 t where w2: "spaces w2" and t: "styled_text real v t" and wt: "sw_wrote ?st1 ?st2 (w2 @ t)"
    by (rule sw_writesD [OF V(1) sw_wrote_ready [OF w1(2)]])
  have w: "sw_wrote st ?st2 ((w1 @ w2) @ t)" using sw_wrote_trans [OF w1(2) wt] by simp
  have sp: "spaces (w1 @ w2)" using w1(1) w2 by simp
  show ?case
  proof (cases "vs = []")
    case True
    then have "write_elements real False i (v # vs) st = ?st2" using V by simp
    then show ?thesis
      using w sp element_last [OF t, of "[]"] True
      by (intro exI [of _ "w1 @ w2"] exI [of _ t]) (simp del: write_elements.simps)
  next
    case False
    let ?st3 = "sw_append '','' ?st2"
    have p: "sw_wrote ?st2 ?st3 '',''" by (rule sw_wrote_append [OF sw_wrote_ready [OF w]])
    obtain w' t' where t': "spaces w'" "renders_elements spaces '' : '' (styled_scalar real) vs t'"
      "sw_wrote ?st3 (write_elements real False (i + 1) vs ?st3) (w' @ t')"
      using Cons.IH [of ?st3 "i + 1"] Cons.prems(1) False sw_wrote_ready [OF p] by auto
    have "write_elements real False i (v # vs) st = write_elements real False (i + 1) vs ?st3"
      using V False by simp
    then show ?thesis
      using sw_wrote_trans [OF sw_wrote_trans [OF w p] t'(3)] element [OF t _ t'(1,2), of "[]"] sp
      by (intro exI [of _ "w1 @ w2"] exI [of _ "t @ [] @ '','' @ w' @ t'"]) (simp del: write_elements.simps)
  qed
qed simp

lemma sw_members_written:
  assumes "\<forall>m \<in> set ms. sw_writes real (snd m) \<and> sw_plain (snd m) \<and> CHR 0x00 \<notin> set (fst m)"
    and "ms \<noteq> []" and "sw_ready st"
  shows "\<exists>w t. spaces w \<and> renders_members spaces '' : '' (styled_scalar real) ms t \<and>
    sw_wrote st (write_members real ms st) (w @ t)"
  using assms
proof (induction ms arbitrary: st)
  case (Cons m ms)
  obtain k v where m: "m = (k, v)" by (cases m)
  with Cons have V: "sw_writes real v" "comment_free v" and k: "CHR 0x00 \<notin> set k" by (simp_all add: sw_plain_def)
  let ?q = "valueToQuotedStringN k"
  have q: "valueToQuotedString k = ?q" using k by (simp add: valueToQuotedString_eq c_str_id)
  let ?st1 = "writeWithIndent ?q st"
  obtain w1 where w1: "spaces w1" "sw_wrote st ?st1 (w1 @ ?q)"
    using sw_wrote_with_indent [OF Cons.prems(3)] by metis
  let ?st2 = "sw_append '' : '' ?st1"
  have c: "sw_wrote ?st1 ?st2 '' : ''" by (rule sw_wrote_append [OF sw_wrote_ready [OF w1(2)]])
  let ?st3 = "writeValue real v ?st2"
  obtain w2 t where w2: "spaces w2" and t: "styled_text real v t" and wt: "sw_wrote ?st2 ?st3 (w2 @ t)"
    by (rule sw_writesD [OF V(1) sw_wrote_ready [OF c]])
  have w: "sw_wrote st ?st3 (w1 @ ?q @ '' : '' @ w2 @ t)"
    using sw_wrote_trans [OF sw_wrote_trans [OF w1(2) c] wt] by simp
  show ?case
  proof (cases "ms = []")
    case True
    then have "write_members real (m # ms) st = ?st3" using V m q by simp
    with w w1(1) w2 member_last [OF t w2, of "[]" k] True m show ?thesis by auto
  next
    case False
    let ?st4 = "sw_append '','' ?st3"
    have p: "sw_wrote ?st3 ?st4 '',''" by (rule sw_wrote_append [OF sw_wrote_ready [OF w]])
    obtain w' t' where t': "spaces w'" "renders_members spaces '' : '' (styled_scalar real) ms t'"
      "sw_wrote ?st4 (write_members real ms ?st4) (w' @ t')"
      using Cons.IH [of ?st4] Cons.prems(1) False sw_wrote_ready [OF p] by auto
    have "write_members real (m # ms) st = write_members real ms ?st4" using V False m q by simp
    then show ?thesis
      using sw_wrote_trans [OF sw_wrote_trans [OF w p] t'(3)] member [OF t w2 _ t'(1,2), of "[]" k] w1(1) m by auto
  qed
qed simp

lemma sw_array_written:
  assumes pl: "sw_plain (Json (J_array es) c)" and V: "\<forall>v \<in> set (children_of es). sw_writes real v"
  shows "sw_writes real (Json (J_array es) c)"
  unfolding sw_writes_def
proof (intro allI impI)
  fix st
  assume st: "sw_ready st"
  define vs where "vs = children_of es"
  let ?v = "Json (J_array es) c"
  have child: "\<forall>v \<in> set vs. sw_plain v \<and> small_objects v \<and> sw_writes real v"
    using sw_plain_child [OF pl] V by (simp add: vs_def sw_plain_def)
  show "\<exists>w t. spaces w \<and> styled_text real ?v t \<and> sw_wrote st (writeValue real ?v st) (w @ t)"
  proof (cases "json_size ?v = 0")
    case True
    from array_empty [where W = spaces and ws = "[]", OF size_zero_children [OF this], of "'' : ''" "styled_scalar real" c] True st
    show ?thesis
      by (intro exI [of _ "[]"] exI [of _ "''[]''"]) (simp add: pushValue_def sw_ready_def sw_wrote_def sw_append_def)
  next
    case False
    then have es: "es \<noteq> []" by (auto simp: json_size_def)
    define n where "n = fst (last es) + 1"
    have n: "json_size ?v = n" using es by (simp add: n_def json_size_def)
    have vs: "array_children es n = vs" using es by (simp add: vs_def n_def json_size_def)
    have ne: "vs \<noteq> []" using False n unfolding vs [symmetric] by (auto simp: array_children_def unsigned_eq_0_iff)
    define sure where "sure = surely_multiline n vs"
    define st1 where "st1 = (if sure then st\<lparr>sw_children := []\<rparr>
      else (collect_children real vs (st\<lparr>sw_children := [], sw_add_children := True\<rparr>))\<lparr>sw_add_children := False\<rparr>)"
    define multi where "multi \<longleftrightarrow> sure \<or> list_ex hasCommentForValue vs \<or> rightMargin \<le> line_length n (sw_children st1)"
    let ?has = "sw_children st1 \<noteq> []"
    let ?f = "write_elements real ?has 0 vs"
    have val: "writeValue real ?v st =
        (if multi then writeWithIndent '']'' (sw_unindented (?f (sw_indented (writeWithIndent ''['' st1))))
         else sw_append (''[ '' @ comma_separated (sw_children st1) @ '' ]'') st1)"
      using False es
      by (cases sure) (simp_all add: Let_def n_def [symmetric] vs sure_def [symmetric] st1_def multi_def)
    have w0: "sw_wrote st st1 [] \<and>
      (if sw_children st1 = [] then multi
       else sw_children st1 = map (simple_text (styled_scalar real)) vs \<and> (\<forall>v \<in> set vs. simple v))"
    proof (cases sure)
      case True
      with st show ?thesis by (simp add: st1_def multi_def sw_wrote_def sw_ready_def)
    next
      case False
      then have s: "\<forall>v \<in> set vs. simple v" unfolding sure_def by (rule not_surely_multiline)
      have "st1 = st\<lparr>sw_children := map (simple_text (styled_scalar real)) vs, sw_add_children := False\<rparr>"
        using False s child styled_collect [of vs "st\<lparr>sw_children := [], sw_add_children := True\<rparr>" real]
        by (simp add: st1_def)
      with s st ne show ?thesis by (simp add: sw_wrote_def sw_ready_def)
    qed
    then have st1: "sw_ready st1" by (blast intro: sw_wrote_ready)
    show ?thesis
    proof (cases multi)
      case True
      have body: "\<exists>w t. spaces w \<and> renders_elements spaces '' : '' (styled_scalar real) vs t \<and> sw_wrote st2 (?f st2) (w @ t)"
        if "sw_ready st2" "sw_children st2 = sw_children st1" for st2
      proof (cases ?has)
        case True
        with w0 that child ne show ?thesis using sw_elements_collected [of vs st2 0 real] by simp
      next
        case False
        with that child ne show ?thesis using sw_elements_written [of vs real st2 0] by simp
      qed
      have trail: "renders_elements spaces '' : '' (styled_scalar real) vs (t @ w)"
        if "renders_elements spaces '' : '' (styled_scalar real) vs t" "spaces w" for t w
        by (rule renders_trail(2) [where W = spaces, OF that]) simp
      obtain w w' t where t: "spaces w" "spaces w'" "renders_elements spaces '' : '' (styled_scalar real) vs t"
        "sw_wrote st1 (writeValue real ?v st) (w @ ''['' @ w' @ t @ '']'')"
        using sw_wrote_within [where P = "renders_elements spaces '' : '' (styled_scalar real) vs",
            OF st1 body trail, of "'']''" "''[''"] True unfolding val by (simp only: if_True) blast
      show ?thesis
        using array [OF t(3) [unfolded vs_def] t(2), of c] t(1) sw_wrote_trans [OF conjunct1 [OF w0] t(4)]
        by (intro exI [of _ w] exI [of _ "''['' @ w' @ t @ '']''"]) (simp del: writeValue.simps)
    next
      case False
      with w0 have c: "sw_children st1 = map (simple_text (styled_scalar real)) vs" "\<forall>v \<in> set vs. simple v"
        by (auto split: if_splits)
      let ?t = "comma_separated (map (simple_text (styled_scalar real)) vs)"
      have sp: "spaces '' ''" by (simp add: json_space_def)
      have "renders_elements spaces '' : '' (styled_scalar real) vs ?t"
        using renders_joined [where W = spaces, OF renders_simples [of vs spaces "'' : ''" "styled_scalar real"] ne _ sp]
          c child unfolding comma_joined by simp
      then have "renders_elements spaces '' : '' (styled_scalar real) vs (?t @ '' '')"
        by (rule renders_trail(2) [where W = spaces, OF _ sp]) simp
      from array [OF this [unfolded vs_def] sp, of c] show ?thesis
        using sw_wrote_trans [OF conjunct1 [OF w0] sw_wrote_append [OF st1, of "''[ '' @ ?t @ '' ]''"]] False c
        unfolding val by (intro exI [of _ "[]"] exI [of _ "''[ '' @ ?t @ '' ]''"]) (simp add: vs_def)
    qed
  qed
qed

lemma sw_object_written:
  assumes pl: "sw_plain (Json (J_object ms) c)" and V: "\<forall>m \<in> set ms. sw_writes real (snd m)"
  shows "sw_writes real (Json (J_object ms) c)"
  unfolding sw_writes_def
proof (intro allI impI)
  fix st
  assume st: "sw_ready st"
  let ?v = "Json (J_object ms) c"
  show "\<exists>w t. spaces w \<and> styled_text real ?v t \<and> sw_wrote st (writeValue real ?v st) (w @ t)"
  proof (cases "ms = []")
    case True
    with object_empty [of spaces "[]" "'' : ''" "styled_scalar real" c] st show ?thesis
      by (intro exI [of _ "[]"] exI [of _ "''{}''"]) (simp add: pushValue_def sw_ready_def sw_wrote_def sw_append_def)
  next
    case False
    have body: "\<exists>w t. spaces w \<and> renders_members spaces '' : '' (styled_scalar real) ms t \<and>
        sw_wrote st2 (write_members real ms st2) (w @ t)"
      if "sw_ready st2" for st2
      using sw_members_written [OF _ False that] V sw_plain_member [OF pl] by blast
    have trail: "renders_members spaces '' : '' (styled_scalar real) ms (t @ w)"
      if "renders_members spaces '' : '' (styled_scalar real) ms t" "spaces w" for t w
      by (rule renders_trail(3) [where W = spaces, OF that]) simp
    obtain w w' t where t: "spaces w" "spaces w'" "renders_members spaces '' : '' (styled_scalar real) ms t"
      "sw_wrote st (writeValue real ?v st) (w @ ''{'' @ w' @ t @ ''}'')"
      using sw_wrote_within [where P = "renders_members spaces '' : '' (styled_scalar real) ms",
          OF st body trail, of "''}''" "''{''"] False by auto
    show ?thesis
      using object [OF t(3,2), of c] t(1,4)
      by (intro exI [of _ w] exI [of _ "''{'' @ w' @ t @ ''}''"]) (simp del: writeValue.simps)
  qed
qed

lemma sw_scalar_written:
  assumes "\<not> compound d"
  shows "sw_writes real (Json d c)"
  unfolding sw_writes_def
proof (intro allI impI)
  fix st
  assume st: "sw_ready st"
  have "writeValue real (Json d c) st = sw_append (styled_scalar real d) st"
    using assms st by (cases d) (simp_all add: pushValue_def sw_ready_def fast_scalar_def FastWriter_new_def)
  then show "\<exists>w t. spaces w \<and> styled_text real (Json d c) t \<and> sw_wrote st (writeValue real (Json d c) st) (w @ t)"
    using scalar [OF assms, of spaces "'' : ''" "styled_scalar real" c] sw_wrote_append [OF st]
    by (intro exI [of _ "[]"] exI [of _ "styled_scalar real d"]) (simp del: writeValue.simps)
qed

lemma sw_value_written: "sw_plain v \<Longrightarrow> sw_writes real v"
proof (induction v rule: measure_induct_rule [of size])
  case (less v)
  obtain d c where v: "v = Json d c" by (cases v)
  show ?case
  proof (cases d)
    case (J_array es)
    have "sw_writes real x" if "x \<in> set (children_of es)" for x
      using less that child_smaller [OF that, of c] sw_plain_child [of es c x] by (simp add: v J_array)
    with less.prems show ?thesis unfolding v J_array by (intro sw_array_written) blast+
  next
    case (J_object ms)
    have "sw_writes real (snd m)" if "m \<in> set ms" for m
      using less that member_smaller [OF that, of c] sw_plain_member [of ms c m] by (simp add: v J_object)
    with less.prems show ?thesis unfolding v J_object by (intro sw_object_written) blast+
  qed (simp_all add: v sw_scalar_written)
qed

lemma styled_readable: "readable spaces '' : '' (styled_scalar real)"
proof -
  have "'' : '' = '' '' @ '':'' @ '' '' \<and> spaces '' ''" by (simp add: json_space_def)
  then have "\<exists>w1 w2. '' : '' = w1 @ '':'' @ w2 \<and> spaces w1 \<and> spaces w2" by blast
  then show ?thesis by (simp add: readable_def fast_scalar_def FastWriter_new_def)
qed

text \<open>C13: what \<^verbatim>\<open>Value::toStyledString\<close> writes is read back. The
  reader succeeds without an error and yields the value that was written, with its integers in the
  type the reader gives them and null in the holes of its arrays: for every value without reals
  and comments whose names of members have no NUL, with which this writer would cut them, and
  whose nesting stays below the stack limit of the reader, with all options of the reader that
  allow the root.\<close>

theorem styled_roundtrip:
  fixes rdbl :: "string \<Rightarrow> 'r option"
  assumes "sw_plain v" and "json_plain v" and "json_depth v < stackLimit"
    and "strictRoot (rd_features rd) \<Longrightarrow> isArray v \<or> isObject v"
    and "spare = [] \<or> hd spare = CHR 0x00"
  shows "\<exists>rd'. parse_string rdbl (toStyledString real v) spare root collectComments rd = Some (rd', Inr True) \<and>
    rd_root rd' = Json (j_data (json_normal v)) (j_comments root) \<and> good rd'"
proof -
  let ?st = "\<lparr>sw_document = [], sw_indent = [], sw_add_children = False, sw_children = []\<rparr>"
  have "sw_ready ?st" by (simp add: sw_ready_def)
  then obtain w t where w: "spaces w" and t: "styled_text real v t"
    and wr: "sw_wrote ?st (writeValue real v ?st) (w @ t)"
    by (rule sw_writesD [OF sw_value_written [OF assms(1)]])
  have lf: "spaces [CHR 0x0A]" by (simp add: json_space_def)
  have "toStyledString real v = w @ t @ [CHR 0x0A]"
    using assms(1) wr
    by (simp add: toStyledString_def StyledWriter_write_def Let_def sw_plain_def sw_wrote_def)
  then show ?thesis
    using parse_text [where w = w, OF styled_readable t assms(2-4) w lf assms(5)] by simp
qed

theorem styled_roundtrip_witness:
  "\<exists>rd'. parse_string (\<lambda>_. None) (toStyledString (plain_printf (\<lambda>_. [])) sample_json) [] nullSingleton
      True (Reader_new nullSingleton strictMode) = Some (rd', Inr True) \<and>
    rd_root rd' = Json (j_data (json_normal sample_json)) no_comments \<and> good rd'"
  using styled_roundtrip [of sample_json "Reader_new nullSingleton strictMode" "[]"
      "\<lambda>_. None" "plain_printf (\<lambda>_. [])" nullSingleton True]
  by (simp add: sample_json_def json_of_def sw_plain_def stackLimit_def isObject_def json_type_def json_size_def)

end
