(* ===== verification/Json_Reader_Type.thy ===== *)
theory Json_Reader_Type
  imports Json_Reader Json_Convert
begin

text \<open>
  The values \<^verbatim>\<open>Json::Reader\<close> builds, whatever the document, also when it ends with errors: maps are
  ordered at every depth, an integer that an \<^verbatim>\<open>int\<close> holds is an \<^verbatim>\<open>intValue\<close> and a greater one a
  \<^verbatim>\<open>uintValue\<close>, and a comment starts with a slash.
\<close>

section \<open>Typed values\<close>

definition slashed :: "string option \<Rightarrow> bool" where
  "slashed c \<longleftrightarrow> (\<forall>t. c = Some t \<longrightarrow> t \<noteq> [] \<and> hd t = CHR ''/'')"

definition slashed_comments :: "json_comments \<Rightarrow> bool" where
  "slashed_comments c \<longleftrightarrow> slashed (c_before c) \<and> slashed (c_same_line c) \<and> slashed (c_after c)"

fun typed :: "'r json \<Rightarrow> bool" and typed_data :: "'r json_data \<Rightarrow> bool" where
  "typed (Json d c) \<longleftrightarrow> typed_data d \<and> slashed_comments c"
| "typed_data (J_int i) \<longleftrightarrow> sint i < 2 ^ 31"
| "typed_data (J_uint u) \<longleftrightarrow> 2 ^ 31 \<le> uint u"
| "typed_data (J_array es) \<longleftrightarrow> smap_ok (<) es \<and> (\<forall>p \<in> set es. typed (snd p))"
| "typed_data (J_object ms) \<longleftrightarrow> smap_ok (<) ms \<and> (\<forall>p \<in> set ms. typed (snd p))"
| "typed_data _ \<longleftrightarrow> True"

lemma typed_iff: "typed v \<longleftrightarrow> typed_data (j_data v) \<and> slashed_comments (j_comments v)"
  by (cases v) simp

lemma slashed_none [simp]: "slashed None" "slashed_comments no_comments"
  by (simp_all add: slashed_def slashed_comments_def no_comments_def)

lemma typed_null [simp]: "typed nullSingleton"
  by (simp add: nullSingleton_def json_of_def)

section \<open>Operations on a node\<close>

text \<open>An operation that keeps typed values typed.\<close>

definition keeps_typed :: "('r json \<Rightarrow> exn + 'r json) \<Rightarrow> bool" where
  "keeps_typed f \<longleftrightarrow> (\<forall>v v'. typed v \<longrightarrow> f v = Inr v' \<longrightarrow> typed v')"

lemma keeps_typedI: "(\<And>v v'. typed v \<Longrightarrow> f v = Inr v' \<Longrightarrow> typed v') \<Longrightarrow> keeps_typed f"
  by (simp add: keeps_typed_def)

lemma keeps_typedD: "keeps_typed f \<Longrightarrow> typed v \<Longrightarrow> f v = Inr v' \<Longrightarrow> typed v'"
  by (simp add: keeps_typed_def)

lemma typed_index:
  assumes "typed v" and "json_index i v = Inr v'"
  shows "\<exists>es c. v' = Json (J_array es) c \<and> typed v' \<and> map_of es i \<noteq> None"
proof -
  obtain d c where v: "v = Json d c" by (cases v)
  show ?thesis
    using assms
    by (cases d) (auto simp: v json_index_def array_elements_def asc.put_ok asc.lookup_put
        split: if_splits dest!: smap_put_mem)
qed

lemma typed_resolve:
  assumes "typed v" and "resolveReference k v = Inr v'"
  shows "\<exists>ms c. v' = Json (J_object ms) c \<and> typed v' \<and> map_of ms k \<noteq> None"
proof -
  obtain d c where v: "v = Json d c" by (cases v)
  show ?thesis
    using assms
    by (cases d) (auto simp: v resolveReference_def object_members_def asc.put_ok asc.lookup_put
        split: if_splits dest!: smap_put_mem)
qed

lemma typed_entries:
  fixes es :: "('k::linorder \<times> 'r json) list"
  assumes "smap_ok (<) es" and "\<forall>p \<in> set es. typed (snd p)" and "typed x"
  shows "smap_ok (<) (smap_put (<) k x es)" "\<forall>p \<in> set (smap_put (<) k x es). typed (snd p)"
  using assms by (simp_all add: asc.put_ok smap_put_all [where P = typed])

lemma keeps_typed_element: "keeps_typed f \<Longrightarrow> keeps_typed (json_element i f)"
proof (rule keeps_typedI)
  fix v v'
  assume f: "keeps_typed f" and v: "typed v" "json_element i f v = Inr v'"
  then obtain v1 where 1: "json_index i v = Inr v1"
    by (auto simp: json_element_def split: sum.splits)
  from typed_index [OF v(1) this] obtain es c x where v1: "v1 = Json (J_array es) c" "typed v1"
    and x: "map_of es i = Some x" by auto
  then have "typed x" by (fastforce dest: map_of_SomeD)
  with f have "f x = Inr y \<Longrightarrow> typed y" for y by (rule keeps_typedD)
  with v v1 x 1 show "typed v'"
    by (auto simp: json_element_def typed_entries split: sum.splits)
qed

lemma keeps_typed_member: "keeps_typed f \<Longrightarrow> keeps_typed (json_member k f)"
proof (rule keeps_typedI)
  fix v v'
  assume f: "keeps_typed f" and v: "typed v" "json_member k f v = Inr v'"
  then obtain v1 where 1: "resolveReference k v = Inr v1"
    by (auto simp: json_member_def split: sum.splits)
  from typed_resolve [OF v(1) this] obtain ms c x where v1: "v1 = Json (J_object ms) c" "typed v1"
    and x: "map_of ms k = Some x" by auto
  then have "typed x" by (fastforce dest: map_of_SomeD)
  with f have "f x = Inr y \<Longrightarrow> typed y" for y by (rule keeps_typedD)
  with v v1 x 1 show "typed v'"
    by (auto simp: json_member_def typed_entries split: sum.splits)
qed

lemma keeps_typed_at: "keeps_typed f \<Longrightarrow> keeps_typed (at_node p f)"
proof (induction p)
  case Nil
  moreover have "at_node [] f = f" by (simp add: fun_eq_iff)
  ultimately show ?case by simp
next
  case (Cons s p)
  have "at_node (Member k # p) f = json_member k (at_node p f)"
    "at_node (Element i # p) f = json_element i (at_node p f)" for k i
    by (simp_all add: fun_eq_iff)
  with Cons show ?case
    by (cases s) (simp_all only: keeps_typed_element keeps_typed_member)
qed

lemma slashed_c_str: "t \<noteq> [] \<Longrightarrow> hd t = CHR ''/'' \<Longrightarrow> slashed (Some (c_str t))"
  by (cases t) (simp_all add: slashed_def c_str_def)

lemma slash_butlast:
  "t \<noteq> [] \<Longrightarrow> hd t = CHR ''/'' \<Longrightarrow> last t = CHR 0x0A \<Longrightarrow> butlast t \<noteq> [] \<and> hd (butlast t) = CHR ''/''"
  by (cases t) auto

lemma keeps_typed_setComment:
  assumes "t \<noteq> []" and "hd t = CHR ''/''"
  shows "keeps_typed (setComment t p)"
proof -
  let ?t = "if t \<noteq> [] \<and> last t = CHR 0x0A then butlast t else t"
  from assms have "?t \<noteq> [] \<and> hd ?t = CHR ''/''" using slash_butlast by auto
  then have "slashed (Some (c_str ?t))" by (intro slashed_c_str) simp_all
  then show ?thesis
    by (auto simp: keeps_typed_def setComment_def Let_def typed_iff slashed_comments_def
        split: if_splits placement.splits)
qed

section \<open>Readers\<close>

text \<open>The value so far is typed, and the comments that wait for the next value start with a slash.\<close>

definition typed_reader :: "'r reader \<Rightarrow> bool" where
  "typed_reader rd \<longleftrightarrow>
     typed (rd_root rd) \<and> (rd_commentsBefore rd \<noteq> [] \<longrightarrow> hd (rd_commentsBefore rd) = CHR ''/'')"

lemma typed_reader_updates [simp]:
  "typed_reader (rd\<lparr>rd_current := l\<rparr>) = typed_reader rd"
  "typed_reader (rd\<lparr>rd_nodes := ns\<rparr>) = typed_reader rd"
  "typed_reader (rd\<lparr>rd_errors := es\<rparr>) = typed_reader rd"
  "typed_reader (addError m t x rd) = typed_reader rd"
  "typed_reader (pop_node rd) = typed_reader rd"
  "typed_reader (value_read rd) = typed_reader rd"
  by (simp_all add: typed_reader_def addError_def pop_node_def value_read_def)

lemma typed_update:
  assumes "typed_reader rd" and "keeps_typed f"
  shows "typed_reader (update_node p f rd)"
  using assms keeps_typedD [OF keeps_typed_at [OF assms(2)], of "rd_root rd" p]
  by (auto simp: typed_reader_def update_node_def split: sum.split)

lemma typed_swap: "typed_reader rd \<Longrightarrow> typed_data d \<Longrightarrow> typed_reader (swapPayload d rd)"
  unfolding swapPayload_def by (rule typed_update) (auto simp: keeps_typed_def typed_iff)

lemma typed_push: "typed_reader rd \<Longrightarrow> typed_reader (push_node s rd)"
  by (simp add: push_node_def Let_def typed_update keeps_typed_def)

lemma typed_attach: "typed_reader rd \<Longrightarrow> typed_reader (attach_comments rd)"
proof -
  assume rd: "typed_reader rd"
  show ?thesis
  proof (cases "rd_collectComments rd \<and> rd_commentsBefore rd \<noteq> []")
    case True
    with rd have "hd (rd_commentsBefore rd) = CHR ''/''" by (simp add: typed_reader_def)
    with rd True have "typed_reader (update_node (currentValue rd) (setComment (rd_commentsBefore rd) commentBefore) rd)"
      by (simp add: typed_update keeps_typed_setComment)
    with True show ?thesis
      by (auto simp: typed_reader_def attach_comments_def)
  qed (use rd in \<open>auto simp: attach_comments_def\<close>)
qed

lemma typed_addComment:
  assumes "typed_reader rd" and "length l \<le> length s"
  shows "typed_reader (addComment (CHR ''/'' # s) l place rd)"
proof -
  obtain u where u: "normalizeEOL (span (CHR ''/'' # s) l) = CHR ''/'' # u"
    using assms(2) by (auto simp: span_def Suc_diff_le)
  have "typed_reader (update_node p (setComment (CHR ''/'' # u) q) rd)" for p q
    using assms(1) by (simp add: typed_update keeps_typed_setComment)
  moreover have "typed_reader (rd\<lparr>rd_commentsBefore := rd_commentsBefore rd @ CHR ''/'' # u\<rparr>)"
    using assms(1) by (auto simp: typed_reader_def hd_append)
  ultimately show ?thesis by (simp only: addComment_def u Let_def split: if_split) simp
qed

lemma typed_readComment:
  assumes "typed_reader rd" and "readComment rd = (ok, rd')"
  shows "typed_reader rd'"
proof -
  obtain c ok1 l where e: "comment_end (rd_current rd) = (c, ok1, l)" by (metis prod.exhaust)
  with comment_end_length [OF e] assms show ?thesis
    by (auto simp: readComment_def Let_def typed_addComment split: if_splits)
qed

lemma typed_readToken:
  assumes "typed_reader rd" and "readToken rd = (t, rd')"
  shows "typed_reader rd'"
proof -
  obtain c l where c: "getNextChar (skipSpaces (rd_current rd)) = (c, l)" by (metis prod.exhaust)
  obtain ok rd1 where r: "readComment (rd\<lparr>rd_current := l\<rparr>) = (ok, rd1)" by (metis prod.exhaust)
  obtain ty ok1 l1 where k: "scan_token c l = (ty, ok1, l1)" by (metis prod.exhaust)
  have "typed_reader rd1" using typed_readComment [OF _ r] assms(1) by simp
  with assms show ?thesis
    by (auto simp: readToken_def Let_def c r k split: if_splits)
qed

lemma typed_skip_comments: "typed_reader rd \<Longrightarrow> skip_comments rd = (t, rd') \<Longrightarrow> typed_reader rd'"
proof (induction rd arbitrary: t rd' rule: skip_comments.induct)
  case (1 rd)
  obtain t1 rd1 where r: "readToken rd = (t1, rd1)" by (metis prod.exhaust)
  with "1.prems" have "typed_reader rd1" by (simp add: typed_readToken)
  with "1.IH" [OF r [symmetric]] "1.prems"(2) r show ?case
    by (subst (asm) skip_comments.simps) (auto split: if_splits)
qed

lemma typed_skipCommentTokens:
  "typed_reader rd \<Longrightarrow> skipCommentTokens rd = (t, rd') \<Longrightarrow> typed_reader rd'"
  by (cases "allowComments (rd_features rd)")
    (simp_all add: skipCommentTokens_def, (erule typed_skip_comments typed_readToken, assumption)+)

lemma typed_skip_until: "typed_reader rd \<Longrightarrow> typed_reader (skip_until ty rd)"
proof (induction ty rd rule: skip_until.induct)
  case (1 ty rd)
  obtain t1 rd1 where r: "readToken rd = (t1, rd1)" by (metis prod.exhaust)
  with "1.prems" have "typed_reader rd1" by (simp add: typed_readToken)
  with "1.IH" [OF r [symmetric]] r show ?case
    by (subst skip_until.simps) (auto split: if_splits)
qed

lemma typed_recover:
  "typed_reader rd \<Longrightarrow> typed_reader (recoverFromError ty rd)"
  "typed_reader rd \<Longrightarrow> typed_reader (addErrorAndRecover m t ty rd)"
  by (simp_all add: recoverFromError_def addErrorAndRecover_def Let_def typed_skip_until)

lemma typed_finish [simp]: "typed_reader (fst (finish_value r)) = typed_reader (fst r)"
  by (cases r; cases "snd r") (auto simp: finish_value_def)


section \<open>Numbers\<close>

lemma decode_digits_bound:
  "v \<le> m \<Longrightarrow> decode_digits m v cs = Some u \<Longrightarrow> u \<le> m"
proof (induction cs arbitrary: v)
  case (Cons c cs)
  let ?d = "word_of_nat (digit_value c) :: 64 word"
  from Cons.prems(2) have c: "is_digit c"
    and n: "\<not> (m div 10 \<le> v \<and> (m div 10 < v \<or> cs \<noteq> [] \<or> m mod 10 < ?d))"
    and u: "decode_digits m (v * 10 + ?d) cs = Some u"
    by (auto simp: Let_def split: if_splits)
  have "digit_value c \<le> 9" using c by (auto simp: is_digit_def digit_value_def)
  then have d: "unat ?d \<le> 9" by (simp add: unsigned_of_nat take_bit_nat_eq_self)
  have "j * 10 + e \<le> k" if "e \<le> 9" "\<not> (k div 10 \<le> j \<and> (k div 10 < j \<or> k mod 10 < e))" for j e k :: nat
    using that div_mult_mod_eq [of k 10] by linarith
  from this [OF d, of "unat m" "unat v"] n have "unat v * 10 + unat ?d \<le> unat m"
    by (auto simp: word_le_nat_alt word_less_nat_alt unat_div unat_mod)
  moreover from this have "unat (v * 10 + ?d) = unat v * 10 + unat ?d"
    using unsigned_less [of m, where 'a = nat] by (simp add: unat_word_ariths)
  ultimately have "v * 10 + ?d \<le> m" by (simp add: word_le_nat_alt)
  with Cons.IH u show ?case by blast
qed simp


lemma typed_negative:
  fixes v :: "64 word"
  assumes "v \<le> 0x8000000000000000" and "v \<noteq> 0x8000000000000000"
  shows "sint (- v) < 2 ^ 31"
proof (rule ccontr)
  assume neg: "\<not> sint (- v) < 2 ^ 31"
  then have "0 \<le> sint (- v)" by simp
  then have u: "unat (- v) = nat (sint (- v))" by (rule unat_of_sint)
  with sint_less [of "- v"] have "unat (- v) < 2 ^ 63" by simp
  moreover have "unat v < 2 ^ 63" using assms by (simp add: word_le_nat_alt word_unat_eq_iff)
  ultimately have "unat (v + - v) = unat v + unat (- v)" by (subst unat_add_lem [symmetric]) simp
  with u neg show False by simp
qed

lemma typed_number:
  assumes "decodeNumber rdbl t rd = (Some d, rd')"
  shows "typed_data d"
proof -
  have "sint v < 2 ^ 31" if "v \<le> 0x7FFFFFFF" for v :: "64 word"
    using that by (simp add: sint_uint_small word_le_def)
  moreover have "2 ^ 31 \<le> uint v" if "\<not> v \<le> 0x7FFFFFFF" for v :: "64 word"
    using that by (simp add: word_le_def)
  moreover have "sint minLargestInt < 2 ^ 31" by (simp add: minLargestInt_def)
  moreover have "v \<le> 0x8000000000000000" if "decode_digits 0x8000000000000000 0 cs = Some v" for cs v
    using that by (rule decode_digits_bound [rotated]) simp
  ultimately show ?thesis
    using assms typed_negative
    by (auto simp: decodeNumber_def decodeDouble_def Let_def simp del: decode_digits.simps
        split: option.splits if_splits)
qed

section \<open>Reading\<close>

text \<open>What a reading function leaves is typed.\<close>

definition typed_reading :: "('r, 'a) reading \<Rightarrow> bool" where
  "typed_reading r \<longleftrightarrow> (\<forall>rd x. r = Some (rd, x) \<longrightarrow> typed_reader rd)"

lemma typed_reading_simps [simp]:
  "typed_reading None"
  "typed_reading (Some y) = typed_reader (fst y)"
  by (cases y; simp add: typed_reading_def)+

lemma typed_reading_finish [simp]: "typed_reading (map_option finish_value r) = typed_reading r"
  by (cases r) simp_all


lemma typed_decoded:
  "typed_reader rd \<Longrightarrow> decodeNumber rdbl t rd = (d, rd') \<Longrightarrow> typed_reader rd'"
  "typed_reader rd \<Longrightarrow> decodeString t rd = (s, rd') \<Longrightarrow> typed_reader rd'"
  by (auto simp: decodeNumber_def decodeDouble_def decodeString_def Let_def simp del: decode_digits.simps
      split: option.splits sum.splits if_splits)

lemma typed_set_decoded:
  assumes "typed_reader (snd x)" and "\<And>d. fst x = Some d \<Longrightarrow> typed_data (mk d)"
  shows "typed_reader (fst (set_decoded mk x))"
  using assms by (auto simp: set_decoded_def typed_swap split: prod.split option.split)

lemma typed_read_simple:
  assumes "typed_reader rd"
  shows "typed_reader (fst (read_simple rdbl t rd))"
proof -
  have n: "typed_reader (fst (set_decoded id (decodeNumber rdbl t rd)))"
    using assms typed_decoded(1) [OF assms, of rdbl t] typed_number [of rdbl t rd]
    by (intro typed_set_decoded) (auto simp: prod_eq_iff)
  have s: "typed_reader (fst (set_decoded J_string (decodeString t rd)))"
    using assms typed_decoded(2) [OF assms, of t]
    by (intro typed_set_decoded) (auto simp: prod_eq_iff)
  from assms n s show ?thesis
    by (cases "tk_type t") (simp_all add: read_simple_def typed_swap)
qed

lemma typed_read_name:
  "typed_reader rd \<Longrightarrow> read_name rdbl t rd = (rd', x) \<Longrightarrow> typed_reader rd'"
  by (auto simp: read_name_def dest: typed_decoded split: prod.splits option.splits if_splits)

lemma typed_after_member:
  assumes "typed_reading r" and "\<And>rd. typed_reader rd \<Longrightarrow> typed_reading (again rd)"
  shows "typed_reading (after_member again r)"
proof (cases r)
  case (Some y)
  obtain rd x where y: "y = (rd, x)" by (cases y)
  obtain comma rd1 where k: "readToken (pop_node rd) = (comma, rd1)" by (metis prod.exhaust)
  obtain comma1 rd2 where k1: "skip_comments rd1 = (comma1, rd2)" by (metis prod.exhaust)
  from assms(1) have rd: "typed_reader rd" by (simp add: Some y)
  with typed_readToken [OF _ k] have rd1: "typed_reader rd1" by simp
  with typed_skip_comments [OF _ k1] have rd2: "typed_reader rd2" by simp
  from rd rd1 rd2 assms(2) show ?thesis
    by (cases x) (auto simp: after_member_def Some y k k1 typed_recover)
qed (simp add: after_member_def)

lemma typed_after_element:
  assumes "typed_reading r" and "\<And>rd. typed_reader rd \<Longrightarrow> typed_reading (again rd)"
  shows "typed_reading (after_element again r)"
proof (cases r)
  case (Some y)
  obtain rd x where y: "y = (rd, x)" by (cases y)
  obtain t rd1 where k: "skip_comments (pop_node rd) = (t, rd1)" by (metis prod.exhaust)
  from assms(1) have rd: "typed_reader rd" by (simp add: Some y)
  with typed_skip_comments [OF _ k] have "typed_reader rd1" by simp
  with rd assms(2) show ?thesis
    by (cases x) (auto simp: after_element_def Some y k typed_recover)
qed (simp add: after_element_def)

lemma reading_typed:
  "typed_reader rd \<Longrightarrow> typed_reading (readValue rdbl n rd)"
  "typed_reader rd \<Longrightarrow> typed_reading (read_members rdbl n name rd)"
  "typed_reader rd \<Longrightarrow> typed_reading (read_elements rdbl n i rd)"
proof (induction n arbitrary: rd name i)
  case (Suc n)
  note IH = Suc.IH
  {
    case 1
    obtain t rd1 where t: "skipCommentTokens rd = (t, rd1)" by (metis prod.exhaust)
    with 1 have rd: "typed_reader (attach_comments rd1)"
      by (intro typed_attach) (rule typed_skipCommentTokens)
    then have m: "typed_reading (read_members rdbl n [] (swapPayload (J_object []) (attach_comments rd1)))"
      by (intro IH(2) typed_swap) simp_all
    let ?rd = "\<lambda>l. swapPayload (J_array []) (attach_comments rd1)\<lparr>rd_current := l\<rparr>"
    have a: "typed_reader (?rd l)" for l using rd by (simp add: typed_swap)
    then have "typed_reading (read_elements rdbl n 0 (?rd l))" for l by (intro IH(3))
    moreover have "typed_reader (snd (readToken (?rd l)))" for l
      using typed_readToken [OF a prod.collapse [symmetric]] .
    ultimately show ?case using 1 rd m by (auto simp: t Let_def typed_read_simple)
  next
    case 2
    obtain t rd1 where t: "skip_comments rd = (t, rd1)" by (metis prod.exhaust)
    obtain rd2 y where nm: "read_name rdbl t rd1 = (rd2, y)" by (metis prod.exhaust)
    obtain colon rd3 where c: "readToken rd2 = (colon, rd3)" by (metis prod.exhaust)
    from 2 t have rd1: "typed_reader rd1" by (rule typed_skip_comments)
    then have rd2: "typed_reader rd2" using nm by (rule typed_read_name)
    then have rd3: "typed_reader rd3" using c by (rule typed_readToken)
    then have "typed_reading (after_member (read_members rdbl n name1)
        (readValue rdbl n (push_node (Member name1) rd3)))" for name1
      by (intro typed_after_member IH(1) IH(2) typed_push)
    with rd1 rd2 rd3 show ?case
      by (auto simp: t nm c typed_recover split: sum.split member_name.split)
  next
    case 3
    then have "typed_reading (after_element (read_elements rdbl n (i + 1))
        (readValue rdbl n (push_node (Element i) rd)))"
      by (intro typed_after_element IH(1) IH(3) typed_push)
    with 3 show ?case by simp
  }
qed simp_all

text \<open>C19: Whatever the document, and also when it is not a JSON document,
  \<^verbatim>\<open>Reader::parse\<close> leaves a well-formed value in
  \<^verbatim>\<open>root\<close>: the maps of arrays and objects are ordered at every depth, an
  integer below two to the 31 is an \<^verbatim>\<open>intValue\<close> and every other one a
  \<^verbatim>\<open>uintValue\<close>, and every comment starts with a slash.\<close>

theorem parsed_typed:
  assumes "typed root"
  shows "\<exists>rd' r. Reader_parse rdbl doc root collectComments rd = Some (rd', r) \<and> typed (rd_root rd')"
proof -
  let ?rd = "start_reader doc root collectComments rd"
  obtain rd' r where p: "Reader_parse rdbl doc root collectComments rd = Some (rd', r)"
    using Reader_parse_ends by blast
  then obtain rd1 x where v: "readValue rdbl (reader_fuel doc) ?rd = Some (rd1, x)"
    by (auto simp: Reader_parse_def split: option.splits)
  have "typed_reader ?rd" using assms by (simp add: typed_reader_def start_reader_def)
  from reading_typed(1) [OF this, of rdbl "reader_fuel doc"] have rd1: "typed_reader rd1" by (simp add: v)
  obtain t rd2 where t: "skipCommentTokens rd1 = (t, rd2)" by (metis prod.exhaust)
  with rd1 have rd2: "typed_reader rd2" by (rule typed_skipCommentTokens)
  then have "rd_commentsBefore rd2 \<noteq> [] \<Longrightarrow>
      typed_reader (update_node [] (setComment (rd_commentsBefore rd2) commentAfter) rd2)"
    by (intro typed_update keeps_typed_setComment) (simp_all add: typed_reader_def)
  with p rd1 rd2 have "typed_reader rd'"
    by (cases x) (auto simp: Reader_parse_def v t Let_def split: if_splits)
  with p show ?thesis by (simp add: typed_reader_def)
qed

theorem parsed_typed_witness:
  "\<exists>rd' r. Reader_parse Map.empty ''[1, -2, {''
      (nullSingleton :: unit json) True (Reader_new nullSingleton Features_all) = Some (rd', r) \<and>
     typed (rd_root rd')"
  by (rule parsed_typed) simp

end
