(* ===== verification/Json_Path.thy ===== *)
theory Json_Path
  imports Json_Render "HOL-Library.Sublist"
begin

text \<open>
  \<^verbatim>\<open>Json::Path\<close>: access to a value by a text such as \<^verbatim>\<open>.settings.ports[0]\<close>. A \<^verbatim>\<open>%\<close> stands for an
  argument that is given beside the text. The text is read as C++ reads it, with a NUL at its end:
  an error of the text is ignored, and a name that would begin with a NUL is read again and again.

  The round trip: a path that is written as text is read back, and what is assigned through
  \<^verbatim>\<open>make\<close> is found by \<^verbatim>\<open>resolve\<close>, unless an index is the greatest of 32 bits, for which the size of
  the array wraps to zero.
\<close>

section \<open>Paths\<close>

datatype path_argument = Path_none | Path_index "32 word" | Path_key string

definition PathArgument :: "string \<Rightarrow> path_argument" where
  "PathArgument key = Path_key (c_str key)"

text \<open>What \<^verbatim>\<open>current\<close> points to.\<close>

definition char_at :: "location \<Rightarrow> char" where
  "char_at l = (case l of [] \<Rightarrow> CHR 0x00 | c # _ \<Rightarrow> c)"

datatype path_kind = kindNone | kindIndex | kindKey

definition path_kind :: "path_argument \<Rightarrow> path_kind" where
  "path_kind a = (case a of Path_none \<Rightarrow> kindNone | Path_index _ \<Rightarrow> kindIndex | Path_key _ \<Rightarrow> kindKey)"

text \<open>The arguments that are left and the path so far. An argument of another kind is not used up.\<close>

definition addPathInArg ::
  "path_kind \<Rightarrow> path_argument list \<times> path_argument list \<Rightarrow> path_argument list \<times> path_argument list" where
  "addPathInArg kind st =
     (case st of
        ([], args) \<Rightarrow> ([], args)
      | (a # ins, args) \<Rightarrow> if path_kind a \<noteq> kind then (a # ins, args) else (ins, args @ [a]))"

fun read_index :: "32 word \<Rightarrow> location \<Rightarrow> 32 word \<times> location" where
  "read_index i (c # l) =
     (if is_digit c then read_index (i * 10 + word_of_nat (digit_value c)) l else (i, c # l))"
| "read_index i [] = (i, [])"

text \<open>\<^verbatim>\<open>strchr("[.", c)\<close> also finds the NUL that ends its string.\<close>

definition ends_name :: "char \<Rightarrow> bool" where
  "ends_name c \<longleftrightarrow> c \<in> {CHR ''['', CHR ''.'', CHR 0x00}"

type_synonym path_state = "location \<times> path_argument list \<times> path_argument list"

definition path_round :: "path_state \<Rightarrow> path_state + path_argument list" where
  "path_round st =
     (case st of
        ([], ins, args) \<Rightarrow> Inr args
      | (c # l, ins, args) \<Rightarrow>
          if c = CHR ''[''
          then
            let (l1, ins1, args1) =
                  (if char_at l = CHR ''%'' then (l, addPathInArg kindIndex (ins, args))
                   else (case read_index 0 l of (i, l1) \<Rightarrow> (l1, ins, args @ [Path_index i])))
            in Inl (tl l1, ins1, args1)
          else if c = CHR ''%'' then Inl (l, addPathInArg kindKey (ins, args))
          else if c = CHR ''.'' \<or> c = CHR '']'' then Inl (l, ins, args)
          else Inl (dropWhile (\<lambda>c. \<not> ends_name c) (c # l), ins,
                 args @ [PathArgument (takeWhile (\<lambda>c. \<not> ends_name c) (c # l))]))"

definition makePath :: "string \<Rightarrow> path_argument list \<Rightarrow> path_argument list option" where
  "makePath path ins = loop path_round (path, ins, [])"

text \<open>The constructor takes five arguments, which are absent by default.\<close>

definition Path :: "string \<Rightarrow> path_argument list \<Rightarrow> path_argument list option" where
  "Path path given = makePath path (take 5 (given @ replicate 5 Path_none))"

section \<open>Access\<close>

text \<open>\<open>None\<close>: the path leads to no value.\<close>

fun path_node :: "path_argument list \<Rightarrow> 'r json \<Rightarrow> exn + 'r json option" where
  "path_node [] v = Inr (Some v)"
| "path_node (Path_none # args) v = path_node args v"
| "path_node (Path_index i # args) v =
     (if \<not> isArray v \<or> \<not> isValidIndex v i then Inr None
      else (case json_at v i of Inl e \<Rightarrow> Inl e | Inr x \<Rightarrow> path_node args x))"
| "path_node (Path_key k # args) v =
     (if \<not> isObject v then Inr None
      else (case json_find k v of
              Inl e \<Rightarrow> Inl e
            | Inr None \<Rightarrow> Inr None
            | Inr (Some x) \<Rightarrow> path_node args x))"

definition Path_resolve_default :: "path_argument list \<Rightarrow> 'r json \<Rightarrow> 'r json \<Rightarrow> exn + 'r json" where
  "Path_resolve_default args root defaultValue =
     (case path_node args root of
        Inl e \<Rightarrow> Inl e
      | Inr None \<Rightarrow> Inr defaultValue
      | Inr (Some v) \<Rightarrow> Inr v)"

definition Path_resolve :: "path_argument list \<Rightarrow> 'r json \<Rightarrow> exn + 'r json" where
  "Path_resolve args root = Path_resolve_default args root nullSingleton"

text \<open>\<^verbatim>\<open>make\<close> hands out a reference: \<open>f\<close> is what is done with what it refers to.\<close>

fun path_steps :: "path_argument list \<Rightarrow> node" where
  "path_steps [] = []"
| "path_steps (Path_none # args) = path_steps args"
| "path_steps (Path_index i # args) = Element i # path_steps args"
| "path_steps (Path_key k # args) = Member k # path_steps args"

definition Path_make ::
  "path_argument list \<Rightarrow> ('r json \<Rightarrow> exn + 'r json) \<Rightarrow> 'r json \<Rightarrow> exn + 'r json" where
  "Path_make args f root = at_node (path_steps args) f root"

section \<open>Reading a path ends unless it has a NUL\<close>

lemma read_index_suffix: "suffix (snd (read_index i l)) l"
  by (induction i l rule: read_index.induct) (auto intro: suffix_ConsI)

text \<open>A round goes on behind the character it has seen.\<close>

lemma path_round_behind:
  assumes "path_round (c # l, ins, args) = Inl (l', ins', args')" and "c \<noteq> CHR 0x00"
  shows "suffix l' l"
proof -
  have "suffix (tl l1) l" if "suffix l1 l" for l1
    using that by (cases l1) (auto dest: suffix_ConsD)
  moreover have "suffix (snd (read_index 0 l)) l" by (rule read_index_suffix)
  moreover have "suffix (dropWhile (\<lambda>c. \<not> ends_name c) l) l" by (rule suffix_dropWhile)
  ultimately show ?thesis
    using assms by (auto simp: path_round_def ends_name_def Let_def split: if_splits prod.splits)
qed

lemma makePath_ends:
  assumes "CHR 0x00 \<notin> set path"
  shows "\<exists>args. makePath path ins = Some args"
proof -
  let ?I = "\<lambda>(l, _, _). CHR 0x00 \<notin> set l"
  have "?I t \<and> (t, s) \<in> measure (length \<circ> fst)" if s: "?I s" "path_round s = Inl t" for s t :: path_state
  proof -
    obtain l ins1 args1 where st: "s = (l, ins1, args1)" by (cases s)
    obtain l' ins2 args2 where t: "t = (l', ins2, args2)" by (cases t)
    from s(2) st obtain c m where l: "l = c # m" by (cases l) (auto simp: path_round_def)
    with s st t path_round_behind [of c m ins1 args1 l' ins2 args2] have "suffix l' m" by auto
    from set_mono_suffix [OF this] suffix_length_le [OF this] s(1) st t l show ?thesis by auto
  qed
  from loop_terminates [OF wf_measure, of ?I path_round "length \<circ> fst" "(path, ins, [])", OF this] assms
  show ?thesis by (simp add: makePath_def)
qed

text \<open>A name that begins with a NUL is empty, and what follows is what it was.\<close>

lemma path_nul_hangs: "loop path_round (CHR 0x00 # l, ins, args) = None"
proof (rule ccontr)
  assume "loop path_round (CHR 0x00 # l, ins, args) \<noteq> None"
  then obtain r where "loop path_round (CHR 0x00 # l, ins, args) = Some r" by blast
  then show False
    by (rule loop_invariant [where I = "\<lambda>(m, _, _). m = CHR 0x00 # l" and Q = "\<lambda>_. False"])
      (auto simp: path_round_def ends_name_def)
qed

section \<open>What is written is read\<close>

fun path_text :: "path_argument list \<Rightarrow> string" where
  "path_text [] = []"
| "path_text (Path_none # args) = path_text args"
| "path_text (Path_index i # args) = CHR ''['' # decimal (unat i) @ CHR '']'' # path_text args"
| "path_text (Path_key k # args) = CHR ''.'' # k @ path_text args"

text \<open>A name that does not look like anything else, and an index that can be found.\<close>

definition plain_argument :: "path_argument \<Rightarrow> bool" where
  "plain_argument a =
     (case a of
        Path_none \<Rightarrow> False
      | Path_index i \<Rightarrow> i \<noteq> - 1
      | Path_key k \<Rightarrow> k \<noteq> [] \<and> hd k \<noteq> CHR ''%'' \<and> hd k \<noteq> CHR '']'' \<and> (\<forall>c \<in> set k. \<not> ends_name c))"

lemma read_index_digits:
  "\<forall>c \<in> set ds. is_digit c \<Longrightarrow> \<not> is_digit c \<Longrightarrow>
   read_index i (ds @ c # l) = (foldl (\<lambda>v d. v * 10 + word_of_nat (digit_value d)) i ds, c # l)"
  by (induction ds arbitrary: i) auto

lemma read_index_decimal:
  "read_index 0 (decimal (unat i) @ CHR '']'' # l) = (i, CHR '']'' # l)"
proof -
  have "foldl (\<lambda>v d. v * 10 + word_of_nat (digit_value d)) 0 ds = (word_of_nat (decimal_value ds) :: 32 word)" for ds
    by (induction ds rule: rev_induct) (simp_all add: decimal_value_def)
  moreover have "\<not> is_digit CHR '']''" by (simp add: is_digit_def)
  ultimately show ?thesis
    by (subst read_index_digits) (auto intro: decimal_digits)
qed

lemma path_text_start: "path_text args = [] \<or> ends_name (hd (path_text args))"
  by (induction args rule: path_text.induct) (auto simp: ends_name_def)

lemma read_name_argument:
  assumes "plain_argument (Path_key k)" and "l = [] \<or> ends_name (hd l)"
  shows "path_round (k @ l, ins, args) = Inl (l, ins, args @ [Path_key k])"
proof -
  from assms(1) obtain c k' where k: "k = c # k'" by (cases k) (auto simp: plain_argument_def)
  from assms(1) have n: "\<forall>c \<in> set k. \<not> ends_name c" by (simp add: plain_argument_def)
  have t: "takeWhile (\<lambda>c. \<not> ends_name c) (k @ l) = k" "dropWhile (\<lambda>c. \<not> ends_name c) (k @ l) = l"
    using n assms(2) by (cases l; simp add: takeWhile_append dropWhile_append)+
  have "c_str k = k" by (rule c_str_id) (use n in \<open>auto simp: ends_name_def\<close>)
  with assms(1) n t show ?thesis
    by (simp add: path_round_def PathArgument_def k plain_argument_def ends_name_def)
qed

lemma read_path_text:
  "\<forall>a \<in> set args. plain_argument a \<Longrightarrow> loop path_round (path_text args, ins, acc) = Some (acc @ args)"
proof (induction args arbitrary: acc)
  case Nil
  then show ?case by (simp add: loop_unfold(1) path_round_def)
next
  case (Cons a args)
  then have IH: "loop path_round (path_text args, ins, acc @ [a]) = Some (acc @ a # args)" by simp
  show ?case
  proof (cases a)
    case Path_none
    with Cons.prems show ?thesis by (simp add: plain_argument_def)
  next
    case (Path_index i)
    have "char_at (decimal (unat i) @ l) \<noteq> CHR ''%''" for l
      using decimal_digits [of "CHR ''%''" "unat i"] decimal_nonempty [of "unat i"]
      by (cases "decimal (unat i)") (auto simp: char_at_def is_digit_def)
    with IH Path_index show ?thesis
      by (subst loop_unfold(2) [where s' = "(path_text args, ins, acc @ [a])"])
        (simp_all add: path_round_def read_index_decimal)
  next
    case (Path_key k)
    have "path_round (path_text (a # args), ins, acc) = Inl (k @ path_text args, ins, acc)"
      by (simp add: Path_key path_round_def)
    moreover have "path_round (k @ path_text args, ins, acc) = Inl (path_text args, ins, acc @ [a])"
      using Cons.prems read_name_argument [OF _ path_text_start] by (simp add: Path_key)
    ultimately show ?thesis using IH by (simp add: loop_unfold(2))
  qed
qed

section \<open>What is made is found\<close>

text \<open>No array has an element at the greatest index.\<close>

fun roomy :: "'r json \<Rightarrow> bool" and roomy_data :: "'r json_data \<Rightarrow> bool" where
  "roomy (Json d c) \<longleftrightarrow> roomy_data d"
| "roomy_data (J_array es) \<longleftrightarrow> (\<forall>p \<in> set es. fst p \<noteq> - 1 \<and> roomy (snd p))"
| "roomy_data (J_object ms) \<longleftrightarrow> (\<forall>p \<in> set ms. roomy (snd p))"
| "roomy_data _ \<longleftrightarrow> True"

lemma roomy_found:
  "json_ok (Json (J_array es) c) \<Longrightarrow> roomy (Json (J_array es) c) \<Longrightarrow>
   json_ok (json_found es i) \<and> roomy (json_found es i)"
  "json_ok (Json (J_object ms) c) \<Longrightarrow> roomy (Json (J_object ms) c) \<Longrightarrow>
   json_ok (json_found ms k) \<and> roomy (json_found ms k)"
  by (fastforce simp: json_found_def nullSingleton_def json_of_def split: option.split dest: map_of_SomeD)+

lemma last_key_above:
  fixes i :: "'k::linorder"
  assumes "smap_ok (<) es" and "i \<in> fst ` set es"
  shows "i \<le> fst (last es)"
  using assms
proof (induction es)
  case (Cons p es)
  then show ?case by (cases p) (auto simp: less_imp_le)
qed simp

lemma less_next: "i \<noteq> - 1 \<Longrightarrow> i < i + 1" for i :: "32 word"
proof -
  assume "i \<noteq> - 1"
  then have "i < - 1" by (simp add: word_order.not_eq_extremum)
  then have "unat i < unat (- 1 :: 32 word)" by (simp add: word_less_nat_alt)
  moreover have "unat (- 1 :: 32 word) = 2 ^ 32 - 1" by (simp add: unsigned_minus_1_eq_mask mask_eq_exp_minus_1)
  ultimately have "unat i + 1 < 2 ^ 32" by linarith
  then have "unat (i + 1) = unat i + 1" by (simp add: unat_word_ariths)
  then show ?thesis by (simp add: word_less_nat_alt)
qed

lemma valid_index_put:
  assumes "smap_ok (<) es" and "\<forall>p \<in> set es. fst p \<noteq> - 1" and "i \<noteq> - 1"
  shows "isValidIndex (Json (J_array (smap_put (<) i y es)) c) i"
proof -
  let ?es = "smap_put (<) i y es"
  have k: "fst ` set ?es = insert i (fst ` set es)" by (rule asc.keys_put)
  then have ne: "?es \<noteq> []" by auto
  then have "fst (last ?es) \<in> insert i (fst ` set es)" using k by (metis imageI last_in_set)
  with assms have "fst (last ?es) \<noteq> - 1" by auto
  then have "fst (last ?es) < fst (last ?es) + 1" by (rule less_next)
  moreover have "i \<le> fst (last ?es)"
    by (rule last_key_above) (use assms k in \<open>simp_all add: asc.put_ok\<close>)
  ultimately show ?thesis using ne by (simp add: isValidIndex_def json_size_def)
qed

lemma made_found:
  "\<forall>a \<in> set args. plain_argument a \<Longrightarrow> json_ok v \<Longrightarrow> roomy v \<Longrightarrow>
   at_node (path_steps args) (\<lambda>_. Inr x) v = Inr v' \<Longrightarrow> path_node args v' = Inr (Some x)"
proof (induction args arbitrary: v v')
  case (Cons a args)
  obtain d c where v: "v = Json d c" by (cases v)
  show ?case
  proof (cases a)
    case Path_none
    with Cons.prems show ?thesis by (simp add: plain_argument_def)
  next
    case (Path_index i)
    from Cons.prems(4) obtain es c' y where e: "array_elements v = Inr (es, c')"
      and y: "at_node (path_steps args) (\<lambda>_. Inr x) (json_found es i) = Inr y"
      and v': "v' = Json (J_array (smap_put (<) i y es)) c'"
      by (auto simp: Path_index json_element_eq split: sum.splits)
    have ok: "json_ok (Json (J_array es) c')" "roomy (Json (J_array es) c')"
      using e Cons.prems(2,3) by (auto simp: v array_elements_def split: json_data.splits)
    from Cons.IH [OF _ _ _ y] roomy_found(1) [OF ok] Cons.prems(1)
    have "path_node args y = Inr (Some x)" by simp
    moreover have "isValidIndex v' i"
      unfolding v' using ok Cons.prems(1) by (intro valid_index_put) (auto simp: Path_index plain_argument_def)
    ultimately show ?thesis
      by (simp add: Path_index v' isArray_def json_type_def json_at_def asc.lookup_put)
  next
    case (Path_key k)
    from Cons.prems(4) obtain ms c' y where e: "object_members v = Inr (ms, c')"
      and y: "at_node (path_steps args) (\<lambda>_. Inr x) (json_found ms k) = Inr y"
      and v': "v' = Json (J_object (smap_put (<) k y ms)) c'"
      by (auto simp: Path_key json_member_eq split: sum.splits)
    have ok: "json_ok (Json (J_object ms) c')" "roomy (Json (J_object ms) c')"
      using e Cons.prems(2,3) by (auto simp: v object_members_def split: json_data.splits)
    from Cons.IH [OF _ _ _ y] roomy_found(2) [OF ok] Cons.prems(1)
    have "path_node args y = Inr (Some x)" by simp
    then show ?thesis
      by (simp add: Path_key v' isObject_def json_type_def json_find_def asc.lookup_put)
  qed
qed simp

text \<open>At the greatest index the size wraps to zero, and what was made is not found.\<close>

lemma top_index_lost:
  assumes "Path_make [Path_index (- 1)] (\<lambda>_. Inr x) nullSingleton = Inr v'"
  shows "Path_resolve_default [Path_index (- 1)] v' dflt = Inr dflt"
proof -
  from assms have "v' = Json (J_array [(- 1, x)]) no_comments"
    by (simp add: Path_make_def json_element_eq array_elements_def nullSingleton_def json_of_def)
  then show ?thesis
    by (simp add: Path_resolve_default_def isArray_def json_type_def isValidIndex_def json_size_def)
qed

text \<open>C21: A path whose names are plain is read back from its text, and what
  \<^verbatim>\<open>Path::make\<close> made there and was assigned is what both forms of
  \<^verbatim>\<open>Path::resolve\<close> find, when no array has an element at the greatest
  index of 32 bits.\<close>

theorem path_roundtrip:
  assumes "\<forall>a \<in> set args. plain_argument a" and "json_ok v" and "roomy v"
    and "Path_make args (\<lambda>_. Inr x) v = Inr v'"
  shows "Path (path_text args) given = Some args \<and> Path_resolve args v' = Inr x \<and>
    Path_resolve_default args v' dflt = Inr x"
  using read_path_text [OF assms(1), of _ "[]"] made_found [OF assms(1-3)] assms(4)
  by (simp add: Path_def makePath_def Path_resolve_def Path_resolve_default_def Path_make_def)

theorem path_roundtrip_witness:
  "\<exists>v'. Path_make [Path_key ''ports'', Path_index 2] (\<lambda>_. Inr (json_of (J_bool True))) nullSingleton = Inr v' \<and>
     Path ''.ports[2]'' [] = Some [Path_key ''ports'', Path_index 2] \<and>
     Path_resolve [Path_key ''ports'', Path_index 2] v' = Inr (json_of (J_bool True) :: unit json)"
proof -
  let ?p = "[Path_key ''ports'', Path_index 2]" and ?x = "json_of (J_bool True) :: unit json"
  obtain v' where v': "Path_make ?p (\<lambda>_. Inr ?x) nullSingleton = Inr v'"
    by (simp add: Path_make_def json_member_eq json_element_eq object_members_def array_elements_def
        nullSingleton_def json_of_def json_found_def)
  have "path_text ?p = ''.ports[2]''" by code_simp
  with v' path_roundtrip [OF _ _ _ v', of "[]" ?x] show ?thesis
    by (simp add: plain_argument_def ends_name_def nullSingleton_def json_of_def)
qed

end
