(* ===== verification/Shared_Receivers.thy ===== *)
theory Shared_Receivers
  imports Subscriber Req_Client Req_Server Monitor Broker Http_Server Receive_Group
begin

text \<open>
  The public constructors of the classes that derive from \<^verbatim>\<open>Receiver\<close>. Each of them first makes the
  base class, which enters the object in a new group or in the group of a \<^verbatim>\<open>shared\<close> receiver, and
  then the implementation. When the implementation throws, the base class is destroyed again.

  \<open>r\<close> is the address of the object that is made and \<open>i\<close> that of its new group.
\<close>

section \<open>Construction and destruction\<close>

definition base_receiver :: "nat option \<Rightarrow> nat \<Rightarrow> nat \<Rightarrow> groups \<Rightarrow> (groups, unit) outcome" where
  "base_receiver shared r i g =
     (case shared of None \<Rightarrow> (Receiver_new i r g, Inr ()) | Some s \<Rightarrow> Receiver_shared s r g)"

text \<open>\<^verbatim>\<open>: Receiver(shared), _impl(new Impl(...))\<close>.\<close>

definition constructs ::
  "('w \<Rightarrow> ('w, 'a) outcome) \<Rightarrow> nat option \<Rightarrow> nat \<Rightarrow> nat \<Rightarrow> groups \<times> 'w \<Rightarrow> (groups \<times> 'w, 'a) outcome" where
  "constructs impl shared r i st =
     (let (g, w) = st in
      case base_receiver shared r i g of
        (g1, Inl e) \<Rightarrow> ((g1, w), Inl e)
      | (g1, Inr _) \<Rightarrow>
          (case impl w of
             (w1, Inl e) \<Rightarrow> ((fst (Receiver_delete r g1), w1), Inl e)
           | (w1, Inr x) \<Rightarrow> ((g1, w1), Inr x)))"

text \<open>A destructor: the members go first, then the base class.\<close>

definition destructs :: "('w \<Rightarrow> 'w) \<Rightarrow> nat \<Rightarrow> groups \<times> 'w \<Rightarrow> (groups \<times> 'w, unit) outcome" where
  "destructs impl r st =
     (let (g, w) = st; w1 = impl w; (g1, x) = Receiver_delete r g in ((g1, w1), x))"

section \<open>The constructors\<close>

text \<open>\<^verbatim>\<open>Subscriber\<close>.\<close>

definition new_Subscriber where
  "new_Subscriber Z S os h =
     constructs (Subscriber_default Z S os h) None"

definition new_Subscriber_session where
  "new_Subscriber_session Z S os h session =
     constructs (Subscriber_session Z S os h session) None"

definition new_Subscriber_uris where
  "new_Subscriber_uris Z S h print uris =
     constructs (Subscriber_uris Z S h print uris) None"

definition new_Subscriber_shared where
  "new_Subscriber_shared Z S os h shared =
     constructs (Subscriber_session Z S os h DEFAULT_SESSION) (Some shared)"

definition new_Subscriber_session_shared where
  "new_Subscriber_session_shared Z S os h session shared =
     constructs (Subscriber_session Z S os h session) (Some shared)"

definition new_Subscriber_uris_shared where
  "new_Subscriber_uris_shared Z S h print uris shared =
     constructs (Subscriber_uris Z S h print uris) (Some shared)"

text \<open>\<^verbatim>\<open>Client\<close>.\<close>

definition new_Client where
  "new_Client Z S os parse print =
     constructs (Client_default Z S os parse print) None"

definition new_Client_session where
  "new_Client_session Z S os parse print session =
     constructs (Client_session Z S os parse print session) None"

definition new_Client_uris where
  "new_Client_uris Z S print uris =
     constructs (Client_uris Z S print uris) None"

definition new_Client_shared where
  "new_Client_shared Z S os parse print shared =
     constructs (Client_session Z S os parse print DEFAULT_SESSION) (Some shared)"

definition new_Client_session_shared where
  "new_Client_session_shared Z S os parse print session shared =
     constructs (Client_session Z S os parse print session) (Some shared)"

definition new_Client_uris_shared where
  "new_Client_uris_shared Z S print uris shared =
     constructs (Client_uris Z S print uris) (Some shared)"

text \<open>\<^verbatim>\<open>Server\<close>.\<close>

definition new_Server where
  "new_Server Z S os print =
     constructs (Server_default Z S os print) None"

definition new_Server_session where
  "new_Server_session Z S os print session =
     constructs (Server_session Z S os print session) None"

definition new_Server_uri where
  "new_Server_uri Z S os print uri =
     constructs (Server_uri Z S os print uri) None"

definition new_Server_uri_session where
  "new_Server_uri_session Z S os print uri session =
     constructs (Server_create Z S os print uri session) None"

definition new_Server_shared where
  "new_Server_shared Z S os print shared =
     constructs (Server_create Z S os print URI_default DEFAULT_SESSION) (Some shared)"

definition new_Server_session_shared where
  "new_Server_session_shared Z S os print session shared =
     constructs (Server_create Z S os print URI_default session) (Some shared)"

definition new_Server_uri_shared where
  "new_Server_uri_shared Z S os print uri shared =
     constructs (Server_create Z S os print uri DEFAULT_SESSION) (Some shared)"

definition new_Server_uri_session_shared where
  "new_Server_uri_session_shared Z S os print uri session shared =
     constructs (Server_create Z S os print uri session) (Some shared)"

text \<open>\<^verbatim>\<open>Monitor\<close> and \<^verbatim>\<open>connection::Broker\<close>, which has no constructor without a receiver.\<close>

definition new_Monitor where
  "new_Monitor Z S uuid is_publisher sn =
     constructs (Monitor_create Z S uuid is_publisher sn) None"

definition new_Monitor_shared where
  "new_Monitor_shared Z S uuid is_publisher sn shared =
     constructs (Monitor_create Z S uuid is_publisher sn) (Some shared)"

definition new_Broker where
  "new_Broker Z S os parse print name shared mode =
     constructs (Broker_create Z S os parse print name mode) (Some shared)"

definition new_Broker_address where
  "new_Broker_address Z S os parse print address shared =
     constructs (Broker_create_address Z S os parse print address) (Some shared)"

text \<open>\<^verbatim>\<open>http::Server\<close>. \<open>inproc\<close> is made from the address of the implementation.\<close>

definition new_Http_uri_shared where
  "new_Http_uri_shared Z S os parse listen inproc uri shared =
     constructs (Http_create Z S os parse listen inproc uri DEFAULT_SESSION) (Some shared)"

definition new_Http_uri where
  "new_Http_uri Z S os parse listen inproc uri =
     constructs (Http_create Z S os parse listen inproc uri DEFAULT_SESSION) None"

definition new_Http_shared where
  "new_Http_shared Z S os parse listen inproc shared =
     constructs (Http_create Z S os parse listen inproc URI_default DEFAULT_SESSION) (Some shared)"

definition new_Http where
  "new_Http Z S os parse listen inproc =
     constructs (Http_create Z S os parse listen inproc URI_default DEFAULT_SESSION) None"

text \<open>\<^verbatim>\<open>Server::parse\<close> makes a server when the command line asks for one.\<close>

definition Http_parse_shared ::
  "'e zmq \<Rightarrow> 'e servus \<Rightarrow> os \<Rightarrow> uri_parser \<Rightarrow>
   (string \<Rightarrow> string \<Rightarrow> 'e \<Rightarrow> 'e \<times> (exn + string \<times> string)) \<Rightarrow> string \<Rightarrow> string list \<Rightarrow> nat \<Rightarrow>
   nat \<Rightarrow> nat \<Rightarrow> groups \<times> 'e zworld \<Rightarrow> (groups \<times> 'e zworld, 'e http_server option) outcome" where
  "Http_parse_shared Z S os parse listen inproc argv shared r i st =
     (let param = getServerParameter argv
      in if param = [] then (st, Inr None)
         else
           (case URI_string parse param of
              Inl e \<Rightarrow> (st, Inl e)
            | Inr uri \<Rightarrow>
                and_then (new_Http_uri_shared Z S os parse listen inproc uri shared r i st)
                  (\<lambda>srv st'. (st', Inr (Some srv)))))"

lemmas constructor_defs =
  new_Subscriber_def new_Subscriber_session_def new_Subscriber_uris_def
  new_Subscriber_shared_def new_Subscriber_session_shared_def new_Subscriber_uris_shared_def
  new_Client_def new_Client_session_def new_Client_uris_def new_Client_shared_def
  new_Client_session_shared_def new_Client_uris_shared_def new_Server_def
  new_Server_session_def new_Server_uri_def new_Server_uri_session_def new_Server_shared_def
  new_Server_session_shared_def new_Server_uri_shared_def new_Server_uri_session_shared_def
  new_Monitor_def new_Monitor_shared_def new_Broker_def new_Broker_address_def
  new_Http_uri_shared_def new_Http_uri_def new_Http_shared_def new_Http_def

section \<open>Groups of objects\<close>

text \<open>
  What a constructor is given: an address without an object, a new group, and a receiver that is
  alive when it shares one.
\<close>

definition fresh_object :: "nat option \<Rightarrow> nat \<Rightarrow> nat \<Rightarrow> groups \<Rightarrow> bool" where
  "fresh_object shared r i g \<longleftrightarrow>
     gr_impl g r = None \<and> gr_shared g i = [] \<and> (\<forall>s. shared = Some s \<longrightarrow> gr_impl g s \<noteq> None)"

text \<open>
  The objects that are alive, their groups and the world; \<open>'o\<close> is the sum of their classes.
  Constructors return or throw, destructors run, and operations change objects and the world.
\<close>

inductive objects :: "(nat \<Rightarrow> 'o option) \<times> groups \<times> 'w \<Rightarrow> bool" where
  start: "objects (\<lambda>_. None, \<lparr>gr_impl = \<lambda>_. None, gr_shared = \<lambda>_. []\<rparr>, w)"
| made: "objects (heap, g, w) \<Longrightarrow> fresh_object shared r i g \<Longrightarrow>
    constructs impl shared r i (g, w) = ((g', w'), Inr x) \<Longrightarrow> objects (heap(r \<mapsto> x), g', w')"
| thrown: "objects (heap, g, w) \<Longrightarrow> fresh_object shared r i g \<Longrightarrow>
    constructs impl shared r i (g, w) = ((g', w'), Inl (e :: exn) :: exn + 'o) \<Longrightarrow> objects (heap, g', w')"
| deleted: "objects (heap, g, w) \<Longrightarrow> heap r = Some x \<Longrightarrow>
    destructs (destroy x) r (g, w) = ((g', w'), y) \<Longrightarrow> objects (heap(r := None), g', w')"
| other: "objects (heap, g, w) \<Longrightarrow> dom heap' = dom heap \<Longrightarrow> objects (heap', g, w')"

lemma base_receiver_fresh:
  assumes "groups_reach g" and "groups_ok g" and "fresh_object shared r i g"
  obtains g1 where "base_receiver shared r i g = (g1, Inr ())" and "groups_reach g1"
    and "fst (Receiver_delete r g1) = g"
proof (cases shared)
  case None
  have "groups_reach (Receiver_new i r g)"
    using assms by (auto intro: groups_reach.new simp: fresh_object_def)
  moreover have "fst (Receiver_delete r (Receiver_new i r g)) = g"
    using assms(3) by (simp add: Receiver_delete_def Receiver_new_def group_add_def group_remove_def
        fresh_object_def fun_upd_idem)
  ultimately show ?thesis using None by (intro that) (simp_all add: base_receiver_def)
next
  case (Some s)
  with assms(3) obtain j where j: "gr_impl g s = Some j" by (auto simp: fresh_object_def)
  then obtain g1 where g1: "Receiver_shared s r g = (g1, Inr ())" by (simp add: Receiver_shared_def)
  have "groups_reach g1"
    using assms(1,3) g1 by (auto intro: groups_reach.shared simp: fresh_object_def)
  moreover have "r \<notin> set (gr_shared g j)"
    using assms(2,3) by (simp add: groups_ok_def fresh_object_def)
  then have "fst (Receiver_delete r g1) = g"
    using assms(3) j g1 by (auto simp: Receiver_delete_def Receiver_shared_def group_add_def
        group_remove_def fresh_object_def fun_upd_idem Let_def)
  ultimately show ?thesis using Some g1 by (intro that) (simp_all add: base_receiver_def)
qed

lemma constructs_Inr:
  assumes "groups_reach g" and "fresh_object shared r i g"
    and "constructs impl shared r i (g, w) = ((g', w'), Inr x)"
  shows "groups_reach g' \<and> gr_impl g' = (gr_impl g)(r \<mapsto>
    (case shared of None \<Rightarrow> i | Some s \<Rightarrow> the (gr_impl g s)))"
proof -
  have "groups_ok g" using assms(1) by (rule groups_reach_ok)
  with assms(1) obtain g1 where b: "base_receiver shared r i g = (g1, Inr ())" "groups_reach g1"
    using assms(2) by (rule base_receiver_fresh)
  with assms(3) have g': "g' = g1" by (auto simp: constructs_def split: prod.splits sum.splits)
  have "gr_impl g1 = (gr_impl g)(r \<mapsto> (case shared of None \<Rightarrow> i | Some s \<Rightarrow> the (gr_impl g s)))"
    using b(1) by (auto simp: base_receiver_def Receiver_new_def Receiver_shared_def group_add_def
        Let_def split: option.splits)
  with b(2) g' show ?thesis by simp
qed

lemma constructs_Inl:
  assumes "groups_reach g" and "fresh_object shared r i g"
    and "constructs impl shared r i (g, w) = ((g', w'), Inl e)"
  shows "g' = g"
proof -
  have "groups_ok g" using assms(1) by (rule groups_reach_ok)
  with assms(1) obtain g1 where "base_receiver shared r i g = (g1, Inr ())" "fst (Receiver_delete r g1) = g"
    using assms(2) by (rule base_receiver_fresh)
  with assms(3) show ?thesis by (auto simp: constructs_def split: prod.splits sum.splits)
qed

lemma objects_reach:
  "objects (heap, g, w) \<Longrightarrow> groups_reach g \<and> dom heap = dom (gr_impl g)"
proof (induction "(heap, g, w)" arbitrary: heap g w rule: objects.induct)
  case start
  then show ?case by (simp add: groups_reach.empty dom_def)
next
  case (made heap g w shared r i impl g' w' x)
  then show ?case using constructs_Inr [OF _ made.hyps(3,4)] by simp
next
  case (thrown heap g w shared r i impl g' w' e)
  then show ?case using constructs_Inl [OF _ thrown.hyps(3,4)] by simp
next
  case (deleted heap g w r x destroy g' w' y)
  then obtain j where j: "gr_impl g r = Some j" by blast
  with deleted.hyps(4) have d: "Receiver_delete r g = (g', Inr ())"
    by (auto simp: destructs_def Receiver_delete_def Let_def)
  then have "dom (gr_impl g') = dom (gr_impl g) - {r}"
    using j by (auto simp: Receiver_delete_def group_remove_def Let_def split: if_splits)
  with deleted.hyps(2) groups_reach.delete [OF _ d] show ?case by simp
next
  case (other heap g w heap' w')
  then show ?case by simp
qed

text \<open>C11: However the objects of a program are constructed, alone or sharing a receiver,
  and destroyed, the objects that are alive are those that have a group; an object is listed in a
  group exactly when it points to it, and only once; a constructor that throws leaves every group
  as it was, and one that returns has entered its object in the group of the shared
  receiver.\<close>

theorem objects_in_groups:
  assumes "objects (heap, g, w)"
  shows "(heap r \<noteq> None \<longleftrightarrow> gr_impl g r \<noteq> None) \<and>
    (r \<in> set (gr_shared g i) \<longleftrightarrow> gr_impl g r = Some i) \<and> distinct (gr_shared g i) \<and>
    (fresh_object shared r' i' g \<longrightarrow> constructs impl shared r' i' (g, w) = ((g', w'), y) \<longrightarrow>
       (case y of Inl e \<Rightarrow> g' = g
        | Inr x \<Rightarrow> \<forall>s. shared = Some s \<longrightarrow> gr_impl g' r' = gr_impl g s))"
proof -
  note reach = objects_reach [OF assms]
  then have ok: "groups_ok g" by (simp add: groups_reach_ok)
  have "case y of Inl e \<Rightarrow> g' = g | Inr x \<Rightarrow> \<forall>s. shared = Some s \<longrightarrow> gr_impl g' r' = gr_impl g s"
    if f: "fresh_object shared r' i' g" and c: "constructs impl shared r' i' (g, w) = ((g', w'), y)"
  proof (cases y)
    case (Inl e)
    with reach f c constructs_Inl show ?thesis by fastforce
  next
    case (Inr x)
    with reach f c constructs_Inr [of g shared r' i' impl w g' w' x] show ?thesis
      by (auto simp: fresh_object_def)
  qed
  with reach ok show ?thesis by (auto simp: groups_ok_def dom_def)
qed

theorem objects_in_groups_witness:
  "\<exists>heap g w. objects (heap :: nat \<Rightarrow> net client option, g, w :: net zworld) \<and> heap 2 \<noteq> None \<and>
     gr_shared g 5 = [1, 2] \<and> gr_impl g 2 = Some 5"
proof -
  let ?e = "\<lparr>gr_impl = \<lambda>_. None, gr_shared = \<lambda>_. []\<rparr> :: groups"
  let ?g1 = "Receiver_new 5 1 ?e" and ?Z = sample_zmq and ?S = sample_servus
  let ?g2 = "fst (Receiver_shared 1 2 ?g1)"
  have client: "\<exists>w' cl. Client_uris ?Z ?S sample_print [] w = (w', Inr cl)" for w
    by (fastforce simp: Client_uris_def Client_body_def Receiver_plain_def sample_servus_def Let_def)
  obtain w1 cl1 where c1: "Client_uris ?Z ?S sample_print [] (sample_world []) = (w1, Inr cl1)"
    using client by blast
  obtain w2 cl2 where c2: "Client_uris ?Z ?S sample_print [] w1 = (w2, Inr cl2)" using client by blast
  have 1: "new_Client_uris ?Z ?S sample_print [] 1 5 (?e, sample_world []) = ((?g1, w1), Inr cl1)"
    by (simp add: new_Client_uris_def constructs_def base_receiver_def c1)
  have 2: "new_Client_uris_shared ?Z ?S sample_print [] 1 2 6 (?g1, w1) = ((?g2, w2), Inr cl2)"
    by (simp add: new_Client_uris_shared_def constructs_def base_receiver_def c2 Receiver_shared_def
        Receiver_new_def group_add_def)
  have "objects ([1 \<mapsto> cl1], ?g1, w1)"
    by (rule objects.made [OF objects.start _ 1 [unfolded new_Client_uris_def]])
      (simp add: fresh_object_def)
  then have o2: "objects ([1 \<mapsto> cl1, 2 \<mapsto> cl2], ?g2, w2)"
    by (rule objects.made [OF _ _ 2 [unfolded new_Client_uris_shared_def]])
      (simp add: fresh_object_def Receiver_new_def group_add_def)
  have s: "gr_shared ?g2 5 = [1, 2]"
    by (simp add: Receiver_shared_def Receiver_new_def group_add_def)
  then have "2 \<in> set (gr_shared ?g2 5)" by simp
  with objects_in_groups [OF o2, of 2 5, THEN conjunct2, THEN conjunct1]
  have "gr_impl ?g2 2 = Some 5" by (rule iffD1)
  with o2 s show ?thesis
    by (intro exI [of _ "[1 \<mapsto> cl1, 2 \<mapsto> cl2]"] exI [of _ ?g2] exI [of _ w2] conjI) simp_all
qed

end
