(* ===== verification/Json_Iterator.thy ===== *)
theory Json_Iterator
  imports Json_Value
begin

text \<open>
  The iterators of \<^verbatim>\<open>Json::Value\<close>: a position in the entries of an array or object, which are in the
  order of their keys. The other values have iterators that point nowhere, all of them equal.
  Going from \<^verbatim>\<open>begin()\<close> to \<^verbatim>\<open>end()\<close> visits every entry once and in order.
\<close>

section \<open>Iterators\<close>

datatype json_key = Index_key "32 word" | Name_key string

record 'r value_iterator =
  it_entries :: "(json_key \<times> 'r json) list"
  it_pos :: nat
  it_null :: bool

text \<open>An iterator that is made by default, and one at a position of a map.\<close>

definition ValueIteratorBase_null :: "'r value_iterator" where
  "ValueIteratorBase_null = \<lparr>it_entries = [], it_pos = 0, it_null = True\<rparr>"

definition ValueIteratorBase :: "(json_key \<times> 'r json) list \<Rightarrow> nat \<Rightarrow> 'r value_iterator" where
  "ValueIteratorBase es n = \<lparr>it_entries = es, it_pos = n, it_null = False\<rparr>"

definition json_entries :: "'r json \<Rightarrow> (json_key \<times> 'r json) list option" where
  "json_entries v =
     (case j_data v of
        J_array es \<Rightarrow> Some (map (\<lambda>(i, x). (Index_key i, x)) es)
      | J_object ms \<Rightarrow> Some (map (\<lambda>(k, x). (Name_key k, x)) ms)
      | _ \<Rightarrow> None)"

definition json_begin :: "'r json \<Rightarrow> 'r value_iterator" where
  "json_begin v =
     (case json_entries v of None \<Rightarrow> ValueIteratorBase_null | Some es \<Rightarrow> ValueIteratorBase es 0)"

definition json_end :: "'r json \<Rightarrow> 'r value_iterator" where
  "json_end v =
     (case json_entries v of None \<Rightarrow> ValueIteratorBase_null | Some es \<Rightarrow> ValueIteratorBase es (length es))"

text \<open>What an iterator points to; to follow one that points to no entry is undefined.\<close>

definition it_entry :: "'r value_iterator \<Rightarrow> exn + json_key \<times> 'r json" where
  "it_entry it =
     (if it_pos it < length (it_entries it) then Inr (it_entries it ! it_pos it)
      else Inl (Undefined ''iterator without an entry''))"

definition deref :: "'r value_iterator \<Rightarrow> exn + 'r json" where
  "deref it = map_sum id snd (it_entry it)"

definition increment :: "'r value_iterator \<Rightarrow> exn + 'r value_iterator" where
  "increment it =
     (if it_pos it < length (it_entries it) then Inr (it\<lparr>it_pos := it_pos it + 1\<rparr>)
      else Inl (Undefined ''increment of an iterator at the end''))"

definition decrement :: "'r value_iterator \<Rightarrow> exn + 'r value_iterator" where
  "decrement it =
     (if 0 < it_pos it then Inr (it\<lparr>it_pos := it_pos it - 1\<rparr>)
      else Inl (Undefined ''decrement of an iterator at the beginning''))"

text \<open>Iterators that are compared belong to one value.\<close>

definition it_equal :: "'r value_iterator \<Rightarrow> 'r value_iterator \<Rightarrow> bool" where
  "it_equal it other = (if it_null it then it_null other else it_pos it = it_pos other)"

definition distance_round ::
  "nat \<Rightarrow> 'r value_iterator \<times> int \<Rightarrow> 'r value_iterator \<times> int + (exn + int)" where
  "distance_round until st =
     (let (it, n) = st
      in if it_pos it = until then Inr (Inr n)
         else (case increment it of Inl e \<Rightarrow> Inr (Inl e) | Inr it1 \<Rightarrow> Inl (it1, n + 1)))"

definition computeDistance :: "'r value_iterator \<Rightarrow> 'r value_iterator \<Rightarrow> (exn + int) option" where
  "computeDistance it other =
     (if it_null it \<and> it_null other then Some (Inr 0)
      else loop (distance_round (it_pos other)) (it, 0))"

definition it_key :: "'r value_iterator \<Rightarrow> exn + 's json" where
  "it_key it = map_sum id (\<lambda>(k, _). json_of
     (case k of Index_key i \<Rightarrow> J_uint (ucast i) | Name_key s \<Rightarrow> J_string s)) (it_entry it)"

definition it_index :: "'r value_iterator \<Rightarrow> exn + 32 word" where
  "it_index it = map_sum id (\<lambda>(k, _). case k of Index_key i \<Rightarrow> i | Name_key s \<Rightarrow> - 1) (it_entry it)"

text \<open>\<^verbatim>\<open>memberName\<close> with and without the end of the name; \<open>None\<close> is a null pointer.\<close>

definition it_memberName_end :: "'r value_iterator \<Rightarrow> exn + string option" where
  "it_memberName_end it =
     map_sum id (\<lambda>(k, _). case k of Index_key i \<Rightarrow> None | Name_key s \<Rightarrow> Some s) (it_entry it)"

definition it_memberName :: "'r value_iterator \<Rightarrow> exn + string" where
  "it_memberName it =
     map_sum id (\<lambda>(k, _). case k of Index_key i \<Rightarrow> [] | Name_key s \<Rightarrow> c_str s) (it_entry it)"

definition it_name :: "'r value_iterator \<Rightarrow> exn + string" where
  "it_name it = map_sum id (case_option [] id) (it_memberName_end it)"

section \<open>From the beginning to the end\<close>

text \<open>\<^verbatim>\<open>for (it = value.begin(); it != value.end(); ++it)\<close>, which collects what it finds.\<close>

definition visit_round ::
  "'r json \<Rightarrow> 'r value_iterator \<times> (json_key \<times> 'r json) list \<Rightarrow>
   'r value_iterator \<times> (json_key \<times> 'r json) list + (exn + (json_key \<times> 'r json) list)" where
  "visit_round v st =
     (let (it, seen) = st
      in if it_equal it (json_end v) then Inr (Inr seen)
         else (case (it_entry it, increment it) of
                 (Inr x, Inr it1) \<Rightarrow> Inl (it1, seen @ [x])
               | (Inl e, _) \<Rightarrow> Inr (Inl e)
               | (_, Inl e) \<Rightarrow> Inr (Inl e)))"

lemma visit_from:
  "n \<le> length es \<Longrightarrow> json_entries v = Some es \<Longrightarrow>
   loop (visit_round v) (ValueIteratorBase es n, take n es) = Some (Inr es)"
proof (induction n rule: inc_induct)
  case base
  then show ?case
    by (subst loop_unfold(1)) (simp_all add: visit_round_def it_equal_def json_end_def ValueIteratorBase_def)
next
  case (step n)
  then have "visit_round v (ValueIteratorBase es n, take n es) =
      Inl (ValueIteratorBase es (Suc n), take (Suc n) es)"
    by (simp add: visit_round_def it_equal_def json_end_def ValueIteratorBase_def it_entry_def
        increment_def take_Suc_conv_app_nth)
  with step show ?case by (simp add: loop_unfold(2))
qed

lemma distance_from:
  "n \<le> length es \<Longrightarrow>
   loop (distance_round (length es)) (ValueIteratorBase es n, int n) = Some (Inr (int (length es)))"
proof (induction n rule: inc_induct)
  case base
  then show ?case by (subst loop_unfold(1)) (simp_all add: distance_round_def ValueIteratorBase_def)
next
  case (step n)
  then have "distance_round (length es) (ValueIteratorBase es n, int n) =
      Inl (ValueIteratorBase es (Suc n), int (Suc n))"
    by (simp add: distance_round_def ValueIteratorBase_def increment_def)
  with step show ?case by (simp add: loop_unfold(2))
qed

lemma iteration_in_order:
  "loop (visit_round v) (json_begin v, []) = Some (Inr (case_option [] id (json_entries v))) \<and>
   computeDistance (json_begin v) (json_end v) = Some (Inr (int (length (case_option [] id (json_entries v)))))"
proof (cases "json_entries v")
  case None
  then show ?thesis
    by (simp add: json_begin_def json_end_def loop_unfold(1) visit_round_def it_equal_def
        computeDistance_def ValueIteratorBase_null_def)
next
  case (Some es)
  have "it_pos (ValueIteratorBase es (length es)) = length es" "\<not> it_null (ValueIteratorBase es 0)"
    by (simp_all add: ValueIteratorBase_def)
  with Some visit_from [of 0 es v] distance_from [of 0 es] show ?thesis
    by (simp add: json_begin_def json_end_def computeDistance_def)
qed

end
