(* ===== verification/Json_Stream_Input.thy ===== *)
theory Json_Stream_Input
  imports Json_Char_Reader Json_Stream_Text
begin

text \<open>
  Reading of JSON from a stream: \<^verbatim>\<open>parseFromStream\<close> and the operator \<^verbatim>\<open>>>\<close>, which reads what the
  operator \<^verbatim>\<open><<\<close> has written.
\<close>

definition parseFromStream ::
  "'r double_ops \<Rightarrow> 'r scanner \<Rightarrow> 'r json \<Rightarrow> string \<Rightarrow> 'r json \<Rightarrow> ('r, bool \<times> string) reading" where
  "parseFromStream R S settings sin root =
     (let rd = Reader_new root Features_all
      in case newCharReader R settings of
           Inl e \<Rightarrow> Some (rd, Inl e)
         | Inr cr \<Rightarrow> CharReader_parse cr S sin root rd)"

text \<open>The value that is read, and whether it throws.\<close>

definition json_input ::
  "'r double_ops \<Rightarrow> 'r scanner \<Rightarrow> string \<Rightarrow> 'r json \<Rightarrow> ('r json, unit) outcome option" where
  "json_input R S sin root =
     (case CharReaderBuilder of
        Inl e \<Rightarrow> Some (root, Inl e)
      | Inr settings \<Rightarrow>
          (case parseFromStream R S settings sin root of
             None \<Rightarrow> None
           | Some (rd, Inl e) \<Rightarrow> Some (rd_root rd, Inl e)
           | Some (rd, Inr (ok, errs)) \<Rightarrow>
               Some (rd_root rd, if ok then Inr () else Inl (Runtime_error errs))))"

text \<open>C15: what the operator \<^verbatim>\<open><<\<close> writes of a value is read back by
  the operator \<^verbatim>\<open>>>\<close>, which does not throw and leaves the value that was
  written, with its integers in the type the reader gives them: for every value without reals and
  of which no comment is to be written, when its text is shorter than 2 to the 30 and has no
  single quote and no \<^verbatim>\<open>-I\<close>.\<close>

theorem output_is_input:
  assumes "json_output R real [] v = Inr doc"
    and "quiet default_writer v" and "small_objects v" and "json_plain v" and "json_depth v < stackLimit"
    and "plain_doc doc"
  shows "json_input R S doc root = Some (Json (j_data (json_normal v)) (j_comments root), Inr ())"
proof -
  obtain settings :: "'a json" where s: "StreamWriterBuilder = Inr settings" using StreamWriterBuilder by blast
  obtain settings' :: "'a json" where s': "CharReaderBuilder = Inr settings'" using CharReaderBuilder by blast
  note n = newStreamWriter_default [OF s, of R] and n' = newCharReader_default [OF s', of R]
  have out: "sm_out (Built_write real default_writer v BuiltStyledStreamWriter) = doc"
    using assms(1) by (simp add: json_output_def s n BuiltStyledStreamWriter_def)
  have "spaces (bs_indentation default_writer)" "bs_nullSymbol default_writer \<noteq> []"
    by (simp_all add: default_writer_def json_space_def)
  from built_document_read [OF n this assms(2-5), of "Reader_new root Features_all" "[]" "scan_double S" real root True]
  obtain rd where rd: "Reader_parse (scan_double S) doc root True (Reader_new root Features_all) = Some (rd, Inr True)"
    "rd_root rd = Json (j_data (json_normal v)) (j_comments root)"
    by (auto simp: out parse_string_def Reader_new_def Features_all_def)
  have "CharReader_parse (True, default_features) S doc root (Reader_new root Features_all) =
      Some (rd, Inr (True, getFormattedErrorMessages rd))"
    by (simp add: default_reader_parse [OF assms(6) numbers_agree_same] rd(1))
  then show ?thesis by (simp add: json_input_def s' parseFromStream_def n' rd(2))
qed

theorem output_is_input_witness:
  "\<exists>doc. json_output sample_doubles (plain_printf show_int) [] (json_of (J_object [(''a'', json_of (J_bool True))])) = Inr doc \<and>
     json_input sample_doubles sample_scanner doc nullSingleton =
       Some (json_of (J_object [(''a'', json_of (J_bool True))]), Inr ())"
proof -
  let ?v = "json_of (J_object [(''a'', json_of (J_bool True))]) :: int json"
  let ?doc = "CHR ''{'' # CHR 0x0A # CHR 0x09 # CHR 0x22 # CHR ''a'' # CHR 0x22 # '' : true'' @ [CHR 0x0A, CHR ''}'']"
  obtain settings :: "int json" where s: "StreamWriterBuilder = Inr settings" using StreamWriterBuilder by blast
  have "sm_out (Built_write (plain_printf show_int) default_writer ?v BuiltStyledStreamWriter) = ?doc" by code_simp
  then have doc: "json_output sample_doubles (plain_printf show_int) [] ?v = Inr ?doc"
    by (simp add: json_output_def s newStreamWriter_default [OF s] BuiltStyledStreamWriter_def)
  have "plain_doc ?doc" by (auto simp: plain_doc_def append_eq_Cons_conv Cons_eq_append_conv)
  from output_is_input [OF doc _ _ _ _ this, of sample_scanner nullSingleton] doc
  show ?thesis
    by (simp add: quiet_def default_writer_def json_of_def stackLimit_def nullSingleton_def)
qed

end
