(* ===== verification/Context.thy ===== *)
theory Context
  imports Zeq_Prelude "HOL-Library.Multiset"
begin

text \<open>
  The ZeroMQ context that all sockets of a process share (\<^verbatim>\<open>detail/context.cpp\<close>). \<^verbatim>\<open>getContext\<close> keeps a
  weak pointer to it; those who call it own it together, and the last one destroys it. A mutex
  makes each call one step. A shared pointer is the number of its control block, which counts its
  owners; 0 is the null pointer. What \<^verbatim>\<open>zmq_ctx_new\<close> returns is an argument.
\<close>

section \<open>Shared and weak pointers\<close>

record control_block =
  cb_ptr :: nat
  cb_uses :: nat

datatype context_call = Ctx_new nat | Ctx_destroy nat

record context_state =
  cx_blocks :: "control_block list"
  cx_weak :: "nat option"
  cx_calls :: "context_call list"

definition context_start :: context_state where
  "context_start = \<lparr>cx_blocks = [], cx_weak = None, cx_calls = []\<rparr>"

definition alive :: "context_state \<Rightarrow> nat \<Rightarrow> bool" where
  "alive st b \<longleftrightarrow> b < length (cx_blocks st) \<and> 0 < cb_uses (cx_blocks st ! b)"

definition context_of :: "context_state \<Rightarrow> nat \<Rightarrow> nat" where
  "context_of st b = cb_ptr (cx_blocks st ! b)"

definition add_owner :: "nat \<Rightarrow> context_state \<Rightarrow> context_state" where
  "add_owner b st =
     st\<lparr>cx_blocks := (cx_blocks st)[b := (cx_blocks st ! b)\<lparr>cb_uses := cb_uses (cx_blocks st ! b) + 1\<rparr>]\<rparr>"

text \<open>The last owner calls the deleter, also with a null pointer.\<close>

definition release_context :: "nat \<Rightarrow> context_state \<Rightarrow> context_state" where
  "release_context b st =
     (let c = cx_blocks st ! b;
          st1 = st\<lparr>cx_blocks := (cx_blocks st)[b := c\<lparr>cb_uses := cb_uses c - 1\<rparr>]\<rparr>
      in if cb_uses c = 1 then st1\<lparr>cx_calls := cx_calls st1 @ [Ctx_destroy (cb_ptr c)]\<rparr> else st1)"

text \<open>\<^verbatim>\<open>weak_ptr::lock\<close>, and \<^verbatim>\<open>shared_ptr::reset\<close> with a pointer that is new.\<close>

definition lock_context :: "context_state \<Rightarrow> context_state \<times> nat option" where
  "lock_context st =
     (case cx_weak st of
        None \<Rightarrow> (st, None)
      | Some b \<Rightarrow> if alive st b then (add_owner b st, Some b) else (st, None))"

definition reset_context :: "nat \<Rightarrow> nat option \<Rightarrow> context_state \<Rightarrow> context_state \<times> nat" where
  "reset_context p old st =
     (let st1 = st\<lparr>cx_blocks := cx_blocks st @ [\<lparr>cb_ptr = p, cb_uses = 1\<rparr>], cx_calls := cx_calls st @ [Ctx_new p]\<rparr>
      in (case old of None \<Rightarrow> st1 | Some b \<Rightarrow> release_context b st1, length (cx_blocks st)))"

text \<open>\<open>p\<close> is what \<^verbatim>\<open>zmq_ctx_new\<close> returns if it is called.\<close>

definition getContext :: "nat \<Rightarrow> context_state \<Rightarrow> context_state \<times> nat" where
  "getContext p st =
     (let (st1, shared) = lock_context st
      in case shared of
           Some b \<Rightarrow>
             if context_of st1 b \<noteq> 0 then (st1, b)
             else (let (st2, b') = reset_context p shared st1 in (st2\<lparr>cx_weak := Some b'\<rparr>, b'))
         | None \<Rightarrow> (let (st2, b') = reset_context p shared st1 in (st2\<lparr>cx_weak := Some b'\<rparr>, b')))"

section \<open>Reachable states\<close>

text \<open>
  Calls of \<^verbatim>\<open>getContext\<close>, copies and destructions of shared pointers that somebody owns, in any order.
  A new context is not one that is still in use.
\<close>

inductive context_reach :: "context_state \<Rightarrow> bool" where
  start: "context_reach context_start"
| get: "context_reach st \<Longrightarrow> p = 0 \<or> (\<forall>b. alive st b \<longrightarrow> context_of st b \<noteq> p) \<Longrightarrow>
    getContext p st = (st', b) \<Longrightarrow> context_reach st'"
| copy: "context_reach st \<Longrightarrow> alive st b \<Longrightarrow> context_reach (add_owner b st)"
| release: "context_reach st \<Longrightarrow> alive st b \<Longrightarrow> context_reach (release_context b st)"

text \<open>The contexts that were created, those that were destroyed, and those in use.\<close>

definition created :: "context_state \<Rightarrow> nat multiset" where
  "created st = mset (concat (map (\<lambda>c. case c of Ctx_new p \<Rightarrow> [p] | Ctx_destroy p \<Rightarrow> []) (cx_calls st)))"

definition destroyed :: "context_state \<Rightarrow> nat multiset" where
  "destroyed st = mset (concat (map (\<lambda>c. case c of Ctx_new p \<Rightarrow> [] | Ctx_destroy p \<Rightarrow> [p]) (cx_calls st)))"

definition in_use :: "context_state \<Rightarrow> nat multiset" where
  "in_use st = mset (map cb_ptr (filter (\<lambda>c. 0 < cb_uses c) (cx_blocks st)))"

definition context_ok :: "context_state \<Rightarrow> bool" where
  "context_ok st \<longleftrightarrow>
     (\<forall>b. alive st b \<longrightarrow> context_of st b \<noteq> 0 \<longrightarrow> cx_weak st = Some b) \<and>
     (\<forall>b. cx_weak st = Some b \<longrightarrow> b < length (cx_blocks st)) \<and>
     created st = destroyed st + in_use st"

lemma in_use_update:
  assumes "b < length bs"
  shows "mset (map cb_ptr (filter (\<lambda>c. 0 < cb_uses c) (bs[b := c]))) + 
      (if 0 < cb_uses (bs ! b) then {#cb_ptr (bs ! b)#} else {#}) =
    mset (map cb_ptr (filter (\<lambda>c. 0 < cb_uses c) bs)) + (if 0 < cb_uses c then {#cb_ptr c#} else {#})"
  using assms
proof (induction bs arbitrary: b)
  case (Cons a bs)
  show ?case
  proof (cases b)
    case (Suc n)
    with Cons.IH [of n] Cons.prems show ?thesis by (auto split: if_splits)
  qed simp
qed simp

lemma context_ok_add:
  assumes "context_ok st" and "alive st b"
  shows "context_ok (add_owner b st)"
proof -
  have "created (add_owner b st) = created st" "destroyed (add_owner b st) = destroyed st"
    by (simp_all add: created_def destroyed_def add_owner_def)
  moreover have "in_use (add_owner b st) = in_use st"
    using in_use_update [of b "cx_blocks st" "(cx_blocks st ! b)\<lparr>cb_uses := cb_uses (cx_blocks st ! b) + 1\<rparr>"] assms(2)
    by (simp add: in_use_def add_owner_def alive_def)
  moreover have "alive (add_owner b st) b' = alive st b'" "context_of (add_owner b st) b' = context_of st b'" for b'
    using assms(2) by (auto simp: alive_def context_of_def add_owner_def nth_list_update)
  ultimately show ?thesis using assms(1) by (simp add: context_ok_def add_owner_def)
qed

lemma context_ok_release:
  assumes "context_ok st" and "alive st b"
  shows "context_ok (release_context b st)"
proof -
  let ?c = "cx_blocks st ! b"
  let ?st = "release_context b st"
  have "created ?st = created st"
    by (simp add: created_def release_context_def Let_def)
  moreover have "destroyed ?st + in_use ?st = destroyed st + in_use st"
    using in_use_update [of b "cx_blocks st" "?c\<lparr>cb_uses := cb_uses ?c - 1\<rparr>"] assms(2)
    by (auto simp: destroyed_def in_use_def release_context_def alive_def Let_def split: if_splits)
  moreover have "alive ?st b' \<Longrightarrow> alive st b'" "context_of ?st b' = context_of st b'" for b'
    using assms(2) by (auto simp: alive_def context_of_def release_context_def Let_def nth_list_update split: if_splits)
  moreover have "cx_weak ?st = cx_weak st" "length (cx_blocks ?st) = length (cx_blocks st)"
    by (simp_all add: release_context_def Let_def)
  ultimately show ?thesis using assms(1) by (simp add: context_ok_def)
qed

text \<open>A new context, which the weak pointer then refers to.\<close>

definition with_context :: "nat \<Rightarrow> context_state \<Rightarrow> context_state" where
  "with_context p st = st\<lparr>cx_blocks := cx_blocks st @ [\<lparr>cb_ptr = p, cb_uses = 1\<rparr>],
     cx_weak := Some (length (cx_blocks st)), cx_calls := cx_calls st @ [Ctx_new p]\<rparr>"

lemma context_ok_new:
  assumes "context_ok st" and "\<forall>b. alive st b \<longrightarrow> context_of st b = 0"
  shows "context_ok (with_context p st)"
proof -
  have "alive (with_context p st) b \<and> context_of (with_context p st) b \<noteq> 0 \<Longrightarrow> b = length (cx_blocks st)" for b
    using assms(2) by (auto simp: alive_def context_of_def with_context_def nth_append split: if_splits)
  moreover have "created (with_context p st) = add_mset p (created st)" "destroyed (with_context p st) = destroyed st"
    "in_use (with_context p st) = add_mset p (in_use st)"
    by (simp_all add: created_def destroyed_def in_use_def with_context_def)
  ultimately show ?thesis using assms(1) by (auto simp: context_ok_def with_context_def)
qed

text \<open>The context in use is returned; only when there is none, a new one is made.\<close>

lemma getContext_cases:
  assumes ok: "context_ok st"
  shows "(\<exists>b. alive st b \<and> context_of st b \<noteq> 0 \<and> getContext p st = (add_owner b st, b)) \<or>
    (\<forall>b. alive st b \<longrightarrow> context_of st b = 0) \<and> getContext p st = (with_context p st, length (cx_blocks st))"
proof (cases "\<exists>b. alive st b \<and> context_of st b \<noteq> 0")
  case True
  then obtain b where b: "alive st b" "context_of st b \<noteq> 0" by blast
  with ok have "cx_weak st = Some b" by (simp add: context_ok_def)
  moreover have "context_of (add_owner b st) b = context_of st b"
    using b(1) by (simp add: context_of_def add_owner_def alive_def)
  ultimately show ?thesis using b by (auto simp: getContext_def lock_context_def)
next
  case False
  show ?thesis
  proof (cases "\<exists>b. cx_weak st = Some b \<and> alive st b")
    case True
    then obtain b where b: "cx_weak st = Some b" "alive st b" by blast
    then have "context_of (add_owner b st) b = 0"
      using False by (auto simp: context_of_def add_owner_def alive_def)
    moreover have "(fst (reset_context p (Some b) (add_owner b st)))\<lparr>cx_weak := Some (length (cx_blocks st))\<rparr> =
        with_context p st" "snd (reset_context p (Some b) (add_owner b st)) = length (cx_blocks st)"
      using b(2) by (simp_all add: reset_context_def release_context_def add_owner_def with_context_def alive_def
          nth_append list_update_append)
    ultimately show ?thesis using b False
      by (simp add: getContext_def lock_context_def split: prod.split) auto
  next
    case no: False
    then have "lock_context st = (st, None)" by (auto simp: lock_context_def split: option.split)
    then show ?thesis using False
      by (auto simp: getContext_def reset_context_def with_context_def)
  qed
qed

lemma context_reach_ok: "context_reach st \<Longrightarrow> context_ok st"
proof (induction rule: context_reach.induct)
  case start
  show ?case by (simp add: context_ok_def context_start_def alive_def created_def destroyed_def in_use_def)
next
  case (get st p st' b)
  then show ?case using getContext_cases [of st p] context_ok_add context_ok_new by auto
qed (simp_all add: context_ok_add context_ok_release)

text \<open>C9: all who hold a ZeroMQ context at a time hold the same one, whatever calls of
  \<^verbatim>\<open>getContext\<close>, copies and destructions of the pointers came before. As
  long as somebody holds it, \<^verbatim>\<open>getContext\<close> returns it; otherwise it makes
  a new one. Of the contexts that were made, exactly those in use have not been destroyed. A
  context that could not be made is a null pointer, which may be held beside it and is not
  returned again.\<close>

theorem one_context:
  assumes "context_reach st"
  shows "(\<forall>b c. alive st b \<and> alive st c \<and> context_of st b \<noteq> 0 \<and> context_of st c \<noteq> 0 \<longrightarrow> b = c) \<and>
    (\<forall>b. alive st b \<and> context_of st b \<noteq> 0 \<longrightarrow> snd (getContext p st) = b) \<and>
    ((\<forall>b. alive st b \<longrightarrow> context_of st b = 0) \<longrightarrow>
      cx_calls (fst (getContext p st)) = cx_calls st @ [Ctx_new p] \<and>
      context_of (fst (getContext p st)) (snd (getContext p st)) = p) \<and>
    created st = destroyed st + in_use st"
proof -
  note ok = context_reach_ok [OF assms]
  have same: "b = c" if "alive st b" "alive st c" "context_of st b \<noteq> 0" "context_of st c \<noteq> 0" for b c
    using ok that by (simp add: context_ok_def) (metis option.inject)
  have "snd (getContext p st) = b" if "alive st b" "context_of st b \<noteq> 0" for b
    using getContext_cases [OF ok, of p] same that by auto
  moreover have "cx_calls (fst (getContext p st)) = cx_calls st @ [Ctx_new p] \<and>
      context_of (fst (getContext p st)) (snd (getContext p st)) = p" if "\<forall>b. alive st b \<longrightarrow> context_of st b = 0"
    using getContext_cases [OF ok, of p] that by (auto simp: with_context_def context_of_def)
  ultimately show ?thesis using same ok by (simp add: context_ok_def)
qed

text \<open>A context is made and held twice, released by both, and another one is made.\<close>

theorem one_context_witness:
  "\<exists>st. context_reach st \<and> created st = {#7, 7#} \<and> destroyed st = {#7#} \<and> in_use st = {#7#} \<and>
    snd (getContext 9 st) = 1"
proof -
  let ?s1 = "fst (getContext 7 context_start)"
  let ?s2 = "fst (getContext 8 ?s1)"
  let ?s3 = "release_context 0 (release_context 0 ?s2)"
  let ?s4 = "fst (getContext 7 ?s3)"
  note defs = context_start_def getContext_def lock_context_def reset_context_def release_context_def
    add_owner_def alive_def context_of_def
  have g: "getContext 7 context_start = (?s1, 0)" "getContext 8 ?s1 = (?s2, 0)" "getContext 7 ?s3 = (?s4, 1)"
    by (simp_all add: defs)
  have "context_reach ?s1" by (rule context_reach.get [OF context_reach.start _ g(1)]) (simp add: defs)
  then have "context_reach ?s2" by (rule context_reach.get [OF _ _ g(2)]) (simp add: defs)
  then have "context_reach (release_context 0 ?s2)" by (rule context_reach.release) (simp add: defs)
  then have r3: "context_reach ?s3" by (rule context_reach.release) (simp add: defs)
  have n: "\<not> alive ?s3 b" for b by (cases b) (simp_all add: defs)
  have r: "context_reach ?s4" by (rule context_reach.get [OF r3 _ g(3)]) (simp add: n)
  have "alive ?s4 1 \<and> context_of ?s4 1 \<noteq> 0" by (simp add: defs)
  then have "snd (getContext 9 ?s4) = 1" using one_context [OF r, of 9] by blast
  moreover have "created ?s4 = {#7, 7#}" by (simp add: created_def defs)
  moreover have "destroyed ?s4 = {#7#}" by (simp add: destroyed_def defs)
  moreover have "in_use ?s4 = {#7#}" by (simp add: in_use_def defs)
  ultimately show ?thesis using r by blast
qed

end
