(* ===== verification/Req_Returns.thy ===== *)
theory Req_Returns
  imports Req_Client
begin

text \<open>
  When a request returns: what is expected of ZeroMQ and of the browser, and that the loop which
  sends a frame then comes to its end. The client has to connect for that: nothing else makes the
  socket take a frame.
\<close>

section \<open>The environment\<close>

text \<open>
  A DEALER socket: a send that must not block asks for another attempt when no peer takes a frame
  (\<^verbatim>\<open>zmq_socket(3)\<close>) and queues the frame otherwise; a connection that is made has a queue, of 1000
  messages by default, which takes the at most four frames of a request. \<open>room\<close> is what the peers of
  the socket take.
\<close>

definition dealer_socket ::
  "'e zmq \<Rightarrow> 'e servus \<Rightarrow> (nat \<Rightarrow> 'e \<Rightarrow> 'e) \<Rightarrow> sock \<Rightarrow> nat \<Rightarrow> ('e \<Rightarrow> nat) \<Rightarrow> bool" where
  "dealer_socket Z S sleep s v room \<longleftrightarrow>
     (\<forall>f e. case zmq_msg_send Z s f True e of (e', r) \<Rightarrow>
        if room e = 0 then r = Again \<and> room e' = 0 else r = Sent \<and> room e' = room e - 1) \<and>
     (\<forall>a e. case zmq_connect Z s a e of (e', ok) \<Rightarrow> if ok then 4 \<le> room e' else room e' = room e) \<and>
     (\<forall>e. room (fst (sv_browse S v e)) = room e) \<and> (\<forall>e. room (sleep 10 e) = room e)"

text \<open>
  A server appears: after \<open>wait\<close> milliseconds, which the sleep of the loop lets pass, browsing yields
  it. It is of the client's session, its address can be connected to, and until then no instance goes
  away.
\<close>

definition server_appears ::
  "'e zmq \<Rightarrow> 'e servus \<Rightarrow> (nat \<Rightarrow> 'e \<Rightarrow> 'e) \<Rightarrow> sock \<Rightarrow> nat \<Rightarrow> string \<Rightarrow> string \<Rightarrow> ('e \<Rightarrow> nat) \<Rightarrow> bool" where
  "server_appears Z S sleep s v session server wait \<longleftrightarrow>
     (\<forall>e. sv_is_browsing S v e) \<and>
     (\<forall>e. \<forall>ev \<in> set (snd (sv_browse S v e)). \<exists>i a. ev = Instance_added i \<and> zmqURI_of_instance i = Inr a) \<and>
     (\<forall>e. wait e = 0 \<longrightarrow> Instance_added server \<in> set (snd (sv_browse S v e))) \<and>
     (\<forall>e. sv_get S v server KEY_SESSION e = session) \<and>
     (\<exists>a. zmqURI_of_instance server = Inr a \<and> (\<forall>e. snd (zmq_connect Z s a e))) \<and>
     (\<forall>e. 0 < wait e \<longrightarrow> wait (fst (sv_browse S v e)) \<le> wait e) \<and>
     (\<forall>f e. wait (fst (zmq_msg_send Z s f True e)) \<le> wait e) \<and>
     (\<forall>a e. wait (fst (zmq_connect Z s a e)) \<le> wait e) \<and>
     (\<forall>e. wait (sleep 10 e) \<le> wait e - 10)"

section \<open>Browsing\<close>

lemma dealer_socketD:
  assumes "dealer_socket Z S sleep s v room"
  shows "zmq_msg_send Z s f True e = (e', x) \<Longrightarrow>
      if room e = 0 then x = Again \<and> room e' = 0 else x = Sent \<and> room e' = room e - 1"
    and "zmq_connect Z s a e = (e', ok) \<Longrightarrow> if ok then 4 \<le> room e' else room e' = room e"
    and "room (fst (sv_browse S v e)) = room e" and "room (sleep 10 e) = room e"
proof -
  note d = assms [unfolded dealer_socket_def]
  show "zmq_msg_send Z s f True e = (e', x) \<Longrightarrow>
      if room e = 0 then x = Again \<and> room e' = 0 else x = Sent \<and> room e' = room e - 1"
    using d [THEN conjunct1, rule_format, of e f] by simp
  show "zmq_connect Z s a e = (e', ok) \<Longrightarrow> if ok then 4 \<le> room e' else room e' = room e"
    using d [THEN conjunct2, THEN conjunct1, rule_format, of e a] by simp
  show "room (fst (sv_browse S v e)) = room e" "room (sleep 10 e) = room e" using d by blast+
qed

lemma server_appearsD:
  assumes "server_appears Z S sleep s v session server wait"
  shows "sv_is_browsing S v e"
    and "ev \<in> set (snd (sv_browse S v e)) \<Longrightarrow> \<exists>i a. ev = Instance_added i \<and> zmqURI_of_instance i = Inr a"
    and "wait e = 0 \<Longrightarrow> Instance_added server \<in> set (snd (sv_browse S v e))"
    and "sv_get S v server KEY_SESSION e = session"
    and "zmqURI_of_instance server = Inr a \<Longrightarrow> zmq_connect Z s a e = (e', ok) \<Longrightarrow> ok"
    and "0 < wait e \<Longrightarrow> wait (fst (sv_browse S v e)) \<le> wait e"
    and "zmq_msg_send Z s f True e = (e', x) \<Longrightarrow> wait e' \<le> wait e"
    and "zmq_connect Z s a e = (e', ok) \<Longrightarrow> wait e' \<le> wait e"
    and "wait (sleep 10 e) \<le> wait e - 10"
proof -
  note a = assms [unfolded server_appears_def]
  show "zmqURI_of_instance server = Inr a \<Longrightarrow> zmq_connect Z s a e = (e', ok) \<Longrightarrow> ok"
    using a by (metis snd_conv sum.inject(2))
  show "zmq_msg_send Z s f True e = (e', x) \<Longrightarrow> wait e' \<le> wait e"
    "zmq_connect Z s a e = (e', ok) \<Longrightarrow> wait e' \<le> wait e"
    using a by (metis fst_conv)+
qed (use assms [unfolded server_appears_def] in blast)+

lemma net_connect_new:
  assumes "zmq_connect Z s a (env w) = (e, ok)" and "map_of (nr_sockets r) a = None"
  shows "net_connect Z held a s (r, w) =
    ((if ok then r\<lparr>nr_sockets := smap_put (<) a s (nr_sockets r), nr_entries := nr_entries r @ [s]\<rparr> else r,
      emit (Call_connect s a ok) (w\<lparr>env := e\<rparr>)), ok)"
  using assms by (simp add: net_connect_def z_connect_def)

text \<open>What the events of browsing, which add instances, do to a client that waits.\<close>

definition waits :: "nat \<Rightarrow> string \<Rightarrow> ('e \<Rightarrow> nat) \<Rightarrow> 'e net_state \<Rightarrow> bool" where
  "waits v session room st \<longleftrightarrow> nr_servus (fst st) = v \<and> nr_session (fst st) = session \<and>
     (4 \<le> room (env (snd st)) \<or>
      (nr_sockets (fst st) = [] \<and> \<not> nr_updated (fst st) \<and> room (env (snd st)) = 0))"

lemma instanceAdded_waits:
  assumes d: "dealer_socket Z S sleep s v room" and a: "server_appears Z S sleep s v session server wait"
    and "s \<noteq> 0" and w: "waits v session room (r, w)" and i: "zmqURI_of_instance i = Inr a"
  obtains r' w' where "instanceAdded Z S (\<lambda>x. x = s) (Client_createSocket s) i (r, w) = ((r', w'), Inr ())"
    and "waits v session room (r', w')" and "wait (env w') \<le> wait (env w)"
    and "4 \<le> room (env w) \<or> i = server \<Longrightarrow> 4 \<le> room (env w')"
proof -
  obtain e ok where c: "zmq_connect Z s a (env w) = (e, ok)" by (metis prod.exhaust)
  let ?w = "emit (Call_connect s a ok) (w\<lparr>env := e\<rparr>)"
  let ?added = "instanceAdded Z S (\<lambda>x. x = s) (Client_createSocket s) i (r, w)"
  have room: "if ok then 4 \<le> room e else room e = room (env w)" by (rule dealer_socketD(2) [OF d c])
  have le: "wait e \<le> wait (env w)" by (rule server_appearsD(8) [OF a c])
  consider (skip) "?added = ((r, w), Inr ())" and "i = server \<Longrightarrow> map_of (nr_sockets r) a \<noteq> None"
    | (new) "map_of (nr_sockets r) a = None"
        "?added = (((if ok then r\<lparr>nr_sockets := smap_put (<) a s (nr_sockets r), nr_entries := nr_entries r @ [s],
           nr_updated := True\<rparr> else r), ?w), Inr ())"
  proof (cases "map_of (nr_sockets r) a")
    case None
    have "?added = ((r, w), Inr ()) \<and> i \<noteq> server \<or>
        ?added = (((if ok then r\<lparr>nr_sockets := smap_put (<) a s (nr_sockets r), nr_entries := nr_entries r @ [s],
           nr_updated := True\<rparr> else r), ?w), Inr ())"
      using i None server_appearsD(4) [OF a, of "env w"] assms(3) w
      by (auto simp: instanceAdded_def Let_def Client_createSocket_def net_connect_new [OF c None] release_def
          waits_def)
    with that None show ?thesis by blast
  next
    case (Some x)
    then show ?thesis using that(1) i by (simp add: instanceAdded_def)
  qed
  then show thesis
  proof cases
    case skip
    have "4 \<le> room (env w)" if "i = server"
      using skip(2) [OF that] w by (auto simp: waits_def)
    with skip w show ?thesis by (intro that [OF skip(1)]) auto
  next
    case new
    have "ok" if "i = server" using server_appearsD(5) [OF a _ c] i that by blast
    with new w room le show ?thesis by (intro that [OF new(2)]) (auto simp: waits_def split: if_splits)
  qed
qed

lemma browse_events_wait:
  assumes d: "dealer_socket Z S sleep s v room" and a: "server_appears Z S sleep s v session server wait"
    and "s \<noteq> 0" and "waits v session room st"
    and "\<forall>ev \<in> set evs. \<exists>i a. ev = Instance_added i \<and> zmqURI_of_instance i = Inr a"
  shows "\<exists>r' w'. for_each (on_browse_event Z S (\<lambda>x. x = s) (Client_createSocket s)) evs st = ((r', w'), Inr ()) \<and>
    waits v session room (r', w') \<and> wait (env w') \<le> wait (env (snd st)) \<and>
    (4 \<le> room (env (snd st)) \<or> Instance_added server \<in> set evs \<longrightarrow> 4 \<le> room (env w'))"
  using assms(4,5)
proof (induction evs arbitrary: st)
  case Nil
  then show ?case by (cases st) simp
next
  case (Cons ev evs)
  obtain i b where ev: "ev = Instance_added i" "zmqURI_of_instance i = Inr b" using Cons.prems(2) by auto
  obtain r w where st: "st = (r, w)" by (cases st)
  obtain r1 w1 where 1: "instanceAdded Z S (\<lambda>x. x = s) (Client_createSocket s) i (r, w) = ((r1, w1), Inr ())"
    "waits v session room (r1, w1)" "wait (env w1) \<le> wait (env w)"
    "4 \<le> room (env w) \<or> i = server \<Longrightarrow> 4 \<le> room (env w1)"
    using instanceAdded_waits [OF d a assms(3) Cons.prems(1) [unfolded st] ev(2)] by metis
  obtain r2 w2 where 2: "for_each (on_browse_event Z S (\<lambda>x. x = s) (Client_createSocket s)) evs (r1, w1) = ((r2, w2), Inr ())"
    "waits v session room (r2, w2)" "wait (env w2) \<le> wait (env w1)"
    "4 \<le> room (env w1) \<or> Instance_added server \<in> set evs \<longrightarrow> 4 \<le> room (env w2)"
    using Cons.IH [OF 1(2)] Cons.prems(2) by auto
  have "on_browse_event Z S (\<lambda>x. x = s) (Client_createSocket s) ev st = ((r1, w1), Inr ())"
    by (simp add: on_browse_event_def st ev 1(1))
  then have "for_each (on_browse_event Z S (\<lambda>x. x = s) (Client_createSocket s)) (ev # evs) st = ((r2, w2), Inr ())"
    by (simp add: 2(1))
  moreover have "wait (env w2) \<le> wait (env (snd st))" using 1(3) 2(3) by (simp add: st)
  moreover have "4 \<le> room (env (snd st)) \<or> Instance_added server \<in> set (ev # evs) \<longrightarrow> 4 \<le> room (env w2)"
    using 1(4) 2(4) ev(1) by (auto simp: st)
  ultimately show ?case using 2(2) by blast
qed

text \<open>An update either finds a server, or leaves the client as it was.\<close>

lemma Client_update_waits:
  assumes d: "dealer_socket Z S sleep (cl_servers cl) v room"
    and a: "server_appears Z S sleep (cl_servers cl) v session server wait"
    and "cl_servers cl \<noteq> 0" and "nr_servus (cl_net cl) = v" and "nr_session (cl_net cl) = session"
    and "nr_sockets (cl_net cl) = []" and "room (env w) = 0"
  shows "\<exists>cl' w' found. Client_update Z S (cl, w) = ((cl', w'), Inr found) \<and> cl_servers cl' = cl_servers cl \<and>
    (4 \<le> room (env w') \<or>
     nr_servus (cl_net cl') = v \<and> nr_session (cl_net cl') = session \<and> nr_sockets (cl_net cl') = [] \<and>
     room (env w') = 0 \<and> \<not> found \<and> 0 < wait (env w) \<and> wait (env w') \<le> wait (env w))"
proof -
  let ?s = "cl_servers cl" and ?r = "(cl_net cl)\<lparr>nr_updated := False\<rparr>"
  let ?f = "on_browse_event Z S (\<lambda>x. x = ?s) (Client_createSocket ?s)"
  obtain e evs where b: "sv_browse S v (env w) = (e, evs)" by (metis prod.exhaust)
  have room: "room e = 0" using dealer_socketD(3) [OF d, of "env w"] b assms(7) by simp
  have "waits v session room (?r, w\<lparr>env := e\<rparr>)" using assms(4-6) room by (simp add: waits_def)
  moreover have "\<forall>ev \<in> set evs. \<exists>i a. ev = Instance_added i \<and> zmqURI_of_instance i = Inr a"
    using server_appearsD(2) [OF a, of _ "env w"] by (simp add: b)
  ultimately obtain r' w' where l: "for_each ?f evs (?r, w\<lparr>env := e\<rparr>) = ((r', w'), Inr ())"
    "waits v session room (r', w')" "wait (env w') \<le> wait e" "Instance_added server \<in> set evs \<longrightarrow> 4 \<le> room (env w')"
    using browse_events_wait [OF d a assms(3), of "(?r, w\<lparr>env := e\<rparr>)" evs] by auto
  have u: "Client_update Z S (cl, w) = ((cl\<lparr>cl_net := r'\<rparr>, w'), Inr (nr_updated r'))"
    using server_appearsD(1) [OF a] b l(1) assms(4)
    by (simp add: Client_update_def on_cl_net_def net_update_def)
  have wait: "wait (env w) = 0 \<Longrightarrow> 4 \<le> room (env w')" "0 < wait (env w) \<Longrightarrow> wait (env w') \<le> wait (env w)"
    using server_appearsD(3,6) [OF a, of "env w"] l(3,4) b by simp_all
  with u l(2) show ?thesis by (auto simp: waits_def)
qed

section \<open>Sending\<close>

lemma send_attempt_room:
  assumes d: "dealer_socket Z S sleep (cl_servers cl) v room" and "0 < room (env w)"
  shows "\<exists>w1. send_attempt Z S sleep f (cl, w) = Inr ((cl, w1), Inr True) \<and> room (env w1) = room (env w) - 1"
proof -
  obtain e x where z: "zmq_msg_send Z (cl_servers cl) f True (env w) = (e, x)" by (metis prod.exhaust)
  show ?thesis using dealer_socketD(1) [OF d z] assms(2) by (simp add: send_attempt_def z_send_def z)
qed

lemma Client_send_room:
  assumes "dealer_socket Z S sleep (cl_servers cl) v room" and "0 < room (env w)"
  shows "\<exists>w1. Client_send Z S sleep f (cl, w) = Some ((cl, w1), Inr True) \<and> room (env w1) = room (env w) - 1"
  using send_attempt_room [OF assms, of f] by (metis Client_send_def loop_unfold(1))

lemma Client_send_all_room:
  assumes "dealer_socket Z S sleep (cl_servers cl) v room" and "length fs \<le> room (env w)"
  shows "\<exists>w1. Client_send_all Z S sleep fs (cl, w) = Some ((cl, w1), Inr True) \<and>
    room (env w1) = room (env w) - length fs"
  using assms(2)
proof (induction fs arbitrary: w)
  case (Cons f fs)
  then obtain w1 where 1: "Client_send Z S sleep f (cl, w) = Some ((cl, w1), Inr True)" "room (env w1) = room (env w) - 1"
    using Client_send_room [OF assms(1), of w f] by auto
  from Cons.IH [of w1] Cons.prems 1 show ?case by auto
qed simp

text \<open>
  A client that waits: it has no connection and finds a server sooner or later, or it has one that
  takes a request.
\<close>

definition client_waits :: "'e client \<Rightarrow> nat \<Rightarrow> string \<Rightarrow> ('e \<Rightarrow> nat) \<Rightarrow> 'e client_state \<Rightarrow> bool" where
  "client_waits cl0 v session room st \<longleftrightarrow>
     (case st of (cl, w) \<Rightarrow> cl_servers cl = cl_servers cl0 \<and>
       (4 \<le> room (env w) \<or>
        nr_servus (cl_net cl) = v \<and> nr_session (cl_net cl) = session \<and> nr_sockets (cl_net cl) = [] \<and>
        room (env w) = 0))"

definition waiting_time :: "('e \<Rightarrow> nat) \<Rightarrow> ('e \<Rightarrow> nat) \<Rightarrow> 'e client_state \<Rightarrow> nat" where
  "waiting_time room wait st = (if 4 \<le> room (env (snd st)) then 0 else Suc (wait (env (snd st))))"

lemma send_attempt_waits:
  assumes d: "dealer_socket Z S sleep (cl_servers cl0) v room"
    and a: "server_appears Z S sleep (cl_servers cl0) v session server wait"
    and "cl_servers cl0 \<noteq> 0" and w: "client_waits cl0 v session room st"
    and again: "send_attempt Z S sleep f st = Inl st'"
  shows "client_waits cl0 v session room st' \<and> waiting_time room wait st' < waiting_time room wait st"
proof -
  obtain cl w where st: "st = (cl, w)" by (cases st)
  have s: "cl_servers cl = cl_servers cl0" using w by (simp add: client_waits_def st)
  note d = d [folded s] and a = a [folded s]
  obtain e x where z: "zmq_msg_send Z (cl_servers cl) f True (env w) = (e, x)" by (metis prod.exhaust)
  have no_room: "room (env w) = 0"
  proof (rule ccontr)
    assume "room (env w) \<noteq> 0"
    with send_attempt_room [OF d, of w f] again show False by (auto simp: st)
  qed
  with dealer_socketD(1) [OF d z] have e: "x = Again" "room e = 0" by simp_all
  let ?w = "emit (Call_send (cl_servers cl) f Again) (w\<lparr>env := e\<rparr>)"
  obtain cl1 w1 found where u: "Client_update Z S (cl, ?w) = ((cl1, w1), Inr found)"
    "cl_servers cl1 = cl_servers cl"
    "4 \<le> room (env w1) \<or>
     nr_servus (cl_net cl1) = v \<and> nr_session (cl_net cl1) = session \<and> nr_sockets (cl_net cl1) = [] \<and>
     room (env w1) = 0 \<and> \<not> found \<and> 0 < wait e \<and> wait (env w1) \<le> wait e"
    using Client_update_waits [OF d a, of ?w] assms(3) w no_room e(2) s by (auto simp: client_waits_def st)
  have st': "st' = (if found then (cl1, w1) else (cl1, on_env (sleep 10) w1))"
    using again z e(1) u(1) by (auto simp: send_attempt_def st z_send_def)
  have sleep: "room (env (on_env (sleep 10) w1)) = room (env w1)" "wait (env (on_env (sleep 10) w1)) \<le> wait (env w1) - 10"
    using dealer_socketD(4) [OF d] server_appearsD(9) [OF a] by (simp_all add: on_env_def)
  have le: "wait e \<le> wait (env w)" by (rule server_appearsD(7) [OF a z])
  show ?thesis
  proof (cases "4 \<le> room (env w1)")
    case True
    then show ?thesis using st' sleep(1) no_room u(2) s by (simp add: client_waits_def waiting_time_def st)
  next
    case False
    with u(3) have k: "nr_servus (cl_net cl1) = v" "nr_session (cl_net cl1) = session" "nr_sockets (cl_net cl1) = []"
      "room (env w1) = 0" "\<not> found" "0 < wait e" "wait (env w1) \<le> wait e" by simp_all
    have "wait (env (on_env (sleep 10) w1)) < wait (env w)" using sleep(2) k(6,7) le by linarith
    with k sleep(1) u(2) s no_room show ?thesis by (simp add: st' client_waits_def waiting_time_def st)
  qed
qed

lemma Client_send_waits:
  assumes d: "dealer_socket Z S sleep (cl_servers cl) v room"
    and a: "server_appears Z S sleep (cl_servers cl) v session server wait"
    and "cl_servers cl \<noteq> 0" and w: "client_waits cl v session room (cl, w)"
  shows "\<exists>cl1 w1. Client_send Z S sleep f (cl, w) = Some ((cl1, w1), Inr True) \<and>
    cl_servers cl1 = cl_servers cl \<and> 3 \<le> room (env w1)"
proof -
  note waits = send_attempt_waits [OF d a assms(3)]
  have "\<exists>r. loop (send_attempt Z S sleep f) (cl, w) = Some r"
    by (rule loop_terminates [where R = "measure (waiting_time room wait)" and I = "client_waits cl v session room"])
      (use waits w in auto)
  then obtain r where r: "loop (send_attempt Z S sleep f) (cl, w) = Some r" by blast
  then have "\<exists>cl1 w1. r = ((cl1, w1), Inr True) \<and> cl_servers cl1 = cl_servers cl \<and> 3 \<le> room (env w1)"
  proof (rule loop_invariant [where I = "client_waits cl v session room", OF _ w])
    fix st st' assume "client_waits cl v session room st" and "send_attempt Z S sleep f st = Inl st'"
    then show "client_waits cl v session room st'" using waits by blast
  next
    fix st r assume I: "client_waits cl v session room st" and r: "send_attempt Z S sleep f st = Inr r"
    obtain cl1 w1 where st: "st = (cl1, w1)" by (cases st)
    have s: "cl_servers cl1 = cl_servers cl" using I by (simp add: client_waits_def st)
    note d1 = d [folded s] and a1 = a [folded s]
    show "\<exists>cl1 w1. r = ((cl1, w1), Inr True) \<and> cl_servers cl1 = cl_servers cl \<and> 3 \<le> room (env w1)"
    proof (cases "4 \<le> room (env w1)")
      case True
      with send_attempt_room [OF d1, of w1 f] r st s show ?thesis by fastforce
    next
      case False
      with I have n: "nr_servus (cl_net cl1) = v" "nr_session (cl_net cl1) = session" "nr_sockets (cl_net cl1) = []"
        "room (env w1) = 0" by (simp_all add: client_waits_def st)
      obtain e x where z: "zmq_msg_send Z (cl_servers cl1) f True (env w1) = (e, x)" by (metis prod.exhaust)
      with dealer_socketD(1) [OF d1 z] n(4) have e: "x = Again" "room e = 0" by simp_all
      let ?w = "emit (Call_send (cl_servers cl1) f Again) (w1\<lparr>env := e\<rparr>)"
      obtain st2 found where "Client_update Z S (cl1, ?w) = (st2, Inr found)"
        using Client_update_waits [OF d1 a1, of ?w] assms(3) n e(2) s by auto
      with r z e(1) show ?thesis by (simp add: send_attempt_def st z_send_def)
    qed
  qed
  with r show ?thesis by (auto simp: Client_send_def)
qed

lemma request_first_frame:
  assumes d: "dealer_socket Z S sleep (cl_servers cl) v room"
    and w: "4 \<le> room (env w) \<or>
      cl_servers cl \<noteq> 0 \<and> nr_servus (cl_net cl) = v \<and> nr_sockets (cl_net cl) = [] \<and> room (env w) = 0 \<and>
      server_appears Z S sleep (cl_servers cl) v (nr_session (cl_net cl)) server wait"
  shows "\<exists>cl1 w1. Client_send Z S sleep f (cl, w) = Some ((cl1, w1), Inr True) \<and>
    cl_servers cl1 = cl_servers cl \<and> 3 \<le> room (env w1)"
  using w
proof
  assume "4 \<le> room (env w)"
  with Client_send_room [OF d, of w f] show ?thesis by fastforce
next
  assume "cl_servers cl \<noteq> 0 \<and> nr_servus (cl_net cl) = v \<and> nr_sockets (cl_net cl) = [] \<and> room (env w) = 0 \<and>
    server_appears Z S sleep (cl_servers cl) v (nr_session (cl_net cl)) server wait"
  then show ?thesis by (intro Client_send_waits [OF d]) (auto simp: client_waits_def)
qed

text \<open>C35: a request returns and returns true when the client has a connection that takes
  it, or when it browses without a connection and a server of its session appears after some time.
  It has then sent its id, the empty delimiter, the identifier and the payload, in this order and
  nothing else, its id is the next one, and the handler is filed under it.\<close>

theorem request_returns:
  assumes "dealer_socket Z S sleep (cl_servers cl) v room"
    and "4 \<le> room (env w) \<or>
      cl_servers cl \<noteq> 0 \<and> nr_servus (cl_net cl) = v \<and> nr_sockets (cl_net cl) = [] \<and> room (env w) = 0 \<and>
      server_appears Z S sleep (cl_servers cl) v (nr_session (cl_net cl)) server wait"
  shows "\<exists>cl' w'. request Z S h sleep requestID payload func (cl, w) = Some ((cl', w'), Inr True) \<and>
    sent_on (cl_servers cl) (trace w') =
      sent_on (cl_servers cl) (trace w) @ request_frames h (cl_id cl + 1) requestID payload \<and>
    cl_id cl' = cl_id cl + 1 \<and> cl_handlers cl' = (cl_handlers cl)(cl_id cl + 1 \<mapsto> func)"
proof -
  let ?cl = "cl\<lparr>cl_id := cl_id cl + 1\<rparr>"
  obtain cl1 w1 where 1: "Client_send Z S sleep (mem64 h (cl_id cl + 1), True) (?cl, w) = Some ((cl1, w1), Inr True)"
    "cl_servers cl1 = cl_servers cl" "3 \<le> room (env w1)"
    using request_first_frame [where cl = ?cl and w = w and f = "(mem64 h (cl_id cl + 1), True)"] assms by fastforce
  note d1 = assms(1) [folded 1(2)]
  obtain w2 where 2: "Client_send_all Z S sleep [([], True), (to_wire h requestID, has_payload payload)] (cl1, w1) =
      Some ((cl1, w2), Inr True)" "0 < room (env w2)"
    using Client_send_all_room [OF d1, of "[([], True), (to_wire h requestID, has_payload payload)]" w1] 1(3) by auto
  obtain w3 where 3: "Client_send Z S sleep (the payload, False) (cl1, w2) = Some ((cl1, w3), Inr True)"
    using Client_send_room [OF d1 2(2), of "(the payload, False)"] by blast
  have all: "Client_send_all Z S sleep [(mem64 h (cl_id cl + 1), True), ([], True), (to_wire h requestID, has_payload payload)]
      (?cl, w) = Some ((cl1, w2), Inr True)"
    using 1(1) 2(1) by simp
  obtain cl' w' where r: "request Z S h sleep requestID payload func (cl, w) = Some ((cl', w'), Inr True)"
    using all 3 by (cases "has_payload payload") (simp_all add: request_def Let_def del: Client_send_all.simps)
  from request_sent [OF r] r show ?thesis by auto
qed

text \<open>
  A network where a server appears after a while: the number counts up to 2 until it does, and is
  3 more than what the socket takes after that.
\<close>

definition late_zmq :: "net zmq" where
  "late_zmq = sample_zmq
     \<lparr>zmq_msg_send := (\<lambda>s f dontwait (n, q). if n \<le> 3 then ((n, q), Again) else ((n - 1, q), Sent)),
      zmq_connect := (\<lambda>s a (n, q). ((max 7 n, q), True))\<rparr>"

definition late_servus :: "net servus" where
  "late_servus = sample_servus
     \<lparr>sv_browse := (\<lambda>v (n, q). ((n, q), if n < 2 then [] else [Instance_added ''host:4242'']))\<rparr>"

definition late_sleep :: "nat \<Rightarrow> net \<Rightarrow> net" where
  "late_sleep ms = (\<lambda>(n, q). (if n < 2 then n + 1 else n, q))"

lemma late_network:
  "dealer_socket late_zmq late_servus late_sleep 1 1 (\<lambda>(n, q). n - 3)"
  "server_appears late_zmq late_servus late_sleep 1 1 [] ''host:4242'' (\<lambda>(n, q). 20 - 10 * n)"
proof -
  show "dealer_socket late_zmq late_servus late_sleep 1 1 (\<lambda>(n, q). n - 3)"
    by (auto simp: dealer_socket_def late_zmq_def late_servus_def late_sleep_def)
  have "\<exists>a. zmqURI_of_instance ''host:4242'' = Inr a" by (rule exI) code_simp
  then show "server_appears late_zmq late_servus late_sleep 1 1 [] ''host:4242'' (\<lambda>(n, q). 20 - 10 * n)"
    by (auto simp: server_appears_def late_zmq_def late_servus_def late_sleep_def sample_servus_def)
qed

theorem request_returns_witness:
  "\<exists>cl' w'. request late_zmq late_servus sample_host late_sleep (U128 1 2) (Some [7]) (\<lambda>i d e. (e, Inr ()))
     (\<lparr>cl_net = \<lparr>nr_servus = 1, nr_session = [], nr_sockets = [], nr_entries = [], nr_updated = False\<rparr>,
       cl_servers = 1, cl_handlers = Map.empty, cl_id = 0\<rparr>, sample_world []) = Some ((cl', w'), Inr True) \<and>
    sent_on 1 (trace w') = request_frames sample_host 1 (U128 1 2) (Some [7]) \<and> cl_handlers cl' 1 \<noteq> None"
proof -
  let ?cl = "\<lparr>cl_net = \<lparr>nr_servus = 1, nr_session = [], nr_sockets = [], nr_entries = [], nr_updated = False\<rparr>,
    cl_servers = 1, cl_handlers = Map.empty, cl_id = 0\<rparr> :: net client"
  have "dealer_socket late_zmq late_servus late_sleep (cl_servers ?cl) 1 (\<lambda>(n, q). n - 3)"
    using late_network(1) by simp
  from request_returns [OF this, where w = "sample_world []" and h = sample_host and requestID = "U128 1 2"
      and payload = "Some [7]" and func = "\<lambda>i d e. (e, Inr ())"] late_network(2)
  show ?thesis by (fastforce simp: sample_world_def)
qed

end
