(* ===== verification/Spec2Isabelle.thy ===== *)
theory Spec2Isabelle
  imports System Http_Registry Json_Roundtrip Json_Compare Json_Array Json_Char_Reader Json_Styled_Stream Json_Styled_Text Json_Reader_Type Json_Path Shared_Receivers Json_Iterator Json_Stream_Input Context Req_Returns
begin

text \<open>
  ZeroEQ: publish/subscribe and request/reply over ZeroMQ with zeroconf discovery, monitoring of
  connections, a connection broker, and an HTTP server with its JSON library. This development
  models the library's code under \<^verbatim>\<open>src/zeroeq/\<close>; file names below are relative to it.

  Parts of the program and how they interact. A \<^verbatim>\<open>Publisher\<close>, \<^verbatim>\<open>Server\<close>, \<^verbatim>\<open>connection::Broker\<close> and
  \<^verbatim>\<open>http::Server\<close> own a bound socket through \<^verbatim>\<open>detail::Sender\<close>, and the first two announce its address
  with zeroconf. A \<^verbatim>\<open>Subscriber\<close> and a \<^verbatim>\<open>Client\<close> browse for these announcements through
  \<^verbatim>\<open>detail::Receiver\<close> and connect to the addresses of their session. A \<^verbatim>\<open>connection::Monitor\<close> watches
  the socket of a sender; when a subscriber connects, its topic for the Meerkat event tells the
  monitor of a publisher. Whatever can receive derives from \<^verbatim>\<open>Receiver\<close>: receivers that were
  constructed as shared form a group, and \<^verbatim>\<open>receive()\<close> on one of them polls the sockets of all and
  hands each ready socket to the receiver that listed it. The HTTP server runs in a thread of its
  own; for each request it sends a pointer to a message to the application's thread over an inproc
  socket, where \<^verbatim>\<open>process\<close> finds a handler for it.

  Conventions. A C++ class is a record, an enumeration or a set of subclasses a datatype, a member
  function a definition that takes the object and the world and returns them changed. The result
  of a function that may throw is \<open>Inl\<close> of an exception or \<open>Inr\<close> of the value, with the state reached
  either way; \<open>Undefined\<close> among the exceptions marks undefined behaviour and
  \<^verbatim>\<open>std::terminate\<close>, after which the program does nothing more. Integers are words of
  their width. \<^verbatim>\<open>std::map\<close> is a sorted association list (\<open>Std_Map\<close>), \<^verbatim>\<open>std::string\<close> a list of
  characters, with NUL characters where the code cuts at them. Code outside of \<^verbatim>\<open>src/\<close> is a
  parameter: ZeroMQ is the record of functions \<open>zmq\<close> over an abstract environment, Servus the record
  \<open>servus\<close> and a URI parser, the operating system the record \<open>os\<close>; cppnetlib's connection, real numbers,
  what \<^verbatim>\<open>snprintf\<close> prints of them and how they are scanned, and the callbacks of the application are arguments. Every call is appended to
  the trace of the world, in order and with its result, so that theorems read the trace and hold
  for every behaviour of the libraries.

  Theories and what they model:
  \<^item> \<open>Zeq_Prelude\<close>, \<open>Std_Map\<close>, \<open>Traces\<close>: exceptions and outcomes, loops, strings, decimal text, the
    interfaces, maps with their laws (locale \<open>ordered_keys\<close>), and what a trace says about open
    sockets, filters, sent frames and callbacks.
  \<^item> \<open>Uri\<close> (\<^verbatim>\<open>uri.cpp\<close>), \<open>Wire\<close> (\<^verbatim>\<open>detail/byteswap.h\<close>, \<^verbatim>\<open>detail/port.cpp\<close>), \<open>Common\<close>
    (\<^verbatim>\<open>detail/common.h\<close>, \<^verbatim>\<open>detail/constants.h\<close>): addresses, identifiers and their bytes on hosts of
    either byte order, sessions and names.
  \<^item> \<open>Sender\<close> (\<^verbatim>\<open>detail/sender.cpp\<close>), \<open>Publisher\<close> (\<^verbatim>\<open>publisher.cpp\<close>): binding, the address that results,
    its announcement; construction and publishing.
  \<^item> \<open>Discovery\<close> (\<^verbatim>\<open>detail/receiver.h\<close>): the sockets of subscribers and clients, keyed by address. The
    two classes derive from it by a virtual function that makes a socket: locale \<open>socket_factory\<close>.
  \<^item> \<open>Subscriber\<close> (\<^verbatim>\<open>subscriber.cpp\<close>), \<open>Req_Server\<close> (\<^verbatim>\<open>server.cpp\<close>), \<open>Req_Client\<close> (\<^verbatim>\<open>client.cpp\<close>): handlers,
    filters, requests and replies. \<open>Registration\<close> is the contract of their tables as a locale. \<open>Req_Returns\<close>
    proves when a request returns, from how a DEALER socket and the browser behave.
  \<^item> \<open>Receive_Group\<close> (\<^verbatim>\<open>receiver.cpp\<close>): groups of receivers, polling and dispatch, timeouts; \<open>System\<close>
    closes the virtual functions over all components. \<open>Shared_Receivers\<close>: the public constructors of
    all receivers, alone and in the group of another, with their exceptions, and destructors.
    \<open>Context\<close> (\<^verbatim>\<open>detail/context.cpp\<close>): the context that all sockets share.
  \<^item> \<open>Monitor\<close> (\<^verbatim>\<open>monitor.cpp\<close>), \<open>Broker\<close> (\<^verbatim>\<open>connection/broker.cpp\<close>, \<^verbatim>\<open>connection/service.cpp\<close>).
  \<^item> \<open>Http_Types\<close>, \<open>Http_Endpoint\<close>, \<open>Http_Server\<close> (\<^verbatim>\<open>http/server.cpp\<close> and headers), \<open>Http_Handler\<close>
    (\<^verbatim>\<open>http/requestHandler.cpp\<close>): registration, routing, schemas, the registry, cross-origin requests,
    and the thread that reads requests. \<open>Http_Routing\<close>, \<open>Http_Registry\<close> and \<open>Http_Reachable\<close> hold the
    proofs: the specification of routing, the text of the registry, reachable servers.
  \<^item> \<open>Json_Value\<close>, \<open>Json_Writer\<close>, \<open>Json_Fast_Writer\<close>, \<open>Json_Reader\<close> (\<^verbatim>\<open>http/jsoncpp/jsoncpp.cpp\<close>): the JSON
    values that the registry is built from, the styled and the fast writer, and the parser with
    its comments, errors and recovery. \<open>Json_Scan\<close> and \<open>Json_Roundtrip\<close> prove that what the fast writer
    writes is read back. \<open>Json_Compare\<close> has the comparisons, \<open>Json_Convert\<close> the conversions between types,
    \<open>Json_Array\<close> indexed access and removal; \<open>Json_Our_Reader\<close> models the second parser of the library and
    the builder that makes it from settings, and \<open>Json_Char_Reader\<close> proves what it does.
  \<^item> \<open>Json_Stream_Writer\<close>: the writers to streams and their builder. \<open>Json_Render\<close> is a grammar of the
    texts of a value, each of which the parser reads as that value; \<open>Json_Styled_Text\<close> and
    \<open>Json_Stream_Text\<close> prove that the writers write such texts, \<open>Json_Shape\<close> has what they share, and
    \<open>Json_Styled_Stream\<close> compares the two writers to streams. \<open>Json_Reader_Type\<close> says which values the
    parser builds, \<open>Json_Stream_Input\<close> reads from streams, \<open>Json_Path\<close> models access by paths and
    \<open>Json_Iterator\<close> the iterators.
  \<^item> \<open>Sample\<close>: a small network on which the theorems are applied to concrete inputs.

  What the lemmas show. Each component has lemmas for what its operations do on every branch, what
  they append to the trace and which part of the state they keep; invariants are proved by rule
  induction over the states that public operations reach (\<open>sub_reach\<close>, \<open>objects\<close>, \<open>http_reach\<close>,
  \<open>client_run\<close>). On top of them: published events run the handlers subscribed to them and no others;
  requests are answered in order, and a reply runs the callback of its request; a receiver with a
  timeout returns; groups of receivers stay consistent under construction, sharing and
  destruction, also when constructors throw, and moving breaks them; all who hold a context hold
  the same one; routing picks the longest endpoint that the code's rule
  allows, and the registry lists exactly the methods registered.
  Parsing of a JSON document ends for every input, and what the fast writer writes of a value is
  read back as that value. The comparison is a total order that agrees with equality; removing an
  element of an array shifts the later ones; with the default settings the second parser does what
  the first does, as long as the two functions of the C++ library with which they scan reals agree on
  the document, and both end for every document and every settings. What any writer writes of a
  value is read back; without indentation the writer to streams agrees with the fast writer, if
  its settings print the reals of the value alike. Every
  value that is parsed is well-formed, and what is made at a path is found there.

  Bounds. Loops that wait for the network (\<open>Client_send\<close>, \<open>receive\<close>) are repeated through \<open>loop\<close>, whose
  value \<open>None\<close> is not to return; theorems say when they return: a request when a server appears
  while it browses, or when its connection has room for it. The readers of JSON take a bound on
  the depth of their calls; \<open>reader_fuel\<close> is twice the length of the document and one more, and
  parsing is proved never to reach the bound.

  Not modelled: logging; reference counts, allocation and swaps of JSON
  values, the offsets values keep of their text; the internals of ZeroMQ,
  Servus and cppnetlib; threads, apart from the hand-over of a message between the HTTP thread and
  the application, which is modelled as the sequence of calls each side makes; member functions of
  public classes that only delegate to their implementation; tests and build files.
\<close>

section \<open>Properties that span components\<close>

text \<open>C1: an event that \<^verbatim>\<open>publish\<close> reports as sent, delivered on a
  subscriber's socket, runs the handler the subscriber has for it, once, on the payload that was
  published, and nothing else; an empty payload arrives as none. The hosts may differ in byte
  order.\<close>

theorem publish_subscribe:
  assumes "publish Z h event payload sn w = (w', True)"
    and "sent_on (sn_socket sn) (trace w') = sent_on (sn_socket sn) (trace w) @ fs"
    and "delivers Z' s fs v v1" and "high_first h' = high_first h"
    and "map_of (sub_events sub) event = Some f"
  shows "Subscriber_process Z' S h' s (sub, v) =
    (case run_callback (On_event event) f (payload_of payload) v1 of
       (v2, Inl e) \<Rightarrow> ((sub, v2), Inl e) | (v2, Inr _) \<Rightarrow> ((sub, v2), Inr True))"
proof -
  have fs: "fs = message_frames h' event payload"
    using publish_sent [OF assms(1)] assms(2) to_wire_same_layout [OF assms(4), of event]
    by (simp add: message_frames_def)
  show ?thesis
  proof (cases "has_payload payload")
    case True
    then obtain b bs where p: "payload = Some (b # bs)" by (auto simp: has_payload_iff)
    with assms(3) fs True obtain v0 where
      "z_recv Z' s False v = (v0, Some (to_wire h' event, True))"
      "z_recv Z' s False v0 = (v1, Some (b # bs, False))"
      by (auto simp: message_frames_def)
    from process_event_payload [OF assms(5) this] p show ?thesis by (simp add: payload_of_def)
  next
    case False
    with assms(3) fs have "z_recv Z' s False v = (v1, Some (to_wire h' event, False))"
      by (auto simp: message_frames_def)
    from process_event [OF assms(5) this] False show ?thesis by (simp add: payload_of_def)
  qed
qed

theorem publish_subscribe_witness:
  "\<exists>sub v v2. Subscriber_process sample_zmq sample_servus sample_host 1 (sub, v) = ((sub, v2), Inr True) \<and>
    callbacks (trace v2) = [(On_event (U128 1 2), Some [5])]"
proof -
  let ?sn = "\<lparr>sn_uri = empty_uri, sn_socket = 7, sn_service = [], sn_servus = 0, sn_session = []\<rparr>"
  let ?m = "[(to_wire sample_host (U128 1 2), True), ([5], False)]"
  let ?sub = "\<lparr>sub_net = \<lparr>nr_servus = 0, nr_session = [], nr_sockets = [], nr_entries = [], nr_updated = False\<rparr>,
     sub_events = [(U128 1 2, \<lambda>d (e :: net). (e, Inr ()))], sub_self = U128 0 0\<rparr>"
  have "\<exists>w'. publish sample_zmq sample_host (U128 1 2) (Some [5]) ?sn (sample_world []) = (w', True) \<and>
      sent_on 7 (trace w') = sent_on 7 (trace (sample_world [])) @ ?m"
    by (simp add: publish_def sample_world_def)
  moreover have "\<exists>v1. delivers sample_zmq 1 ?m (sample_world ?m) v1 \<and> callbacks (trace v1) = []"
    by (simp add: sample_world_def)
  ultimately show ?thesis
    using publish_subscribe [of sample_zmq sample_host "U128 1 2" "Some [5]" ?sn "sample_world []" _ ?m
       sample_zmq 1 "sample_world ?m" _ sample_host ?sub "\<lambda>d e. (e, Inr ())" sample_servus]
    by (fastforce simp: run_callback_def payload_of_def)
qed

text \<open>C2: a request that was sent, delivered to a server that has a handler for it, and
  whose reply is delivered back, runs the handler on the payload of the request and then the
  callback of exactly that request on the reply, which is then forgotten. The two hosts may differ
  in byte order.\<close>

theorem request_reply:
  assumes req: "request Z S h sleep requestID payload func (cl, w) = Some ((cl1, w1), Inr True)"
    and sent: "sent_on (cl_servers cl) (trace w1) =
      sent_on (cl_servers cl) (trace w) @ envelope @ message" and env: "length envelope = 2"
    and layout: "high_first h' = high_first h"
    and there: "delivers Z' (sn_socket (srv_sender srv)) message v v1"
    and ans: "answer (srv_handlers srv) requestID (payload_of payload) (env v1) = Inr (replyID, d)"
    and proc: "Server_process Z' h' (srv, v) = ((srv', v2), x)"
    and out: "sent_on (sn_socket (srv_sender srv)) (trace v2) =
      sent_on (sn_socket (srv_sender srv)) (trace v) @ out" and ok: "no_send_failed (trace v2)"
    and home: "delivers Z (cl_servers cl) (envelope @ out) u u1"
  shows "x = Inr True \<and> Client_process Z h (cl_servers cl) (cl1, u) =
    (case run_callback (On_reply (cl_id cl + 1) replyID) (func replyID) (payload_of d) u1 of
       (u2, Inl e) \<Rightarrow> ((cl1, u2), Inl e)
     | (u2, Inr _) \<Rightarrow>
         ((cl1\<lparr>cl_handlers := (cl_handlers cl1)(cl_id cl + 1 := None)\<rparr>, u2), Inr True))"
proof -
  let ?i = "cl_id cl + 1" and ?s = "sn_socket (srv_sender srv)"
  have m: "message_frames h' i q = message_frames h i q" for i q
    using to_wire_same_layout [OF layout] by (simp add: message_frames_def)
  from request_sent [OF req] have frames: "envelope @ message = request_frames h ?i requestID payload"
    and cl1: "cl_servers cl1 = cl_servers cl" "cl_handlers cl1 ?i = Some func"
    using sent by auto
  have "envelope = take 2 (envelope @ message)" "message = drop 2 (envelope @ message)"
    using env by simp_all
  with frames have e: "envelope = [(mem64 h ?i, True), ([], True)]"
    and "message = message_frames h' requestID payload"
    by (simp_all add: request_frames_def m numeral_2_eq_2)
  with receive_request_delivered there have
    rr: "receive_request Z' h' (srv_sender srv) v = (v1, Inr (requestID, payload_of payload))" by blast
  obtain us where us: "trace v2 = trace v @ us" "sent_on ?s us = message_frames h' replyID d"
    using served_step [OF rr ans proc ok] by auto
  then have o: "out = message_frames h' replyID d"
    using out by (simp add: sent_on_append)
  from Server_process_answers [OF rr ans] proc have "x = Inr True" by auto
  moreover have "delivers Z (cl_servers cl1) ((mem64 h ?i, True) # ([], True) # message_frames h replyID d) u u1"
    using home e o m cl1(1) by simp
  from Client_process_reply [where cl = cl1, OF this cl1(2)] cl1(1)
  show ?thesis using \<open>x = Inr True\<close> by simp
qed

theorem request_reply_witness:
  "\<exists>cl u u2. Client_process sample_zmq sample_host 1 (cl, u) =
      ((cl\<lparr>cl_handlers := (cl_handlers cl)(1 := None)\<rparr>, u2), Inr True) \<and>
    callbacks (trace u2) = [(On_reply 1 (U128 3 4), Some [8])]"
proof -
  let ?h = sample_host and ?f = "\<lambda>i d (e :: net). (e, Inr ())"
  let ?cl = "\<lparr>cl_net = \<lparr>nr_servus = 1, nr_session = [], nr_sockets = [], nr_entries = [],
       nr_updated = False\<rparr>, cl_servers = 1, cl_handlers = Map.empty, cl_id = 0\<rparr> :: net client"
  let ?srv = "\<lparr>srv_sender = sample_sender,
    srv_handlers = [U128 1 2 \<mapsto> \<lambda>d (e :: net). (e, Inr (U128 3 4, Some [8]))]\<rparr>"
  let ?env = "[(mem64 ?h 1, True), ([], True)]" and ?msg = "message_frames ?h (U128 1 2) None"
  let ?out = "message_frames ?h (U128 3 4) (Some [8])"
  obtain cl1 w1 where r: "request sample_zmq sample_servus ?h (\<lambda>n e. e) (U128 1 2) None ?f
      (?cl, sample_world []) = Some ((cl1, w1), Inr True)"
    by (simp add: request_def Let_def Client_send_def loop_unfold send_attempt_def)
  from request_sent [OF r] have s: "sent_on (cl_servers ?cl) (trace w1) =
      sent_on (cl_servers ?cl) (trace (sample_world [])) @ ?env @ ?msg"
    by (auto simp: request_frames_def sample_world_def)
  obtain v1 where d: "delivers sample_zmq (sn_socket (srv_sender ?srv)) ?msg (sample_world ?msg) v1"
    by (simp add: message_frames_def sample_world_def sample_sender_def)
  obtain v2 where p: "Server_process sample_zmq ?h (?srv, sample_world ?msg) = ((?srv, v2), Inr True)"
    and t: "trace v2 = [Call_recv 1 (Some (to_wire ?h (U128 1 2), False)), Callback (On_request (U128 1 2)) None,
      Call_send 1 (to_wire ?h (U128 3 4), True) Sent, Call_send 1 ([8], False) Sent]"
    by (simp add: message_frames_def sample_world_def sample_sender_def Server_process_def
        receive_request_def Server_recv_def run_callback_def send_reply_def Server_send_def)
  obtain u1 where b: "delivers sample_zmq (cl_servers ?cl) (?env @ ?out) (sample_world (?env @ ?out)) u1"
    and c: "callbacks (trace u1) = []"
    by (simp add: message_frames_def sample_world_def)
  have a: "answer (srv_handlers ?srv) (U128 1 2) (payload_of None) (env v1) = Inr (U128 3 4, Some [8])"
    by (simp add: answer_def)
  have o: "sent_on (sn_socket (srv_sender ?srv)) (trace v2) =
      sent_on (sn_socket (srv_sender ?srv)) (trace (sample_world ?msg)) @ ?out"
    by (simp add: t sample_world_def sample_sender_def message_frames_def)
  have n: "no_send_failed (trace v2)" by (auto simp: t no_send_failed_def)
  have l: "length ?env = 2" by simp
  note rr = request_reply [where cl = ?cl and h = ?h and h' = ?h and envelope = ?env and message = ?msg
      and srv = ?srv and v = "sample_world ?msg" and u = "sample_world (?env @ ?out)"]
  have "Client_process sample_zmq ?h 1 (cl1, sample_world (?env @ ?out)) =
      ((cl1\<lparr>cl_handlers := (cl_handlers cl1)(1 := None)\<rparr>, emit (Callback (On_reply 1 (U128 3 4)) (Some [8])) u1),
       Inr True)"
    using rr [OF r s l refl d a p o n b] by (simp add: run_callback_def payload_of_def)
  then show ?thesis
    using c by (intro exI [of _ cl1] exI [of _ "sample_world (?env @ ?out)"] exI conjI) (assumption, simp)
qed

text \<open>C24: the address a publisher announces leads a receiver of the same session, when its
  discovery finds that announcement, to connect to the host and port of the URI of the publisher,
  to keep the socket under that address and to poll it.\<close>

theorem announced_address_connects:
  assumes "Publisher_create Z S os print uri session w = (w', Inr sn)"
    and "announcements (trace w') = announcements (trace w) @ [a]"
    and "CHR '':'' \<notin> set (uri_host (sn_uri sn))"
    and "u = buildZmqAddress DEFAULT_SCHEMA (uri_host (sn_uri sn)) (uri_port (sn_uri sn))"
    and "net_ok r" and "u \<notin> connected r"
    and "sv_get S' (nr_servus r) a KEY_SESSION (env v) = nr_session r"
    and "createSocket (sv_parse_uint128 S' (sv_get S' (nr_servus r) a KEY_INSTANCE (env v))) v = (v1, Inr s)"
    and "s \<noteq> 0" and "z_connect Z' s u v1 = (v2, True)"
  shows "\<exists>r'. instanceAdded Z' S' held createSocket a (r, v) = ((r', v2), Inr ()) \<and>
    map_of (nr_sockets r') u = Some s \<and> s \<in> set (nr_entries r') \<and> nr_updated r'"
proof -
  have "a = getAddress sn"
    using Publisher_created [OF assms(1)] assms(2) by (auto split: if_splits)
  then have "zmqURI_of_instance a = Inr u"
    using zmqURI_of_getAddress [OF assms(3)] assms(4) by simp
  moreover have "map_of (nr_sockets r) u = None"
    using assms(6) by (simp add: connected_def map_of_eq_None_iff)
  ultimately show ?thesis
    using assms(5,7-10)
    by (simp add: instanceAdded_def net_connect_def Let_def net_ok_def asc.lookup_put)
qed

theorem announced_address_connects_witness:
  "\<exists>a r' v2. instanceAdded sample_zmq sample_servus (\<lambda>_. False) (\<lambda>i w. (w, Inr 3)) a
      (\<lparr>nr_servus = 1, nr_session = [], nr_sockets = [], nr_entries = [], nr_updated = False\<rparr>,
       sample_world []) = ((r', v2), Inr ()) \<and> 3 \<in> set (nr_entries r')"
proof -
  let ?c = "Publisher_create sample_zmq sample_servus sample_os sample_print
    (URI_default\<lparr>uri_host := ''h'', uri_port := 5\<rparr>) ''s'' (sample_world [])"
  have "\<exists>w' sn. ?c = (w', Inr sn) \<and> CHR '':'' \<notin> set (uri_host (sn_uri sn)) \<and>
      announcements (trace w') \<noteq> []"
    by (simp add: Publisher_create_def Sender_create_def Sender_start_def initURI_def announce_def
        URI_default_def empty_uri_def sample_servus_def sample_world_def Let_def DEFAULT_SESSION_def
        NULL_SESSION_def)
  then obtain w' sn where c: "?c = (w', Inr sn)" and h: "CHR '':'' \<notin> set (uri_host (sn_uri sn))"
    and n: "announcements (trace w') \<noteq> []" by blast
  have a: "announcements (trace w') = announcements (trace (sample_world [])) @ [getAddress sn]"
    using Publisher_created [OF c] n by (auto simp: sample_world_def split: if_splits)
  let ?r = "\<lparr>nr_servus = 1, nr_session = [], nr_sockets = [], nr_entries = [], nr_updated = False\<rparr>"
  have k: "net_ok ?r" "u \<notin> connected ?r" "sv_get sample_servus (nr_servus ?r) i key e = nr_session ?r" for u i key e
    by (simp_all add: net_ok_def connected_def sample_servus_def)
  let ?u = "buildZmqAddress DEFAULT_SCHEMA (uri_host (sn_uri sn)) (uri_port (sn_uri sn))"
  obtain v2 where z: "z_connect sample_zmq 3 ?u (sample_world []) = (v2, True)" by simp
  have "\<exists>r'. instanceAdded sample_zmq sample_servus (\<lambda>_. False) (\<lambda>i w. (w, Inr 3)) (getAddress sn)
      (?r, sample_world []) = ((r', v2), Inr ()) \<and>
    map_of (nr_sockets r') ?u = Some 3 \<and> 3 \<in> set (nr_entries r') \<and> nr_updated r'"
    by (rule announced_address_connects [where v = "sample_world []" and s = 3, OF c a h refl k(1,2,3) _ _ z])
      simp_all
  then show ?thesis by blast
qed

text \<open>C25: every socket of a subscriber, in whatever state the subscriber got into, carries
  the topic of connections; of the topics of the socket that arrive as subscription messages at
  the monitor of a publisher on a host with the same memory layout, that one runs the
  notification, and no other does.\<close>

theorem meerkat_notifies:
  assumes "sub_reach Z S os h print (sub, w)" and "fresh_trace (trace w)"
    and "s \<in> snd ` set (nr_sockets (sub_net sub))"
    and "big_endian h' = big_endian h" and "high_first h' = high_first h"
  shows "mem128 h (MEERKAT S) \<in># topics s (trace w) \<and>
    (\<forall>t p v v1 follows. t \<in># topics s (trace w) \<longrightarrow>
       z_recv Z' p False v = (v1, Some (subscription_message t, follows)) \<longrightarrow>
       Monitor_process Z' S h' notify p (\<lparr>mon_xpub = True, mon_socket = p\<rparr>, v) =
         (case (if t = mem128 h (MEERKAT S) then notify_connection notify v1 else (v1, Inr False)) of
            (v2, x) \<Rightarrow> ((\<lparr>mon_xpub = True, mon_socket = p\<rparr>, v2), x)))"
proof -
  have f: "filtered S h (sub_events sub) (trace w) s" using sub_reach_filtered(1) [OF assms(1-3)] .
  have "Monitor_process Z' S h' notify p (\<lparr>mon_xpub = True, mon_socket = p\<rparr>, v) =
         (case (if t = mem128 h (MEERKAT S) then notify_connection notify v1 else (v1, Inr False)) of
            (v2, x) \<Rightarrow> ((\<lparr>mon_xpub = True, mon_socket = p\<rparr>, v2), x))"
    if "t \<in># topics s (trace w)" and z: "z_recv Z' p False v = (v1, Some (subscription_message t, follows))"
    for t p v v1 follows
  proof -
    have "t \<in> mem128 h ` set (MEERKAT S # map fst (sub_events sub))"
      using that(1) f by (simp add: filtered_def filters_for_def image_image)
    then obtain k where t: "t = mem128 h k" by blast
    from XPub_process_subscription [OF z [unfolded t], of h'] assms(4,5) t
    show ?thesis by (simp add: Monitor_process_def)
  qed
  with f show ?thesis by (simp add: filtered_def filters_for_def)
qed

theorem meerkat_notifies_witness:
  "\<exists>sub w v1. Monitor_process sample_zmq sample_servus sample_host (\<lambda>e. (e, Inr ())) 4
      (\<lparr>mon_xpub = True, mon_socket = 4\<rparr>,
       sample_world [(subscription_message (mem128 sample_host (MEERKAT sample_servus)), False)]) =
      ((\<lparr>mon_xpub = True, mon_socket = 4\<rparr>, v1), Inr True) \<and>
    callbacks (trace v1) = [(On_connection, None)] \<and>
    sub_reach sample_zmq sample_servus sample_os sample_host sample_print (sub, w)"
proof (rule sample_subscribed [of sample_os sample_host "U128 1 2" "\<lambda>d e. (e, Inr ())" "[]"])
  fix sub w a
  assume r: "sub_reach sample_zmq sample_servus sample_os sample_host sample_print (sub, w)"
    and n: "nr_sockets (sub_net sub) = [(a, 1)]" and fr: "fresh_trace (trace w)"
  let ?m = "(subscription_message (mem128 sample_host (MEERKAT sample_servus)), False)"
  have s: "1 \<in> snd ` set (nr_sockets (sub_net sub))" using n by simp
  obtain v1 where z: "z_recv sample_zmq 4 False (sample_world [?m]) = (v1, Some ?m)"
    and c: "callbacks (trace v1) = []"
    by (simp add: sample_world_def)
  from meerkat_notifies [OF r fr s refl refl, of sample_zmq "\<lambda>e. (e, Inr ())"] z c r show ?thesis
    by (fastforce simp: notify_connection_def run_callback_def)
qed

text \<open>C39: a service sends a broker the address of its publisher. Whatever comes of the
  connection attempt of the subscriber that shares the broker, unless it throws, the broker sends
  back the frame it received, and the service that receives this reply returns true: also when the
  connection failed, against its documentation.\<close>

theorem broker_echoes:
  assumes "frame = (bytes_of_string (getAddress publisher), False)"
    and "z_socket Zs ZMQ_REQ v = (v1, q)" and "q \<noteq> 0"
    and "z_connect Zs q (''tcp://'' @ broker) v1 = (v2, True)" and "z_send Zs q frame False v2 = (v3, Sent)"
    and "sys_objs s r = Some (C_subscriber sub)" and "z_recv Z socket False w = (w1, Some frame)"
    and "Subscriber_addConnection Z S h (''tcp://'' @ getAddress publisher) (sub, w1) = ((sub', w2), Inr ok)"
    and "z_recv Zs q False v3 = (v4, Some frame)"
  shows "\<exists>s' w3 status. Broker_process Z (broker_addConnection Z S h r) socket (s, w) = ((s', w3), Inr True) \<and>
    sys_objs s' r = Some (C_subscriber sub') \<and> trace w3 = trace w2 @ [Call_send socket frame status] \<and>
    Service_subscribe Zs broker publisher v = (z_close Zs q v4, True)"
  using assms
  by (simp add: Broker_process_def broker_addConnection_def Receiver_addConnection_def set_obj_def
      Service_subscribe_def)

theorem broker_echoes_witness:
  "\<exists>s' w3 v'. Broker_process (sample_zmq\<lparr>zmq_connect := \<lambda>s a e. (e, False)\<rparr>)
      (broker_addConnection (sample_zmq\<lparr>zmq_connect := \<lambda>s a e. (e, False)\<rparr>) sample_servus sample_host 0) 9
      (\<lparr>sys_objs = [0 \<mapsto> C_subscriber \<lparr>sub_net = \<lparr>nr_servus = 1, nr_session = [], nr_sockets = [],
          nr_entries = [], nr_updated = False\<rparr>, sub_events = [], sub_self = U128 0 1\<rparr>],
        sys_heap = Map.empty, sys_world = sample_world []\<rparr>,
       sample_world [(bytes_of_string (getAddress sample_sender), False)]) = ((s', w3), Inr True) \<and>
    Call_connect 1 (''tcp://'' @ getAddress sample_sender) False \<in> set (trace w3) \<and>
    (\<forall>u. Call_connect 1 u True \<notin> set (trace w3)) \<and>
    Service_subscribe sample_zmq ''broker:1'' sample_sender
      (sample_world [(bytes_of_string (getAddress sample_sender), False)]) = (v', True)"
proof -
  let ?Z = "sample_zmq\<lparr>zmq_connect := \<lambda>s a e. (e, False)\<rparr>"
  let ?sub = "\<lparr>sub_net = \<lparr>nr_servus = 1, nr_session = [], nr_sockets = [], nr_entries = [],
     nr_updated = False\<rparr>, sub_events = [], sub_self = U128 0 1\<rparr> :: net subscriber"
  let ?s = "\<lparr>sys_objs = [0 \<mapsto> C_subscriber ?sub], sys_heap = Map.empty, sys_world = sample_world []\<rparr>"
  define a where "a = getAddress sample_sender"
  let ?f = "(bytes_of_string a, False)"
  have zs: "z_recv ?Z s b w = z_recv sample_zmq s b w" "z_socket ?Z k w = z_socket sample_zmq k w"
    "z_setsockopt ?Z s opt w = z_setsockopt sample_zmq s opt w" "z_close ?Z s w = z_close sample_zmq s w"
    "z_connect ?Z s u w = (emit (Call_connect s u False) w, False)"
    for s b k u opt and w :: "net zworld"
    by (simp_all add: z_recv_def z_socket_def z_setsockopt_def z_close_def z_connect_def)
  have "\<exists>w1. z_recv ?Z 9 False (sample_world [?f]) = (w1, Some ?f) \<and> env w1 = (1, []) \<and> trace w1 = [Call_recv 9 (Some ?f)]"
    by (simp add: zs sample_world_def)
  then obtain w1 where r: "z_recv ?Z 9 False (sample_world [?f]) = (w1, Some ?f)"
    and e: "env w1 = (1, [])" and t1: "trace w1 = [Call_recv 9 (Some ?f)]"
    by blast
  have "\<exists>w2. Subscriber_addConnection ?Z sample_servus sample_host (''tcp://'' @ a) (?sub, w1) = ((?sub, w2), Inr False) \<and>
    Call_connect 1 (''tcp://'' @ a) False \<in> set (trace w2) \<and> (\<forall>u. Call_connect 1 u True \<notin> set (trace w2))"
    by (simp add: Subscriber_addConnection_def on_net_def net_addConnection_def Subscriber_createSocket_def
        set_filter_def set_filters_def net_connect_def release_def sockets_of_def u128_zero_def zs e t1)
  then obtain w2 where c: "Subscriber_addConnection ?Z sample_servus sample_host (''tcp://'' @ a) (?sub, w1) =
      ((?sub, w2), Inr False)"
    and t2: "Call_connect 1 (''tcp://'' @ a) False \<in> set (trace w2)" "\<forall>u. Call_connect 1 u True \<notin> set (trace w2)"
    by blast
  obtain v1 v2 v3 v4 where v: "z_socket sample_zmq ZMQ_REQ (sample_world [?f]) = (v1, 1)"
    "z_connect sample_zmq 1 (''tcp://'' @ ''broker:1'') v1 = (v2, True)" "z_send sample_zmq 1 ?f False v2 = (v3, Sent)"
    "z_recv sample_zmq 1 False v3 = (v4, Some ?f)"
    by (simp add: sample_world_def)
  from broker_echoes [of ?f, unfolded a_def, OF refl v(1) [unfolded a_def] _ v(2,3) [unfolded a_def],
      of ?s 0 ?sub, OF _ _ r [unfolded a_def] c [unfolded a_def] v(4) [unfolded a_def]] t2
  show ?thesis unfolding a_def by fastforce
qed

end
